(* ===== verification/SN_Prelude.thy ===== *)
theory SN_Prelude
  imports Complex_Main "HOL-Library.Word" "HOL-Library.Multiset"
begin

text \<open>
  Shared vocabulary of the SerialNet development: the machine types the C++ code uses
  (\<open>gsl::byte\<close>, \<open>ByteVec\<close>, \<open>std::size_t\<close>, \<open>double\<close> time points), the failures a C++
  operation can end in, the small part of \<open>std::vector\<close> the code relies on, and the
  generic lemmas on lists, words and results that the component theories use.

  A \<open>double\<close> is read as a real number: the rounding of floating point arithmetic is not
  part of the model. An operation that can throw, fail an \<open>assert\<close> or run into undefined
  behaviour returns a value of \<open>'a result\<close>, with \<open>Inl\<close> naming the failure.
\<close>

unbundle bit_operations_syntax

section \<open>Types\<close>

type_synonym byte = "8 word"
type_synonym byte_vec = "byte list"
type_synonym size_type = "64 word"
type_synonym time = real

datatype cpp_error =
    Out_Of_Bounds          \<comment> \<open>access outside a vector, array or span\<close>
  | Null_Deref             \<comment> \<open>use of a null pointer\<close>
  | Assert_Failed          \<comment> \<open>a failed \<open>assert\<close>\<close>
  | Length_Error           \<comment> \<open>\<open>std::length_error\<close>: a vector larger than \<open>max_size\<close>\<close>
  | Use_After_Free         \<comment> \<open>access to an object that was destroyed\<close>
  | Runtime_Error string   \<comment> \<open>\<open>std::runtime_error\<close> with its text\<close>

type_synonym 'a result = "cpp_error + 'a"

definition rbind :: "'a result \<Rightarrow> ('a \<Rightarrow> 'b result) \<Rightarrow> 'b result" where
  "rbind r f = (case r of Inl e \<Rightarrow> Inl e | Inr x \<Rightarrow> f x)"

text \<open>\<open>std::vector::resize\<close>: shorten, or extend with value-initialised elements.\<close>

definition vec_resize :: "nat \<Rightarrow> byte_vec \<Rightarrow> byte_vec" where
  "vec_resize n v = take n v @ replicate (n - length v) 0"

text \<open>\<open>std::vector<gsl::byte>::max_size\<close> on a 64 bit platform.\<close>

definition vec_max_size :: nat where
  "vec_max_size = 2 ^ 63 - 1"

definition xor_all :: "byte_vec \<Rightarrow> byte" where
  "xor_all bs = foldl (XOR) 0 bs"

section \<open>Collections\<close>

named_theorems layout_simps "layout of packet headers: encoders, decoders and sizes"
named_theorems frame_simps "one step of the frame decoder"
named_theorems master_simps "unfolding of the operations of the bus master"

section \<open>Results\<close>

lemma rbind_simps [simp]:
  "rbind (Inl e) f = Inl e"
  "rbind (Inr x) f = f x"
  by (simp_all add: rbind_def)

lemma rbind_assoc: "rbind (rbind r f) g = rbind r (\<lambda>x. rbind (f x) g)"
  by (cases r) simp_all

lemma rbind_eq_Inr: "rbind r f = Inr y \<longleftrightarrow> (\<exists>x. r = Inr x \<and> f x = Inr y)"
  by (cases r) auto

lemma rbind_eq_Inl: "rbind r f = Inl e \<longleftrightarrow> r = Inl e \<or> (\<exists>x. r = Inr x \<and> f x = Inl e)"
  by (cases r) auto

section \<open>Lists\<close>

lemma length_vec_resize [simp]: "length (vec_resize n v) = n"
  by (simp add: vec_resize_def)

lemma vec_resize_id [simp]: "length v = n \<Longrightarrow> vec_resize n v = v"
  by (auto simp: vec_resize_def)

lemma list_update_take_Suc:
  "i < length v \<Longrightarrow> take (Suc i) (v[i := x]) = take i v @ [x]"
  by (simp add: take_Suc_conv_app_nth)

lemma drop_butlast_last: "n < length xs \<Longrightarrow> drop n xs = drop n (butlast xs) @ [last xs]"
  by (metis append_butlast_last_id butlast_drop drop_eq_Nil last_drop not_le)

lemma find_append:
  "find P (xs @ ys) = (case find P xs of None \<Rightarrow> find P ys | Some x \<Rightarrow> Some x)"
  by (induction xs) auto

lemma find_Some_in: "find P xs = Some x \<Longrightarrow> x \<in> set xs \<and> P x"
  by (induction xs) (auto split: if_splits)

lemma find_None_all: "find P xs = None \<Longrightarrow> x \<in> set xs \<Longrightarrow> \<not> P x"
  by (induction xs) (auto split: if_splits)

section \<open>Words\<close>

lemma mask_0x7f: "(0x7f :: 'a::len word) = mask 7"
  by (simp add: mask_eq_exp_minus_1)

lemma bit_0x80: "bit (0x80 :: int) n \<longleftrightarrow> n = 7"
proof -
  have "(0x80 :: int) = 2 ^ 7" by simp
  then show ?thesis by (simp only: bit_exp_iff) auto
qed

lemma take_bit_small: "unat (L :: 'a::len word) < 2 ^ n \<Longrightarrow> take_bit n L = L"
  by (simp add: word_unat_eq_iff unsigned_take_bit_eq take_bit_nat_eq_self_iff)

lemma xor_zero_iff_eq: "(a :: byte) XOR b = 0 \<longleftrightarrow> a = b"
  by (metis xor.assoc xor.left_neutral xor.right_neutral xor_self_eq)

lemma xor_left_cancel [simp]: "(a :: byte) XOR b = a XOR c \<longleftrightarrow> b = c"
  by (metis xor.assoc xor.left_neutral xor_self_eq)

lemma foldl_xor_shift: "foldl (XOR) ((a :: byte) XOR c) bs = a XOR foldl (XOR) c bs"
  by (induction bs arbitrary: c) (simp_all add: xor.assoc)

lemma foldl_xor: "foldl (XOR) (a :: byte) bs = a XOR xor_all bs"
  using foldl_xor_shift [of a 0 bs] by (simp add: xor_all_def)

lemma xor_all_Nil [simp]: "xor_all [] = 0"
  by (simp add: xor_all_def)

lemma xor_all_Cons [simp]: "xor_all (b # bs) = b XOR xor_all bs"
  using foldl_xor [of b bs] by (simp add: xor_all_def)

lemma xor_all_append [simp]: "xor_all (xs @ ys) = xor_all xs XOR xor_all ys"
  by (induction xs) (simp_all add: ac_simps)

lemma xor_all_update:
  "i < length bs \<Longrightarrow> xor_all (bs[i := b]) = xor_all bs XOR (bs ! i) XOR b"
proof (induction bs arbitrary: i)
  case Nil
  then show ?case by simp
next
  case (Cons c bs)
  then show ?case
    by (cases i) (simp_all add: ac_simps)
qed

lemma xor_all_update_neq:
  assumes "i < length bs" and "b \<noteq> bs ! i"
  shows "xor_all (bs[i := b]) \<noteq> xor_all bs"
proof
  assume "xor_all (bs[i := b]) = xor_all bs"
  then have "xor_all bs XOR ((bs ! i) XOR b) = xor_all bs XOR 0"
    using assms(1) by (simp add: xor_all_update ac_simps)
  then have "(bs ! i) XOR b = 0"
    by (metis xor.assoc xor_self_eq xor.left_neutral)
  with assms(2) show False by (simp add: xor_zero_iff_eq)
qed

end
