(* ===== verification/Serial_Protocol.thy ===== *)
theory Serial_Protocol
  imports SN_Prelude
begin

text \<open>
  The wire format of \<open>src/src/interfaces/SerialProtocol.h\<close>: message types, local addresses,
  channel types and the packet headers. An \<open>enum class : uint8_t\<close> that is filled by a cast
  from the wire can hold a value with no enumerator; the decoders of the named enumerators
  return \<open>None\<close> there, which is the path a \<open>switch\<close> over the enumerators falls through.
  Every header is a record; \<open>fromHeader\<close> is the byte image of the structure (all members have
  size one, so there is no padding) and \<open>toHeader\<close> is the checked cast back, which asserts
  that the packet is at least as long as the structure.
\<close>

section \<open>Message types\<close>

datatype MessageType =
    grant_token | return_token | master_started | master_ended | send_packet
  | mac_update | address_discovery | address_request | address_reply

primrec messageType2Byte :: "MessageType \<Rightarrow> byte" where
  "messageType2Byte grant_token = 0"
| "messageType2Byte return_token = 1"
| "messageType2Byte master_started = 2"
| "messageType2Byte master_ended = 3"
| "messageType2Byte send_packet = 4"
| "messageType2Byte mac_update = 5"
| "messageType2Byte address_discovery = 6"
| "messageType2Byte address_request = 7"
| "messageType2Byte address_reply = 8"

definition byte2MessageType :: "byte \<Rightarrow> MessageType option" where
  "byte2MessageType b =
     (if b = 0 then Some grant_token
      else if b = 1 then Some return_token
      else if b = 2 then Some master_started
      else if b = 3 then Some master_ended
      else if b = 4 then Some send_packet
      else if b = 5 then Some mac_update
      else if b = 6 then Some address_discovery
      else if b = 7 then Some address_request
      else if b = 8 then Some address_reply
      else None)"

fun toString_MessageType :: "MessageType option \<Rightarrow> string" where
  "toString_MessageType (Some grant_token) = ''grant_token''"
| "toString_MessageType (Some return_token) = ''return_token''"
| "toString_MessageType (Some master_started) = ''master_started''"
| "toString_MessageType (Some master_ended) = ''master_ended''"
| "toString_MessageType (Some send_packet) = ''send_packet''"
| "toString_MessageType (Some mac_update) = ''mac_update''"
| "toString_MessageType (Some address_discovery) = ''address_discovery''"
| "toString_MessageType (Some address_request) = ''address_request''"
| "toString_MessageType (Some address_reply) = ''address_reply''"
| "toString_MessageType None = ''''"

section \<open>Local addresses\<close>

type_synonym LocalAddress = byte

definition null_addr :: LocalAddress where
  "null_addr = 0"

definition broadcast :: LocalAddress where
  "broadcast = 0xff"

definition localAddress2Byte :: "LocalAddress \<Rightarrow> byte" where
  "localAddress2Byte local = local"

definition toLocalAddress_byte :: "byte \<Rightarrow> LocalAddress" where
  "toLocalAddress_byte b = b"

definition toLocalAddress_int :: "int \<Rightarrow> LocalAddress" where
  "toLocalAddress_int i = word_of_int i"

section \<open>Channel types\<close>

datatype ChannelType = illegal_type | raw_stream | tun_format | tap_format

primrec channelType2Byte :: "ChannelType \<Rightarrow> byte" where
  "channelType2Byte illegal_type = 0"
| "channelType2Byte raw_stream = 1"
| "channelType2Byte tun_format = 2"
| "channelType2Byte tap_format = 3"

definition byte2ChannelType :: "byte \<Rightarrow> ChannelType option" where
  "byte2ChannelType b =
     (if b = 0 then Some illegal_type
      else if b = 1 then Some raw_stream
      else if b = 2 then Some tun_format
      else if b = 3 then Some tap_format
      else None)"

fun toString_ChannelType :: "ChannelType option \<Rightarrow> string" where
  "toString_ChannelType (Some illegal_type) = ''illegal_type''"
| "toString_ChannelType (Some raw_stream) = ''raw_stream''"
| "toString_ChannelType (Some tun_format) = ''tun_format''"
| "toString_ChannelType (Some tap_format) = ''tap_format''"
| "toString_ChannelType None = ''''"

section \<open>Packet headers\<close>

type_synonym UniqueId = byte_vec  \<comment> \<open>\<open>std::array<gsl::byte, 8>\<close>\<close>
type_synonym Crc32 = byte_vec     \<comment> \<open>\<open>std::array<gsl::byte, 4>\<close>\<close>
type_synonym MacAddr = byte_vec   \<comment> \<open>\<open>std::array<gsl::byte, 6>\<close>\<close>

record GrantToken =
  gt_m_type :: byte
  gt_m_tokenReceiver :: LocalAddress

record ReturnToken =
  rt_m_type :: byte
  rt_m_src :: LocalAddress

record MasterStarted =
  ms_m_type :: byte

record MasterEnded =
  me_m_type :: byte

record SendPacket =
  sp_m_type :: byte
  sp_m_chType :: byte
  sp_m_destAddr :: LocalAddress
  sp_m_srcAddr :: LocalAddress

record MacUpdate =
  mu_m_type :: byte
  mu_m_destAddr :: LocalAddress
  mu_m_srcAddr :: LocalAddress
  mu_m_hintAddr :: LocalAddress
  mu_m_mac :: MacAddr

record AddressDiscovery =
  ad_m_type :: byte
  ad_m_randomDelay :: byte
  ad_m_randomHoldOff :: byte

record AddressRequest =
  aq_m_type :: byte
  aq_m_uniqueId :: UniqueId
  aq_m_channelType :: byte
  aq_m_crc32 :: Crc32

record AddressReply =
  ar_m_type :: byte
  ar_m_assigned :: LocalAddress
  ar_m_uniqueId :: UniqueId

text \<open>The constructor \<open>GrantToken(LocalAddress)\<close>.\<close>

definition mkGrantToken :: "LocalAddress \<Rightarrow> GrantToken" where
  "mkGrantToken tr = \<lparr>gt_m_type = messageType2Byte grant_token, gt_m_tokenReceiver = tr\<rparr>"

text \<open>\<open>sizeof\<close> of the header that belongs to a message type.\<close>

primrec sizeofHeader :: "MessageType \<Rightarrow> nat" where
  "sizeofHeader grant_token = 2"
| "sizeofHeader return_token = 2"
| "sizeofHeader master_started = 1"
| "sizeofHeader master_ended = 1"
| "sizeofHeader send_packet = 4"
| "sizeofHeader mac_update = 10"
| "sizeofHeader address_discovery = 3"
| "sizeofHeader address_request = 14"
| "sizeofHeader address_reply = 10"

text \<open>The size assertion of \<open>toHeader(const EtherPkt&)\<close>.\<close>

definition toHeader :: "MessageType \<Rightarrow> (byte_vec \<Rightarrow> 'h) \<Rightarrow> byte_vec \<Rightarrow> 'h result" where
  "toHeader mt layout p = (if sizeofHeader mt \<le> length p then Inr (layout p) else Inl Assert_Failed)"

definition layout_GrantToken :: "byte_vec \<Rightarrow> GrantToken" where
  "layout_GrantToken b = \<lparr>gt_m_type = b ! 0, gt_m_tokenReceiver = b ! 1\<rparr>"

definition layout_ReturnToken :: "byte_vec \<Rightarrow> ReturnToken" where
  "layout_ReturnToken b = \<lparr>rt_m_type = b ! 0, rt_m_src = b ! 1\<rparr>"

definition layout_SendPacket :: "byte_vec \<Rightarrow> SendPacket" where
  "layout_SendPacket b =
     \<lparr>sp_m_type = b ! 0, sp_m_chType = b ! 1, sp_m_destAddr = b ! 2, sp_m_srcAddr = b ! 3\<rparr>"

definition layout_MacUpdate :: "byte_vec \<Rightarrow> MacUpdate" where
  "layout_MacUpdate b =
     \<lparr>mu_m_type = b ! 0, mu_m_destAddr = b ! 1, mu_m_srcAddr = b ! 2, mu_m_hintAddr = b ! 3,
      mu_m_mac = take 6 (drop 4 b)\<rparr>"

definition layout_AddressDiscovery :: "byte_vec \<Rightarrow> AddressDiscovery" where
  "layout_AddressDiscovery b =
     \<lparr>ad_m_type = b ! 0, ad_m_randomDelay = b ! 1, ad_m_randomHoldOff = b ! 2\<rparr>"

definition layout_AddressRequest :: "byte_vec \<Rightarrow> AddressRequest" where
  "layout_AddressRequest b =
     \<lparr>aq_m_type = b ! 0, aq_m_uniqueId = take 8 (drop 1 b), aq_m_channelType = b ! 9,
      aq_m_crc32 = take 4 (drop 10 b)\<rparr>"

definition layout_AddressReply :: "byte_vec \<Rightarrow> AddressReply" where
  "layout_AddressReply b =
     \<lparr>ar_m_type = b ! 0, ar_m_assigned = b ! 1, ar_m_uniqueId = take 8 (drop 2 b)\<rparr>"

definition fromHeader_GrantToken :: "GrantToken \<Rightarrow> byte_vec" where
  "fromHeader_GrantToken h = [gt_m_type h, gt_m_tokenReceiver h]"

definition fromHeader_ReturnToken :: "ReturnToken \<Rightarrow> byte_vec" where
  "fromHeader_ReturnToken h = [rt_m_type h, rt_m_src h]"

definition fromHeader_MasterStarted :: "MasterStarted \<Rightarrow> byte_vec" where
  "fromHeader_MasterStarted h = [ms_m_type h]"

definition fromHeader_MasterEnded :: "MasterEnded \<Rightarrow> byte_vec" where
  "fromHeader_MasterEnded h = [me_m_type h]"

definition fromHeader_SendPacket :: "SendPacket \<Rightarrow> byte_vec" where
  "fromHeader_SendPacket h = [sp_m_type h, sp_m_chType h, sp_m_destAddr h, sp_m_srcAddr h]"

definition fromHeader_MacUpdate :: "MacUpdate \<Rightarrow> byte_vec" where
  "fromHeader_MacUpdate h =
     [mu_m_type h, mu_m_destAddr h, mu_m_srcAddr h, mu_m_hintAddr h] @ mu_m_mac h"

definition fromHeader_AddressDiscovery :: "AddressDiscovery \<Rightarrow> byte_vec" where
  "fromHeader_AddressDiscovery h = [ad_m_type h, ad_m_randomDelay h, ad_m_randomHoldOff h]"

definition fromHeader_AddressRequest :: "AddressRequest \<Rightarrow> byte_vec" where
  "fromHeader_AddressRequest h =
     aq_m_type h # aq_m_uniqueId h @ [aq_m_channelType h] @ aq_m_crc32 h"

definition fromHeader_AddressReply :: "AddressReply \<Rightarrow> byte_vec" where
  "fromHeader_AddressReply h = [ar_m_type h, ar_m_assigned h] @ ar_m_uniqueId h"

text \<open>The array members have the lengths their \<open>std::array\<close> types fix.\<close>

definition wf_MacUpdate :: "MacUpdate \<Rightarrow> bool" where
  "wf_MacUpdate h \<longleftrightarrow> length (mu_m_mac h) = 6"

definition wf_AddressRequest :: "AddressRequest \<Rightarrow> bool" where
  "wf_AddressRequest h \<longleftrightarrow> length (aq_m_uniqueId h) = 8 \<and> length (aq_m_crc32 h) = 4"

definition wf_AddressReply :: "AddressReply \<Rightarrow> bool" where
  "wf_AddressReply h \<longleftrightarrow> length (ar_m_uniqueId h) = 8"

lemmas layout_defs [layout_simps] =
  layout_GrantToken_def layout_ReturnToken_def layout_SendPacket_def layout_MacUpdate_def
  layout_AddressDiscovery_def layout_AddressRequest_def layout_AddressReply_def
  fromHeader_GrantToken_def fromHeader_ReturnToken_def fromHeader_MasterStarted_def
  fromHeader_MasterEnded_def fromHeader_SendPacket_def fromHeader_MacUpdate_def
  fromHeader_AddressDiscovery_def fromHeader_AddressRequest_def fromHeader_AddressReply_def
  toHeader_def wf_MacUpdate_def wf_AddressRequest_def wf_AddressReply_def

section \<open>Enumerations and bytes\<close>

lemma byte2MessageType_messageType2Byte [simp]:
  "byte2MessageType (messageType2Byte mt) = Some mt"
  by (cases mt) (simp_all add: byte2MessageType_def)

lemma messageType2Byte_inject [simp]: "messageType2Byte a = messageType2Byte b \<longleftrightarrow> a = b"
  by (cases a; cases b) simp_all

lemma byte2MessageType_Some: "byte2MessageType b = Some mt \<Longrightarrow> b = messageType2Byte mt"
  by (auto simp: byte2MessageType_def split: if_splits)

lemma byte2MessageType_None: "byte2MessageType b = None \<longleftrightarrow> 9 \<le> b"
proof -
  have "unat b \<noteq> 0 \<and> unat b \<noteq> 1 \<and> unat b \<noteq> 2 \<and> unat b \<noteq> 3 \<and> unat b \<noteq> 4 \<and> unat b \<noteq> 5 \<and>
      unat b \<noteq> 6 \<and> unat b \<noteq> 7 \<and> unat b \<noteq> 8 \<longleftrightarrow> 9 \<le> unat b"
    by arith
  then show ?thesis
    by (simp add: byte2MessageType_def word_unat_eq_iff word_le_nat_alt)
qed

lemma byte2ChannelType_channelType2Byte [simp]:
  "byte2ChannelType (channelType2Byte ct) = Some ct"
  by (cases ct) (simp_all add: byte2ChannelType_def)

lemma byte2ChannelType_Some: "byte2ChannelType b = Some ct \<Longrightarrow> b = channelType2Byte ct"
  by (auto simp: byte2ChannelType_def split: if_splits)

lemma toString_MessageType_inj:
  "toString_MessageType a = toString_MessageType b \<longleftrightarrow> a = b"
  by (cases a rule: toString_MessageType.cases; cases b rule: toString_MessageType.cases) simp_all

lemma toString_ChannelType_inj:
  "toString_ChannelType a = toString_ChannelType b \<longleftrightarrow> a = b"
  by (cases a rule: toString_ChannelType.cases; cases b rule: toString_ChannelType.cases) simp_all

section \<open>Headers and bytes\<close>

lemma header_roundtrips:
  "toHeader grant_token layout_GrantToken (fromHeader_GrantToken g @ r) = Inr g"
  "toHeader return_token layout_ReturnToken (fromHeader_ReturnToken t @ r) = Inr t"
  "toHeader send_packet layout_SendPacket (fromHeader_SendPacket s @ r) = Inr s"
  "toHeader address_discovery layout_AddressDiscovery (fromHeader_AddressDiscovery d @ r) = Inr d"
  by (simp_all add: layout_simps)

lemma MacUpdate_roundtrip:
  "wf_MacUpdate h \<Longrightarrow> toHeader mac_update layout_MacUpdate (fromHeader_MacUpdate h @ r) = Inr h"
  by (simp add: layout_simps)

lemma AddressRequest_roundtrip:
  "wf_AddressRequest h \<Longrightarrow>
   toHeader address_request layout_AddressRequest (fromHeader_AddressRequest h @ r) = Inr h"
  by (simp add: layout_simps nth_append nth_Cons')

lemma AddressReply_roundtrip:
  "wf_AddressReply h \<Longrightarrow>
   toHeader address_reply layout_AddressReply (fromHeader_AddressReply h @ r) = Inr h"
  by (simp add: layout_simps)

lemma length_fromHeader [simp]:
  "length (fromHeader_GrantToken g) = sizeofHeader grant_token"
  "length (fromHeader_ReturnToken t) = sizeofHeader return_token"
  "length (fromHeader_MasterStarted m) = sizeofHeader master_started"
  "length (fromHeader_MasterEnded e) = sizeofHeader master_ended"
  "length (fromHeader_SendPacket s) = sizeofHeader send_packet"
  "length (fromHeader_AddressDiscovery d) = sizeofHeader address_discovery"
  "wf_MacUpdate mu \<Longrightarrow> length (fromHeader_MacUpdate mu) = sizeofHeader mac_update"
  "wf_AddressRequest aq \<Longrightarrow> length (fromHeader_AddressRequest aq) = sizeofHeader address_request"
  "wf_AddressReply ar \<Longrightarrow> length (fromHeader_AddressReply ar) = sizeofHeader address_reply"
  by (simp_all add: layout_simps)

end
