(* ===== verification/Tx_Queue.thy ===== *)
theory Tx_Queue
  imports Serial_Protocol
begin

text \<open>
  \<open>src/src/core/OwnAddress.{h,cpp}\<close> and \<open>src/src/core/TxQueue.{h,cpp}\<close>: the address of the
  node and the queue of client packets. Two fields of the record are observations, not
  members: \<open>tq_sent\<close> is the sequence of messages handed to \<open>MsgEtherIf::sendMsg\<close>, and
  \<open>tq_newAddr\<close> the sequence of \<open>msgHostRx_newAddr\<close> notifications. A registered host driver is
  a number; \<open>None\<close> is the null pointer. Log output is not modelled.
\<close>

section \<open>Own address\<close>

record OwnAddress =
  oa_addr :: LocalAddress
  oa_dynamic :: bool
  oa_hasListener :: bool

definition mkOwnAddress :: "LocalAddress \<Rightarrow> OwnAddress" where
  "mkOwnAddress la = \<lparr>oa_addr = la, oa_dynamic = (la = null_addr), oa_hasListener = False\<rparr>"

definition oa_valid :: "OwnAddress \<Rightarrow> bool" where
  "oa_valid oa \<longleftrightarrow> oa_addr oa \<noteq> null_addr"

text \<open>\<open>set\<close> returns the addresses reported to the listener.\<close>

definition oa_set :: "LocalAddress \<Rightarrow> OwnAddress \<Rightarrow> OwnAddress \<times> LocalAddress list" where
  "oa_set addr oa =
     (let change = (oa_addr oa \<noteq> addr) in
      (oa\<lparr>oa_addr := addr\<rparr>, if oa_hasListener oa \<and> change then [addr] else []))"

definition oa_setListener :: "bool \<Rightarrow> OwnAddress \<Rightarrow> OwnAddress" where
  "oa_setListener ac oa = oa\<lparr>oa_hasListener := ac\<rparr>"

definition oa_masterStarted :: "OwnAddress \<Rightarrow> OwnAddress \<times> LocalAddress list" where
  "oa_masterStarted oa = (if oa_dynamic oa then oa_set null_addr oa else (oa, []))"

section \<open>Transmit queue\<close>

type_synonym host_driver = nat

record TxQueue =
  tq_txMsg :: "byte_vec list"
  tq_ownAddress :: OwnAddress
  tq_rxIfRaw :: "host_driver option"
  tq_rxIfTap :: "host_driver option"
  tq_rxIfTun :: "host_driver option"
  tq_sent :: "byte_vec list"
  tq_newAddr :: "LocalAddress list"

definition mkTxQueue :: "LocalAddress \<Rightarrow> TxQueue" where
  "mkTxQueue ownAddr =
     \<lparr>tq_txMsg = [], tq_ownAddress = mkOwnAddress ownAddr, tq_rxIfRaw = None, tq_rxIfTap = None,
      tq_rxIfTun = None, tq_sent = [], tq_newAddr = []\<rparr>"

text \<open>\<open>m_msgEtherIf->sendMsg(msg)\<close>.\<close>

definition sendMsg :: "byte_vec \<Rightarrow> TxQueue \<Rightarrow> TxQueue" where
  "sendMsg msg q = q\<lparr>tq_sent := tq_sent q @ [msg]\<rparr>"

definition clientAddress :: "TxQueue \<Rightarrow> LocalAddress" where
  "clientAddress q = oa_addr (tq_ownAddress q)"

definition setAddress :: "LocalAddress \<Rightarrow> TxQueue \<Rightarrow> TxQueue" where
  "setAddress addr q = (case oa_set addr (tq_ownAddress q) of (oa, ns) \<Rightarrow>
     q\<lparr>tq_ownAddress := oa, tq_newAddr := tq_newAddr q @ ns\<rparr>)"

definition sendPacket :: "byte_vec \<Rightarrow> LocalAddress \<Rightarrow> ChannelType \<Rightarrow> TxQueue \<Rightarrow> TxQueue" where
  "sendPacket data destAddress chType q =
     (let p = \<lparr>sp_m_type = messageType2Byte send_packet, sp_m_chType = channelType2Byte chType,
               sp_m_destAddr = destAddress, sp_m_srcAddr = oa_addr (tq_ownAddress q)\<rparr>
      in q\<lparr>tq_txMsg := tq_txMsg q @ [fromHeader_SendPacket p @ data]\<rparr>)"

definition sendReturnToken :: "TxQueue \<Rightarrow> TxQueue" where
  "sendReturnToken q =
     sendMsg (fromHeader_ReturnToken
       \<lparr>rt_m_type = messageType2Byte return_token, rt_m_src = oa_addr (tq_ownAddress q)\<rparr>) q"

definition sendClientPacket :: "TxQueue \<Rightarrow> TxQueue result" where
  "sendClientPacket q =
     (case tq_txMsg q of
        [] \<Rightarrow> Inl Out_Of_Bounds
      | packet # rest \<Rightarrow> Inr ((sendMsg packet q)\<lparr>tq_txMsg := rest\<rparr>))"

definition txQueueEmpty :: "TxQueue \<Rightarrow> bool" where
  "txQueueEmpty q \<longleftrightarrow> tq_txMsg q = []"

definition sendClientPacketOrReturnToken :: "TxQueue \<Rightarrow> TxQueue result" where
  "sendClientPacketOrReturnToken q =
     (if tq_txMsg q = [] then Inr (sendReturnToken q) else sendClientPacket q)"

definition sendMasterPacket :: "byte_vec \<Rightarrow> TxQueue \<Rightarrow> TxQueue" where
  "sendMasterPacket packet q = sendMsg packet q"

definition msgHostTx_sendPacket ::
    "byte_vec \<Rightarrow> LocalAddress \<Rightarrow> ChannelType \<Rightarrow> TxQueue \<Rightarrow> TxQueue" where
  "msgHostTx_sendPacket data destAddr chType q =
     (if oa_valid (tq_ownAddress q) then sendPacket data destAddr chType q else q)"

definition msgHostTx_sendMacUpdate :: "MacAddr \<Rightarrow> TxQueue \<Rightarrow> TxQueue" where
  "msgHostTx_sendMacUpdate mac q =
     (if \<not> oa_valid (tq_ownAddress q) then q
      else (let own = oa_addr (tq_ownAddress q);
                p = \<lparr>mu_m_type = messageType2Byte mac_update, mu_m_destAddr = broadcast,
                     mu_m_srcAddr = own, mu_m_hintAddr = own, mu_m_mac = mac\<rparr>
            in q\<lparr>tq_txMsg := tq_txMsg q @ [fromHeader_MacUpdate p]\<rparr>))"

definition txq_masterStarted :: "TxQueue \<Rightarrow> TxQueue" where
  "txq_masterStarted q = (case oa_masterStarted (tq_ownAddress q) of (oa, ns) \<Rightarrow>
     q\<lparr>tq_ownAddress := oa, tq_newAddr := tq_newAddr q @ ns\<rparr>)"

definition setAddrUpdateHandler :: "bool \<Rightarrow> TxQueue \<Rightarrow> TxQueue" where
  "setAddrUpdateHandler ac q = q\<lparr>tq_ownAddress := oa_setListener ac (tq_ownAddress q)\<rparr>"

fun setRxHandler :: "host_driver option \<Rightarrow> ChannelType \<Rightarrow> TxQueue \<Rightarrow> TxQueue" where
  "setRxHandler rxIf raw_stream q = q\<lparr>tq_rxIfRaw := rxIf\<rparr>"
| "setRxHandler rxIf tap_format q = q\<lparr>tq_rxIfTap := rxIf\<rparr>"
| "setRxHandler rxIf tun_format q = q\<lparr>tq_rxIfTun := rxIf\<rparr>"
| "setRxHandler rxIf illegal_type q = q"

fun getRxIf :: "ChannelType option \<Rightarrow> TxQueue \<Rightarrow> host_driver option" where
  "getRxIf (Some raw_stream) q = tq_rxIfRaw q"
| "getRxIf (Some tap_format) q = tq_rxIfTap q"
| "getRxIf (Some tun_format) q = tq_rxIfTun q"
| "getRxIf (Some illegal_type) q = None"
| "getRxIf None q = None"

lemmas txq_defs = sendMsg_def clientAddress_def setAddress_def sendPacket_def sendReturnToken_def
  sendClientPacket_def txQueueEmpty_def sendClientPacketOrReturnToken_def sendMasterPacket_def
  msgHostTx_sendPacket_def msgHostTx_sendMacUpdate_def txq_masterStarted_def
  setAddrUpdateHandler_def oa_valid_def oa_set_def oa_masterStarted_def oa_setListener_def

section \<open>Frame facts\<close>

lemma clientAddress_frame [simp]:
  "clientAddress (sendMsg m q) = clientAddress q"
  "clientAddress (sendPacket data a ct q) = clientAddress q"
  "clientAddress (sendMasterPacket m q) = clientAddress q"
  "clientAddress (msgHostTx_sendPacket data a ct q) = clientAddress q"
  "clientAddress (msgHostTx_sendMacUpdate mac q) = clientAddress q"
  by (simp_all add: txq_defs Let_def)

lemma txMsg_frame [simp]:
  "tq_txMsg (sendMsg m q) = tq_txMsg q"
  "tq_txMsg (sendMasterPacket m q) = tq_txMsg q"
  "tq_txMsg (setAddress a q) = tq_txMsg q"
  "tq_txMsg (txq_masterStarted q) = tq_txMsg q"
  by (simp_all add: txq_defs split: prod.splits)

lemma getRxIf_setRxHandler:
  "getRxIf ct (setRxHandler h ct' q) =
     (if ct = Some ct' \<and> ct' \<noteq> illegal_type then h else getRxIf ct q)"
  by (cases "(ct, q)" rule: getRxIf.cases; cases ct') simp_all

section \<open>The client's protocol\<close>

text \<open>What the node's host drivers and the bus ask of the queue, in any order.\<close>

datatype tx_request =
    Host_Packet byte_vec LocalAddress ChannelType
  | Host_Mac MacAddr
  | Token_Granted

primrec txRequest :: "tx_request \<Rightarrow> TxQueue \<Rightarrow> TxQueue result" where
  "txRequest (Host_Packet data a ct) q = Inr (msgHostTx_sendPacket data a ct q)"
| "txRequest (Host_Mac mac) q = Inr (msgHostTx_sendMacUpdate mac q)"
| "txRequest Token_Granted q = sendClientPacketOrReturnToken q"

fun txRun :: "tx_request list \<Rightarrow> TxQueue \<Rightarrow> TxQueue result" where
  "txRun [] q = Inr q"
| "txRun (r # rs) q = rbind (txRequest r q) (txRun rs)"

text \<open>The packet a request of a host driver puts on the queue of a node with address \<open>own\<close>.\<close>

fun queuedBy :: "LocalAddress \<Rightarrow> tx_request \<Rightarrow> byte_vec list" where
  "queuedBy own (Host_Packet data a ct) =
     [[messageType2Byte send_packet, channelType2Byte ct, a, own] @ data]"
| "queuedBy own (Host_Mac mac) =
     [[messageType2Byte mac_update, broadcast, own, own] @ mac]"
| "queuedBy own Token_Granted = []"

definition returnTokenMsg :: "LocalAddress \<Rightarrow> byte_vec" where
  "returnTokenMsg own = [messageType2Byte return_token, own]"

lemma txRequest_total: "\<exists>q'. txRequest r q = Inr q'"
  by (cases r) (auto simp: txq_defs split: list.splits)

lemma txRun_total: "\<exists>q'. txRun rs q = Inr q'"
proof (induction rs arbitrary: q)
  case Nil
  then show ?case by simp
next
  case (Cons r rs)
  obtain q' where "txRequest r q = Inr q'" using txRequest_total by blast
  with Cons show ?case by simp
qed

lemma txRequest_address:
  "txRequest r q = Inr q' \<Longrightarrow> clientAddress q' = clientAddress q"
  by (cases r) (auto simp: sendClientPacketOrReturnToken_def sendReturnToken_def sendClientPacket_def
      clientAddress_def sendMsg_def msgHostTx_sendPacket_def msgHostTx_sendMacUpdate_def
      sendPacket_def Let_def split: list.splits if_splits)

lemma token_effect:
  assumes "txRequest Token_Granted q = Inr q'"
  shows "case tq_txMsg q of
         [] \<Rightarrow> tq_sent q' = tq_sent q @ [returnTokenMsg (clientAddress q)] \<and> tq_txMsg q' = []
       | p # ps \<Rightarrow> tq_sent q' = tq_sent q @ [p] \<and> tq_txMsg q' = ps"
  using assms
  by (auto simp: sendClientPacketOrReturnToken_def sendReturnToken_def sendClientPacket_def
      clientAddress_def sendMsg_def layout_simps returnTokenMsg_def split: list.splits if_splits)

lemma host_effect:
  assumes "txRequest r q = Inr q'" and "r \<noteq> Token_Granted" and "clientAddress q \<noteq> null_addr"
  shows "tq_sent q' = tq_sent q \<and> tq_txMsg q' = tq_txMsg q @ queuedBy (clientAddress q) r"
  using assms
  by (cases r) (auto simp: msgHostTx_sendPacket_def msgHostTx_sendMacUpdate_def sendPacket_def
      oa_valid_def clientAddress_def layout_simps Let_def)

section \<open>Properties\<close>

text \<open>
  C18: A client uses the bus only when it holds the token, exactly once per token, and loses
  or reorders nothing. For a node with an address, after any interleaving of host packets,
  MAC updates and granted tokens, the number of messages sent equals the number of tokens
  granted; the messages other than returned tokens, followed by the packets still queued,
  are the initially queued packets followed by the packets of the requests, in order.
\<close>

theorem txqueue_token_discipline:
  assumes "txRun rs q = Inr q'" and "clientAddress q \<noteq> null_addr"
    and "returnTokenMsg (clientAddress q) \<notin> set (tq_txMsg q)"
  shows "\<exists>new. tq_sent q' = tq_sent q @ new \<and>
    length new = length (filter (\<lambda>r. r = Token_Granted) rs) \<and>
    filter (\<lambda>p. p \<noteq> returnTokenMsg (clientAddress q)) new @ tq_txMsg q' =
      tq_txMsg q @ concat (map (queuedBy (clientAddress q)) rs)"
  using assms
proof (induction rs arbitrary: q)
  case Nil
  then show ?case by simp
next
  case (Cons r rs)
  let ?own = "clientAddress q" and ?rt = "returnTokenMsg (clientAddress q)"
  from Cons.prems(1) obtain q1 where step: "txRequest r q = Inr q1" and rest: "txRun rs q1 = Inr q'"
    by (auto simp: rbind_eq_Inr)
  have addr: "clientAddress q1 = ?own" using step by (rule txRequest_address)
  have tok: "r = Token_Granted \<Longrightarrow> case tq_txMsg q of
         [] \<Rightarrow> tq_sent q1 = tq_sent q @ [?rt] \<and> tq_txMsg q1 = []
       | p # ps \<Rightarrow> tq_sent q1 = tq_sent q @ [p] \<and> tq_txMsg q1 = ps"
    using token_effect [of q q1] step by simp
  have host: "r \<noteq> Token_Granted \<Longrightarrow> tq_sent q1 = tq_sent q \<and> tq_txMsg q1 = tq_txMsg q @ queuedBy ?own r"
    using host_effect [OF step] Cons.prems(2) by simp
  have not_rt: "?rt \<notin> set (queuedBy ?own r)"
    by (cases r) (simp_all add: returnTokenMsg_def)
  have "?rt \<notin> set (tq_txMsg q1)"
    using Cons.prems(3) tok host not_rt by (cases "r = Token_Granted") (auto split: list.splits)
  then obtain new where new: "tq_sent q' = tq_sent q1 @ new"
    "length new = length (filter (\<lambda>r. r = Token_Granted) rs)"
    "filter (\<lambda>p. p \<noteq> ?rt) new @ tq_txMsg q' = tq_txMsg q1 @ concat (map (queuedBy ?own) rs)"
    using Cons.IH [OF rest] Cons.prems(2) addr by auto
  show ?case
  proof (cases "r = Token_Granted")
    case True
    then show ?thesis
    proof (cases "tq_txMsg q")
      case Nil
      then show ?thesis using new tok True by (intro exI [of _ "?rt # new"]) simp
    next
      case (Cons p ps)
      then show ?thesis using new tok True \<open>?rt \<notin> set (tq_txMsg q)\<close>
        by (intro exI [of _ "p # new"]) auto
    qed
  next
    case False
    then show ?thesis using new host False by (intro exI [of _ new]) simp
  qed
qed

theorem txqueue_token_discipline_witness:
  "\<exists>q'. txRun [Token_Granted, Host_Packet [9] 2 raw_stream, Token_Granted] (mkTxQueue 1) = Inr q' \<and>
     length (tq_sent q') = 2 \<and> tq_txMsg q' = []"
proof -
  obtain q' where run: "txRun [Token_Granted, Host_Packet [9] 2 raw_stream, Token_Granted] (mkTxQueue 1) = Inr q'"
    using txRun_total by blast
  then obtain new where "tq_sent q' = tq_sent (mkTxQueue 1) @ new" "length new = 2"
    using txqueue_token_discipline [OF run]
    by (auto simp: mkTxQueue_def mkOwnAddress_def clientAddress_def null_addr_def)
  moreover have "tq_txMsg q' = []"
    using run by (auto simp: txq_defs mkTxQueue_def mkOwnAddress_def null_addr_def Let_def)
  ultimately show ?thesis using run by (auto simp: mkTxQueue_def)
qed

text \<open>
  A node without an address is silent towards the bus clients: as long as the node has
  the null address, packets and MAC updates of the host drivers are dropped and the queue is
  unchanged.
\<close>

theorem txqueue_unaddressed_drops:
  assumes "clientAddress q = null_addr"
  shows "msgHostTx_sendPacket data a ct q = q \<and> msgHostTx_sendMacUpdate mac q = q"
  using assms by (simp add: txq_defs)

theorem txqueue_unaddressed_drops_witness:
  "msgHostTx_sendPacket [1] 2 raw_stream (mkTxQueue 0) = mkTxQueue 0 \<and>
   msgHostTx_sendMacUpdate [1, 2, 3, 4, 5, 6] (mkTxQueue 0) = mkTxQueue 0"
  by (rule txqueue_unaddressed_drops)
    (simp add: mkTxQueue_def mkOwnAddress_def clientAddress_def null_addr_def)

text \<open>
  A restart of the master resets exactly the dynamically assigned addresses, and a
  listener hears of every change of the address once and of nothing else.
\<close>

theorem own_address_master_restart:
  "clientAddress (txq_masterStarted (setAddress b (setAddrUpdateHandler True (mkTxQueue a)))) =
     (if a = null_addr then null_addr else b) \<and>
   tq_newAddr (txq_masterStarted (setAddress b (setAddrUpdateHandler True (mkTxQueue a)))) =
     (if b \<noteq> a then [b] else []) @ (if a = null_addr \<and> b \<noteq> null_addr then [null_addr] else [])"
  by (auto simp: txq_defs mkTxQueue_def mkOwnAddress_def)

end
