(* ===== verification/Address_Cache.thy ===== *)
theory Address_Cache
  imports Serial_Protocol
begin

text \<open>
  The cache of MAC addresses (\<open>src/src/core/AddressCache.{h,cpp}\<close>), used by the tap driver to
  find the local address of an Ethernet destination. The vector of entries keeps its order;
  \<open>m_myMac\<close> is uninitialised until \<open>updateMyMAC\<close>, and only read after that. The laws a client
  relies on are the locale \<open>mac_cache\<close>.
\<close>

record AddressCache =
  ca_table :: "(LocalAddress \<times> MacAddr) list"
  ca_myMac :: MacAddr
  ca_myLocalAddr :: LocalAddress

definition broadcastMac :: MacAddr where
  "broadcastMac = replicate 6 0xff"

definition illegalMac :: MacAddr where
  "illegalMac = replicate 6 0"

definition mkAddressCache :: "MacAddr \<Rightarrow> AddressCache" where
  "mkAddressCache uninit = \<lparr>ca_table = [], ca_myMac = uninit, ca_myLocalAddr = null_addr\<rparr>"

definition getLocalAddress :: "MacAddr \<Rightarrow> AddressCache \<Rightarrow> LocalAddress" where
  "getLocalAddress addr c =
     (if addr = broadcastMac then broadcast
      else if ca_myLocalAddr c \<noteq> null_addr \<and> ca_myMac c = addr then ca_myLocalAddr c
      else case find (\<lambda>el. addr = snd el) (ca_table c) of
             None \<Rightarrow> null_addr
           | Some el \<Rightarrow> fst el)"

text \<open>Overwrite the first entry of the local address, or append one.\<close>

fun tableSet :: "LocalAddress \<Rightarrow> MacAddr \<Rightarrow> (LocalAddress \<times> MacAddr) list \<Rightarrow> (LocalAddress \<times> MacAddr) list" where
  "tableSet local mac [] = [(local, mac)]"
| "tableSet local mac (el # els) =
     (if local = fst el then (local, mac) # els else el # tableSet local mac els)"

definition ca_setAddress :: "LocalAddress \<Rightarrow> MacAddr \<Rightarrow> AddressCache \<Rightarrow> AddressCache" where
  "ca_setAddress local mac c =
     (if local = broadcast then c else c\<lparr>ca_table := tableSet local mac (ca_table c)\<rparr>)"

definition updateMyMAC :: "LocalAddress \<Rightarrow> MacAddr \<Rightarrow> AddressCache \<Rightarrow> AddressCache" where
  "updateMyMAC local mac c =
     (if ca_myLocalAddr c \<noteq> null_addr then c else c\<lparr>ca_myMac := mac, ca_myLocalAddr := local\<rparr>)"

definition getMac :: "LocalAddress \<Rightarrow> AddressCache \<Rightarrow> bool \<times> MacAddr" where
  "getMac local c =
     (if local = broadcast then (True, broadcastMac)
      else case find (\<lambda>el. local = fst el) (ca_table c) of
             Some el \<Rightarrow> (True, snd el)
           | None \<Rightarrow> (False, illegalMac))"

text \<open>A sequence of received updates.\<close>

definition macUpdates :: "(LocalAddress \<times> MacAddr) list \<Rightarrow> AddressCache \<Rightarrow> AddressCache" where
  "macUpdates us c = fold (\<lambda>(a, m). ca_setAddress a m) us c"

section \<open>The table as a map\<close>

text \<open>At most one entry per local address.\<close>

definition cache_inv :: "AddressCache \<Rightarrow> bool" where
  "cache_inv c \<longleftrightarrow> distinct (map fst (ca_table c)) \<and> broadcast \<notin> fst ` set (ca_table c)"

definition cache_map :: "AddressCache \<Rightarrow> LocalAddress \<rightharpoonup> MacAddr" where
  "cache_map c = map_of (ca_table c)"

lemma find_map_of: "find (\<lambda>el. k = fst el) xs = map_option (Pair k) (map_of xs k)"
  by (induction xs) auto

lemma map_of_tableSet: "map_of (tableSet k v xs) = (map_of xs)(k \<mapsto> v)"
  by (induction xs) (auto simp: fun_eq_iff)

lemma fst_tableSet: "fst ` set (tableSet k v xs) = insert k (fst ` set xs)"
  by (induction xs) auto

lemma distinct_tableSet: "distinct (map fst xs) \<Longrightarrow> distinct (map fst (tableSet k v xs))"
proof (induction xs)
  case Nil
  then show ?case by simp
next
  case (Cons el els)
  then have "k \<noteq> fst el \<Longrightarrow> fst el \<notin> fst ` set (tableSet k v els)" by (simp add: fst_tableSet)
  with Cons show ?case by auto
qed

text \<open>What the drivers rely on: the MAC address last stored for a local address is returned.\<close>

locale mac_cache =
  fixes set_mac :: "LocalAddress \<Rightarrow> MacAddr \<Rightarrow> 'c \<Rightarrow> 'c"
    and get_mac :: "LocalAddress \<Rightarrow> 'c \<Rightarrow> bool \<times> MacAddr"
    and view :: "'c \<Rightarrow> LocalAddress \<rightharpoonup> MacAddr"
    and inv :: "'c \<Rightarrow> bool"
  assumes inv_set: "inv c \<Longrightarrow> inv (set_mac a m c)"
    and view_set: "inv c \<Longrightarrow> view (set_mac a m c) = (if a = broadcast then view c else (view c)(a \<mapsto> m))"
    and get_view: "inv c \<Longrightarrow> a \<noteq> broadcast \<Longrightarrow>
      get_mac a c = (case view c a of None \<Rightarrow> (False, illegalMac) | Some m \<Rightarrow> (True, m))"
begin

lemma updates_view:
  "inv c \<Longrightarrow> inv (fold (\<lambda>(a, m). set_mac a m) us c) \<and>
   view (fold (\<lambda>(a, m). set_mac a m) us c) =
     view c ++ map_of (rev (filter (\<lambda>(a, m). a \<noteq> broadcast) us))"
  by (induction us arbitrary: c) (auto simp: inv_set view_set map_add_def fun_eq_iff split: option.splits)

text \<open>After any sequence of updates the last one for an address decides.\<close>

lemma get_after_updates:
  assumes "inv c" and "a \<noteq> broadcast"
  shows "get_mac a (fold (\<lambda>(a, m). set_mac a m) (us @ [(a, m)]) c) = (True, m)"
proof -
  have "inv (fold (\<lambda>(a, m). set_mac a m) (us @ [(a, m)]) c)" using assms(1) updates_view by blast
  then show ?thesis using assms updates_view [OF assms(1), of "us @ [(a, m)]"]
    by (simp add: get_view map_add_def)
qed

end

interpretation cache: mac_cache ca_setAddress getMac cache_map cache_inv
  by unfold_locales
    (auto simp: cache_inv_def ca_setAddress_def cache_map_def getMac_def map_of_tableSet
      distinct_tableSet fst_tableSet find_map_of split: option.splits)

section \<open>Properties\<close>



text \<open>
  Looking up a MAC address. A stored MAC address that belongs to one local address only is
  resolved to it; the broadcast MAC address gives the broadcast address whatever was stored; an
  unknown one gives the null address. The own address is fixed by the first update and wins
  over the table.
\<close>

theorem cache_resolves_mac:
  assumes "(a, m) \<in> set (ca_table c)" and "\<forall>b. (b, m) \<in> set (ca_table c) \<longrightarrow> b = a"
    and "m \<noteq> broadcastMac" and "ca_myLocalAddr c = null_addr"
  shows "getLocalAddress m c = a \<and>
    getLocalAddress broadcastMac c = broadcast \<and>
    (m' \<noteq> broadcastMac \<and> m' \<notin> snd ` set (ca_table c) \<longrightarrow> getLocalAddress m' c = null_addr) \<and>
    (own \<noteq> null_addr \<longrightarrow> getLocalAddress m (updateMyMAC own2 m2 (updateMyMAC own m c)) = own)"
proof -
  obtain b where b: "find (\<lambda>el. m = snd el) (ca_table c) = Some (b, m)"
    using assms(1) by (cases "find (\<lambda>el. m = snd el) (ca_table c)")
      (force simp: find_None_iff dest: find_Some_in)+
  then have "b = a" using assms(2) find_Some_in by fastforce
  moreover have "m' \<notin> snd ` set (ca_table c) \<Longrightarrow> find (\<lambda>el. m' = snd el) (ca_table c) = None"
    by (force simp: find_None_iff)
  ultimately show ?thesis using b assms(3,4)
    by (auto simp: getLocalAddress_def updateMyMAC_def)
qed

theorem cache_resolves_mac_witness:
  "getLocalAddress [1, 1, 1, 1, 1, 1] (ca_setAddress 2 [1, 1, 1, 1, 1, 1] (mkAddressCache [])) = 2"
proof -
  have "[1, 1, 1, 1, 1, 1] \<noteq> broadcastMac" by code_simp
  then show ?thesis
    using cache_resolves_mac [of 2 "[1, 1, 1, 1, 1, 1]" "ca_setAddress 2 [1, 1, 1, 1, 1, 1] (mkAddressCache [])"]
    by (simp add: ca_setAddress_def mkAddressCache_def broadcast_def)
qed

end
