(* ===== verification/Packet_Type_Codec.thy ===== *)
theory Packet_Type_Codec
  imports Tx_Queue Address_Cache
begin

text \<open>
  The dispatcher for received packets (\<open>src/src/core/PacketTypeCodec.{h,cpp}\<close>) with the client's
  side of the address negotiation (\<open>src/src/core/ClientAddress.cpp\<close>).

  The registered master (\<open>MasterPacketIf::RxIf\<close>) has the abstract type \<open>'m\<close>; its virtual function
  \<open>masterPacketReceived\<close> is the argument \<open>masterRx\<close>, which shares the transmit queue with the
  dispatcher and may not return. The calls of \<open>packetReceivedFromNet\<close> of the host drivers are
  collected in \<open>pc_delivered\<close>, the calls of the master-ended callback are counted. The unique id
  is drawn at random in the constructor and is a member here. \<open>AddressRequest\<close> is sent with an
  uninitialised channel type and checksum, which are the argument \<open>uninit\<close>. Log output and the
  dump of packets are in \<open>Text_Output\<close>.
\<close>

type_synonym delivery = "host_driver \<times> byte_vec \<times> LocalAddress \<times> LocalAddress \<times> ChannelType option"

record 'm PacketTypeCodec =
  pc_tx :: TxQueue
  pc_master :: "'m option"
  pc_rxMsg :: "byte_vec list"
  pc_masterEndedCB :: bool
  pc_cache :: "AddressCache option"
  pc_uniqueId :: UniqueId
  pc_delivered :: "delivery list"
  pc_endedCalls :: nat

definition mkPacketTypeCodec :: "UniqueId \<Rightarrow> TxQueue \<Rightarrow> 'm PacketTypeCodec" where
  "mkPacketTypeCodec uid tx =
     \<lparr>pc_tx = tx, pc_master = None, pc_rxMsg = [], pc_masterEndedCB = False, pc_cache = None,
      pc_uniqueId = uid, pc_delivered = [], pc_endedCalls = 0\<rparr>"

section \<open>The client's address\<close>

definition rxDiscoveryPacket :: "byte \<times> Crc32 \<Rightarrow> 'm PacketTypeCodec \<Rightarrow> 'm PacketTypeCodec" where
  "rxDiscoveryPacket uninit c =
     (if clientAddress (pc_tx c) \<noteq> null_addr then c
      else c\<lparr>pc_tx := sendMasterPacket (fromHeader_AddressRequest
             \<lparr>aq_m_type = messageType2Byte address_request, aq_m_uniqueId = pc_uniqueId c,
              aq_m_channelType = fst uninit, aq_m_crc32 = snd uninit\<rparr>) (pc_tx c)\<rparr>)"

definition rxAddrReplyPacket :: "AddressReply \<Rightarrow> 'm PacketTypeCodec \<Rightarrow> 'm PacketTypeCodec" where
  "rxAddrReplyPacket p c =
     (if ar_m_uniqueId p = pc_uniqueId c then c\<lparr>pc_tx := setAddress (ar_m_assigned p) (pc_tx c)\<rparr> else c)"

definition rxToken :: "GrantToken \<Rightarrow> 'm PacketTypeCodec \<Rightarrow> 'm PacketTypeCodec" where
  "rxToken p c = c"

section \<open>Dispatch\<close>

definition longEnough :: "byte_vec \<Rightarrow> bool" where
  "longEnough packet =
     (if length packet < 1 then False
      else case byte2MessageType (packet ! 0) of
             None \<Rightarrow> False
           | Some cmd \<Rightarrow> sizeofHeader cmd \<le> length packet)"

fun deliverOne :: "byte_vec \<Rightarrow> 'm PacketTypeCodec \<Rightarrow> 'm PacketTypeCodec result" where
  "deliverOne bb c =
     rbind (toHeader send_packet layout_SendPacket bb) (\<lambda>p.
       let res = drop (sizeofHeader send_packet) bb;
           ct = byte2ChannelType (sp_m_chType p)
       in Inr (case getRxIf ct (pc_tx c) of
                 None \<Rightarrow> c
               | Some rxIf \<Rightarrow>
                   c\<lparr>pc_delivered := pc_delivered c @ [(rxIf, res, sp_m_srcAddr p, sp_m_destAddr p, ct)]\<rparr>))"

function deliverRxQueue :: "'m PacketTypeCodec \<Rightarrow> 'm PacketTypeCodec result" where
  "deliverRxQueue c =
     (case pc_rxMsg c of
        [] \<Rightarrow> Inr c
      | f # fs \<Rightarrow>
          (case deliverOne f c of
             Inl e \<Rightarrow> Inl e
           | Inr c' \<Rightarrow> deliverRxQueue (c'\<lparr>pc_rxMsg := fs\<rparr>)))"
  by pat_completeness auto
termination by (relation "measure (\<lambda>c. length (pc_rxMsg c))") auto

declare deliverRxQueue.simps [simp del]

text \<open>The \<open>switch\<close> of \<open>rxRawPacket\<close>.\<close>

definition rxCommand ::
    "byte \<times> Crc32 \<Rightarrow> MessageType \<Rightarrow> byte_vec \<Rightarrow> 'm PacketTypeCodec \<Rightarrow> 'm PacketTypeCodec result" where
  "rxCommand uninit cmd bb c =
     (let ownAddress = clientAddress (pc_tx c) in
      case cmd of
        grant_token \<Rightarrow>
          rbind (toHeader grant_token layout_GrantToken bb) (\<lambda>p.
            if gt_m_tokenReceiver p = ownAddress
            then (let c' = rxToken p c in
                  rbind (sendClientPacketOrReturnToken (pc_tx c')) (\<lambda>q. Inr (c'\<lparr>pc_tx := q\<rparr>)))
            else Inr c)
      | send_packet \<Rightarrow>
          rbind (toHeader send_packet layout_SendPacket bb) (\<lambda>p.
            let destAddr = sp_m_destAddr p in
            Inr (if (destAddr = ownAddress \<and> ownAddress \<noteq> null_addr) \<or> ownAddress = broadcast \<or> destAddr = broadcast
                 then c\<lparr>pc_rxMsg := pc_rxMsg c @ [bb]\<rparr> else c))
      | address_discovery \<Rightarrow>
          rbind (toHeader address_discovery layout_AddressDiscovery bb) (\<lambda>p. Inr (rxDiscoveryPacket uninit c))
      | address_request \<Rightarrow> Inr c
      | address_reply \<Rightarrow>
          rbind (toHeader address_reply layout_AddressReply bb) (\<lambda>p. Inr (rxAddrReplyPacket p c))
      | return_token \<Rightarrow> Inr c
      | master_started \<Rightarrow> Inr (c\<lparr>pc_tx := txq_masterStarted (pc_tx c)\<rparr>)
      | master_ended \<Rightarrow>
          Inr (if pc_masterEndedCB c then c\<lparr>pc_endedCalls := Suc (pc_endedCalls c)\<rparr> else c)
      | mac_update \<Rightarrow>
          Inr (case pc_cache c of
                 None \<Rightarrow> c
               | Some ca \<Rightarrow>
                   c\<lparr>pc_cache := Some (ca_setAddress (toLocalAddress_byte (bb ! 3)) (take 6 (drop 4 bb)) ca)\<rparr>))"

type_synonym 'm master_rx =
  "MessageType \<Rightarrow> byte_vec \<Rightarrow> 'm \<Rightarrow> TxQueue \<Rightarrow> ('m \<times> TxQueue) result option"

definition callMaster ::
    "'m master_rx \<Rightarrow> MessageType \<Rightarrow> byte_vec \<Rightarrow> 'm PacketTypeCodec \<Rightarrow> 'm PacketTypeCodec result option" where
  "callMaster masterRx cmd bb c =
     (case pc_master c of
        None \<Rightarrow> Some (Inr c)
      | Some m \<Rightarrow>
          map_option (\<lambda>r. rbind r (\<lambda>(m', q). Inr (c\<lparr>pc_master := Some m', pc_tx := q\<rparr>)))
            (masterRx cmd bb m (pc_tx c)))"

definition rxRawPacket ::
    "'m master_rx \<Rightarrow> byte \<times> Crc32 \<Rightarrow> byte_vec \<Rightarrow> 'm PacketTypeCodec \<Rightarrow> 'm PacketTypeCodec result option" where
  "rxRawPacket masterRx uninit bb c =
     (if length bb < 1 \<or> \<not> longEnough bb then Some (Inr c)
      else case byte2MessageType (bb ! 0) of
             None \<Rightarrow> Some (Inr c)
           | Some cmd \<Rightarrow>
               (case rxCommand uninit cmd bb c of
                  Inl e \<Rightarrow> Some (Inl e)
                | Inr c1 \<Rightarrow>
                    map_option (\<lambda>r. rbind r deliverRxQueue) (callMaster masterRx cmd bb c1)))"

section \<open>Facts\<close>

lemma longEnough_iff:
  "longEnough bb \<longleftrightarrow> (\<exists>cmd. bb \<noteq> [] \<and> byte2MessageType (bb ! 0) = Some cmd \<and> sizeofHeader cmd \<le> length bb)"
  by (auto simp: longEnough_def split: option.splits)

lemma sizeofHeader_pos: "0 < sizeofHeader cmd"
  by (cases cmd) simp_all

text \<open>The packets in the receive queue are complete \<open>SendPacket\<close> packets.\<close>

definition rxq_ok :: "'m PacketTypeCodec \<Rightarrow> bool" where
  "rxq_ok c \<longleftrightarrow> (\<forall>bb \<in> set (pc_rxMsg c). sizeofHeader send_packet \<le> length bb)"

definition deliveryOf :: "byte_vec \<Rightarrow> TxQueue \<Rightarrow> delivery list" where
  "deliveryOf bb q =
     (let ct = byte2ChannelType (bb ! 1) in
      case getRxIf ct q of None \<Rightarrow> [] | Some rxIf \<Rightarrow> [(rxIf, drop 4 bb, bb ! 3, bb ! 2, ct)])"

lemma deliverRxQueue_eq:
  assumes "rxq_ok c"
  shows "deliverRxQueue c = Inr (c\<lparr>pc_rxMsg := [], pc_delivered := pc_delivered c @
    concat (map (\<lambda>bb. deliveryOf bb (pc_tx c)) (pc_rxMsg c))\<rparr>)"
  using assms
proof (induction c rule: deliverRxQueue.induct)
  case (1 c)
  show ?case
  proof (cases "pc_rxMsg c")
    case Nil
    then show ?thesis by (simp add: deliverRxQueue.simps)
  next
    case (Cons f fs)
    let ?c' = "c\<lparr>pc_delivered := pc_delivered c @ deliveryOf f (pc_tx c)\<rparr>"
    have one: "deliverOne f c = Inr ?c'"
      using "1.prems" Cons
      by (auto simp: rxq_ok_def toHeader_def layout_SendPacket_def deliveryOf_def Let_def split: option.splits)
    have "deliverRxQueue c = deliverRxQueue (?c'\<lparr>pc_rxMsg := fs\<rparr>)"
      using Cons one by (simp add: deliverRxQueue.simps [of c])
    also have "\<dots> = Inr (?c'\<lparr>pc_rxMsg := [], pc_delivered := pc_delivered ?c' @
        concat (map (\<lambda>bb. deliveryOf bb (pc_tx c)) fs)\<rparr>)"
      using "1.IH" [OF Cons one] "1.prems" Cons by (simp add: rxq_ok_def)
    finally show ?thesis using Cons by simp
  qed
qed

lemma sendClientPacketOrReturnToken_total: "\<exists>q'. sendClientPacketOrReturnToken q = Inr q'"
  using txRequest_total [of Token_Granted q] by simp

lemma rxCommand_total:
  assumes "sizeofHeader cmd \<le> length bb" and "rxq_ok c"
  shows "\<exists>c1. rxCommand uninit cmd bb c = Inr c1 \<and> rxq_ok c1 \<and> pc_master c1 = pc_master c"
proof (cases cmd)
  case grant_token
  obtain q' where "sendClientPacketOrReturnToken (pc_tx c) = Inr q'"
    using sendClientPacketOrReturnToken_total by blast
  then show ?thesis using grant_token assms
    by (simp add: rxCommand_def toHeader_def rxToken_def rxq_ok_def Let_def)
next
  case mac_update
  then show ?thesis using assms by (auto simp: rxCommand_def rxq_ok_def split: option.splits)
qed (use assms in \<open>simp_all add: rxCommand_def toHeader_def rxq_ok_def rxDiscoveryPacket_def
       rxAddrReplyPacket_def Let_def\<close>)

text \<open>What a node without master does with a packet: dispatch, then deliver.\<close>

definition rxAsClient :: "byte \<times> Crc32 \<Rightarrow> byte_vec \<Rightarrow> 'm PacketTypeCodec \<Rightarrow> 'm PacketTypeCodec" where
  "rxAsClient uninit bb c =
     (if longEnough bb
      then (case rxCommand uninit (the (byte2MessageType (bb ! 0))) bb c of
              Inl e \<Rightarrow> c
            | Inr c1 \<Rightarrow> c1\<lparr>pc_rxMsg := [], pc_delivered := pc_delivered c1 @
                concat (map (\<lambda>bb. deliveryOf bb (pc_tx c1)) (pc_rxMsg c1))\<rparr>)
      else c)"

lemma rxRawPacket_client:
  assumes "pc_master c = None" and "rxq_ok c"
  shows "rxRawPacket masterRx uninit bb c = Some (Inr (rxAsClient uninit bb c))"
proof (cases "longEnough bb")
  case False
  then show ?thesis by (simp add: rxRawPacket_def rxAsClient_def)
next
  case True
  then obtain cmd where cmd: "bb \<noteq> []" "byte2MessageType (bb ! 0) = Some cmd" "sizeofHeader cmd \<le> length bb"
    by (auto simp: longEnough_iff)
  obtain c1 where c1: "rxCommand uninit cmd bb c = Inr c1" "rxq_ok c1" "pc_master c1 = None"
    using rxCommand_total [OF cmd(3) assms(2), of uninit] assms(1) by auto
  then show ?thesis using True cmd
    by (simp add: rxRawPacket_def rxAsClient_def callMaster_def deliverRxQueue_eq)
qed

text \<open>The transmit queue after dispatch, by command.\<close>

lemma rxCommand_tx:
  assumes "rxCommand uninit cmd bb c = Inr c1"
  shows "pc_tx c1 = pc_tx c \<or>
    (cmd = grant_token \<and> bb ! 1 = clientAddress (pc_tx c) \<and> sendClientPacketOrReturnToken (pc_tx c) = Inr (pc_tx c1)) \<or>
    (cmd = address_discovery \<and> clientAddress (pc_tx c) = null_addr \<and>
     tq_sent (pc_tx c1) = tq_sent (pc_tx c) @ [fromHeader_AddressRequest
       \<lparr>aq_m_type = messageType2Byte address_request, aq_m_uniqueId = pc_uniqueId c,
        aq_m_channelType = fst uninit, aq_m_crc32 = snd uninit\<rparr>]) \<or>
    tq_sent (pc_tx c1) = tq_sent (pc_tx c) \<and> cmd \<in> {address_reply, master_started}"
  using assms
  by (cases cmd)
    (auto simp: rxCommand_def toHeader_def layout_GrantToken_def rxToken_def rxDiscoveryPacket_def
      rxAddrReplyPacket_def sendMasterPacket_def sendMsg_def setAddress_def txq_masterStarted_def rbind_eq_Inr Let_def
      split: if_splits option.splits prod.splits)

section \<open>Properties\<close>

text \<open>
  A client survives everything it hears. For any sequence of bytes that arrives as a packet,
  however short or malformed, the dispatcher of a node without master returns normally: no
  header is read beyond the packet, no assertion fails, and its receive queue is empty again.
\<close>

theorem client_rx_total:
  assumes "pc_master c = None" and "pc_rxMsg c = []"
  shows "\<exists>c'. rxRawPacket masterRx uninit bb c = Some (Inr c') \<and> pc_rxMsg c' = [] \<and> pc_master c' = None"
proof -
  have ok: "rxq_ok c" using assms(2) by (simp add: rxq_ok_def)
  have "pc_rxMsg (rxAsClient uninit bb c) = []"
    using assms(2) by (auto simp: rxAsClient_def split: sum.splits)
  moreover have "pc_master (rxAsClient uninit bb c) = None"
  proof (cases "longEnough bb")
    case True
    then obtain cmd where "byte2MessageType (bb ! 0) = Some cmd" "sizeofHeader cmd \<le> length bb"
      by (auto simp: longEnough_iff)
    then show ?thesis using rxCommand_total [of cmd bb c uninit] ok assms(1) True
      by (auto simp: rxAsClient_def)
  qed (use assms(1) in \<open>simp add: rxAsClient_def\<close>)
  ultimately show ?thesis using rxRawPacket_client [OF assms(1) ok] by blast
qed

theorem client_rx_total_witness:
  "\<exists>c'. rxRawPacket (\<lambda>cmd bb (m :: unit) q. None) (0, [0, 0, 0, 0]) [5, 1]
      (mkPacketTypeCodec [] (mkTxQueue 1)) = Some (Inr c') \<and> pc_rxMsg c' = [] \<and> pc_master c' = None"
  by (rule client_rx_total) (simp_all add: mkPacketTypeCodec_def)

text \<open>
  Bus access of a client. Receiving a packet makes a client transmit at most one message,
  and only in two cases: the packet grants the token to the client's own address, or it is an
  address discovery and the client has no address. In every other case nothing is sent.
\<close>

theorem client_bus_discipline:
  assumes "pc_master c = None" and "pc_rxMsg c = []" and "rxRawPacket masterRx uninit bb c = Some (Inr c')"
  shows "\<exists>msgs. tq_sent (pc_tx c') = tq_sent (pc_tx c) @ msgs \<and> length msgs \<le> 1 \<and>
    (msgs \<noteq> [] \<longrightarrow> longEnough bb \<and>
       (byte2MessageType (bb ! 0) = Some grant_token \<and> bb ! 1 = clientAddress (pc_tx c) \<or>
        byte2MessageType (bb ! 0) = Some address_discovery \<and> clientAddress (pc_tx c) = null_addr))"
proof -
  have ok: "rxq_ok c" using assms(2) by (simp add: rxq_ok_def)
  have c': "c' = rxAsClient uninit bb c" using rxRawPacket_client [OF assms(1) ok, of masterRx uninit bb] assms(3) by simp
  show ?thesis
  proof (cases "longEnough bb")
    case False
    then show ?thesis using c' by (simp add: rxAsClient_def)
  next
    case True
    then obtain cmd where cmd: "byte2MessageType (bb ! 0) = Some cmd" "sizeofHeader cmd \<le> length bb"
      by (auto simp: longEnough_iff)
    obtain c1 where c1: "rxCommand uninit cmd bb c = Inr c1" using rxCommand_total [OF cmd(2) ok] by blast
    then have tx: "pc_tx c' = pc_tx c1" using True cmd c' by (simp add: rxAsClient_def)
    have token: "sendClientPacketOrReturnToken (pc_tx c) = Inr q \<Longrightarrow>
        \<exists>msg. tq_sent q = tq_sent (pc_tx c) @ [msg]" for q
      using token_effect [of "pc_tx c" q] by (auto split: list.splits)
    show ?thesis unfolding tx using rxCommand_tx [OF c1] token cmd(1) True by (elim disjE) force+
  qed
qed

theorem client_bus_discipline_witness:
  "\<exists>c'. rxRawPacket (\<lambda>cmd bb (m :: unit) q. None) (0, [0, 0, 0, 0]) [0, 2]
      (mkPacketTypeCodec [] (mkTxQueue 1)) = Some (Inr c') \<and> tq_sent (pc_tx c') = []"
proof -
  let ?c = "mkPacketTypeCodec [] (mkTxQueue 1) :: unit PacketTypeCodec"
  let ?rx = "\<lambda>cmd bb (m :: unit) q. None :: (unit \<times> TxQueue) result option"
  have c: "pc_master ?c = None" "rxq_ok ?c" "pc_rxMsg ?c = []" by (simp_all add: mkPacketTypeCodec_def rxq_ok_def)
  note run = rxRawPacket_client [OF c(1,2), of ?rx "(0, [0, 0, 0, 0])" "[0, 2]"]
  from client_bus_discipline [OF c(1,3) run] show ?thesis unfolding run
    by (auto simp: mkPacketTypeCodec_def mkTxQueue_def mkOwnAddress_def clientAddress_def byte2MessageType_def)
qed

text \<open>
  Delivery to the host. A data packet on the bus is handed exactly once, with its payload and
  both addresses, to the driver registered for its channel when it is addressed to the node or
  to everybody, and is dropped otherwise; the transmit queue is not touched.
\<close>

theorem client_delivers_data:
  assumes "pc_master c = None" and "pc_rxMsg c = []" and "own = clientAddress (pc_tx c)"
    and "bb = [messageType2Byte send_packet, channelType2Byte ct, dest, src] @ data"
  shows "\<exists>c'. rxRawPacket masterRx uninit bb c = Some (Inr c') \<and> pc_tx c' = pc_tx c \<and>
    pc_delivered c' = pc_delivered c @
      (if (dest = own \<and> own \<noteq> null_addr) \<or> own = broadcast \<or> dest = broadcast
       then (case getRxIf (Some ct) (pc_tx c) of None \<Rightarrow> [] | Some h \<Rightarrow> [(h, data, src, dest, Some ct)])
       else [])"
proof -
  have ok: "rxq_ok c" using assms(2) by (simp add: rxq_ok_def)
  have cmd: "byte2MessageType (bb ! 0) = Some send_packet" using assms(4) by (simp del: messageType2Byte.simps)
  have "longEnough bb" using assms(4) cmd by (simp add: longEnough_iff)
  then show ?thesis using rxRawPacket_client [OF assms(1) ok, of masterRx uninit bb] cmd assms(2-4)
    by (auto simp: rxAsClient_def rxCommand_def toHeader_def layout_SendPacket_def deliveryOf_def Let_def
        split: option.splits simp del: channelType2Byte.simps)
qed

theorem client_delivers_data_witness:
  "\<exists>c'. rxRawPacket (\<lambda>cmd bb (m :: unit) q. None) (0, [0, 0, 0, 0])
      ([messageType2Byte send_packet, channelType2Byte raw_stream, 1, 2] @ [7, 8])
      (mkPacketTypeCodec [] (setRxHandler (Some 5) raw_stream (mkTxQueue 1))) = Some (Inr c') \<and>
     pc_delivered c' = [(5, [7, 8], 2, 1, Some raw_stream)]"
  using client_delivers_data [of "mkPacketTypeCodec [] (setRxHandler (Some 5) raw_stream (mkTxQueue 1))" 1
      "[messageType2Byte send_packet, channelType2Byte raw_stream, 1, 2] @ [7, 8]" raw_stream 1 2 "[7, 8]"
      "\<lambda>cmd bb (m :: unit) q. None" "(0, [0, 0, 0, 0])"]
  by (auto simp: mkPacketTypeCodec_def mkTxQueue_def mkOwnAddress_def clientAddress_def null_addr_def)

text \<open>
  The client's side of the address negotiation. A client without an address answers a
  discovery with a request that carries its unique id and nothing else of it; a reply with that
  unique id gives it the assigned address, a reply with another one changes nothing; a client
  that has an address stays silent.
\<close>

theorem client_negotiates_address:
  assumes "pc_master c = None" and "pc_rxMsg c = []" and "length (pc_uniqueId c) = 8" and "length (snd uninit) = 4"
    and "disc = [messageType2Byte address_discovery, x, y]"
    and "reply = fromHeader_AddressReply \<lparr>ar_m_type = messageType2Byte address_reply, ar_m_assigned = a, ar_m_uniqueId = u\<rparr>"
    and "length u = 8"
  shows "\<exists>c1 c2. rxRawPacket masterRx uninit disc c = Some (Inr c1) \<and>
    (if clientAddress (pc_tx c) = null_addr
     then \<exists>msg. tq_sent (pc_tx c1) = tq_sent (pc_tx c) @ [msg] \<and>
            byte2MessageType (msg ! 0) = Some address_request \<and> length msg = sizeofHeader address_request \<and>
            aq_m_uniqueId (layout_AddressRequest msg) = pc_uniqueId c
     else c1 = c) \<and>
    rxRawPacket masterRx uninit reply c = Some (Inr c2) \<and>
    (if u = pc_uniqueId c then clientAddress (pc_tx c2) = a else c2 = c)"
proof -
  have ok: "rxq_ok c" using assms(2) by (simp add: rxq_ok_def)
  have c: "c\<lparr>pc_rxMsg := []\<rparr> = c" using assms(2) by simp
  have d: "byte2MessageType (disc ! 0) = Some address_discovery" "longEnough disc"
    using assms(5) by (simp_all add: longEnough_iff del: messageType2Byte.simps)
  have r: "byte2MessageType (reply ! 0) = Some address_reply" "longEnough reply"
    "layout_AddressReply reply = \<lparr>ar_m_type = messageType2Byte address_reply, ar_m_assigned = a, ar_m_uniqueId = u\<rparr>"
    "length reply = sizeofHeader address_reply"
    using assms(6,7) by (simp_all add: longEnough_iff layout_simps del: messageType2Byte.simps)
  show ?thesis
    using rxRawPacket_client [OF assms(1) ok, of masterRx uninit disc]
      rxRawPacket_client [OF assms(1) ok, of masterRx uninit reply] d r assms(2-5)
    by (auto simp: rxAsClient_def rxCommand_def toHeader_def rxDiscoveryPacket_def rxAddrReplyPacket_def
        sendMasterPacket_def sendMsg_def setAddress_def oa_set_def clientAddress_def layout_simps nth_append c
        Let_def simp del: messageType2Byte.simps split: prod.splits)
qed

theorem client_negotiates_address_witness:
  "\<exists>c2. rxRawPacket (\<lambda>cmd bb (m :: unit) q. None) (0, [0, 0, 0, 0])
      (fromHeader_AddressReply \<lparr>ar_m_type = messageType2Byte address_reply, ar_m_assigned = 33,
         ar_m_uniqueId = [1, 2, 3, 4, 5, 6, 7, 8]\<rparr>)
      (mkPacketTypeCodec [1, 2, 3, 4, 5, 6, 7, 8] (mkTxQueue 0)) = Some (Inr c2) \<and>
     clientAddress (pc_tx c2) = 33"
  using client_negotiates_address [of "mkPacketTypeCodec [1, 2, 3, 4, 5, 6, 7, 8] (mkTxQueue 0)" "(0, [0, 0, 0, 0])"
      _ 0 0 _ 33 "[1, 2, 3, 4, 5, 6, 7, 8]", OF _ _ _ _ refl refl]
  by (auto simp: mkPacketTypeCodec_def)

end
