(* ===== verification/Frame_Codec.thy ===== *)
theory Frame_Codec
  imports SN_Prelude
begin

text \<open>
  The frame layer of \<open>src/src/core/FrameCodec.{h,cpp}\<close>. A frame on the wire is
  \<open>keyword, length (one or two bytes), payload, checksum, filler\<close>. \<open>FrameCodec\<close> is the decoder
  state with the members of the class (\<open>fc_hasCB\<close> says whether a receiver is registered);
  \<open>decodeByte\<close> is the decoder's step for one byte and returns the packet it hands to the
  receiver, if any. A write behind the end of \<open>m_decodePacket\<close> is the error \<open>Out_Of_Bounds\<close>.
\<close>

section \<open>State\<close>

datatype DecodeState = getKW | getLen | getData | getChecksum | getFiller

record FrameCodec =
  fc_hasCB :: bool
  fc_decodePacket :: byte_vec
  fc_state :: DecodeState
  fc_length :: size_type
  fc_index :: size_type
  fc_checksum :: byte

definition keyword :: byte where
  "keyword = 0xfd"

definition mkFrameCodec :: "bool \<Rightarrow> FrameCodec" where
  "mkFrameCodec cb =
     \<lparr>fc_hasCB = cb, fc_decodePacket = [], fc_state = getKW, fc_length = 0, fc_index = 0,
      fc_checksum = 0\<rparr>"

definition setRxCB :: "bool \<Rightarrow> FrameCodec \<Rightarrow> FrameCodec" where
  "setRxCB cb fc = fc\<lparr>fc_hasCB := cb\<rparr>"

definition rxInProgress :: "FrameCodec \<Rightarrow> bool" where
  "rxInProgress fc \<longleftrightarrow> fc_state fc \<noteq> getKW"

definition reset :: "FrameCodec \<Rightarrow> FrameCodec" where
  "reset fc = fc\<lparr>fc_state := getKW\<rparr>"

section \<open>Operations\<close>

text \<open>The bytes in front of the payload: keyword and length.\<close>

definition frameHeader :: "size_type \<Rightarrow> byte_vec" where
  "frameHeader dataLen =
     (if dataLen < 0x80
      then [keyword, ucast dataLen]
      else [keyword, ucast ((drop_bit 7 dataLen AND 0x7f) OR 0x80), ucast (dataLen AND 0x7f)])"

definition encodePacket :: "byte_vec \<Rightarrow> byte_vec" where
  "encodePacket data =
     (let dataLen = word_of_nat (length data);
          hdr = frameHeader dataLen;
          checksum = foldl (XOR) 0 (hdr @ data)
      in hdr @ data @ [checksum, 0xff])"

definition decodeByte :: "byte \<Rightarrow> FrameCodec \<Rightarrow> (FrameCodec \<times> byte_vec option) result" where
  "decodeByte curByte fc =
     (let byteAsUInt = (ucast curByte :: size_type) in
      case fc_state fc of
        getKW \<Rightarrow>
          (if curByte = keyword
           then Inr (fc\<lparr>fc_checksum := keyword, fc_state := getLen, fc_length := 0\<rparr>, None)
           else Inr (fc, None))
      | getLen \<Rightarrow>
          (let fc = fc\<lparr>fc_checksum := fc_checksum fc XOR curByte\<rparr>;
               len = fc_length fc OR (byteAsUInt AND 0x7f)
           in if byteAsUInt AND 0x80 \<noteq> 0
              then Inr (fc\<lparr>fc_length := push_bit 7 len\<rparr>, None)
              else if vec_max_size < unat len then Inl Length_Error
              else Inr (fc\<lparr>fc_length := len, fc_index := 0, fc_state := getData,
                          fc_decodePacket := vec_resize (unat len) (fc_decodePacket fc)\<rparr>, None))
      | getData \<Rightarrow>
          (let i = fc_index fc in
           if unat i < length (fc_decodePacket fc)
           then (let fc = fc\<lparr>fc_checksum := fc_checksum fc XOR curByte,
                            fc_decodePacket := (fc_decodePacket fc)[unat i := curByte],
                            fc_index := i + 1\<rparr>
                 in Inr (if fc_index fc = fc_length fc then fc\<lparr>fc_state := getChecksum\<rparr> else fc,
                         None))
           else Inl Out_Of_Bounds)
      | getChecksum \<Rightarrow>
          Inr (fc\<lparr>fc_checksum := fc_checksum fc XOR curByte, fc_state := getFiller\<rparr>, None)
      | getFiller \<Rightarrow>
          Inr (fc\<lparr>fc_state := getKW\<rparr>,
               if fc_checksum fc = 0 \<and> fc_hasCB fc
               then Some (take (unat (fc_length fc)) (fc_decodePacket fc)) else None))"

text \<open>The packets handed to the receiver are collected in order.\<close>

fun receiveData :: "byte_vec \<Rightarrow> FrameCodec \<Rightarrow> (FrameCodec \<times> byte_vec list) result" where
  "receiveData [] fc = Inr (fc, [])"
| "receiveData (b # bs) fc =
     rbind (decodeByte b fc) (\<lambda>(fc', out).
       rbind (receiveData bs fc') (\<lambda>(fc'', outs).
         Inr (fc'', (case out of None \<Rightarrow> outs | Some p \<Rightarrow> p # outs))))"

section \<open>Runs of the decoder\<close>

lemma receiveData_append:
  "receiveData (xs @ ys) fc =
     rbind (receiveData xs fc) (\<lambda>(fc', out).
       rbind (receiveData ys fc') (\<lambda>(fc'', outs). Inr (fc'', out @ outs)))"
proof (induction xs arbitrary: fc)
  case Nil
  show ?case by (cases "receiveData ys fc") auto
next
  case (Cons b xs)
  show ?case
  proof (cases "decodeByte b fc")
    case (Inl e)
    then show ?thesis by simp
  next
    case (Inr r)
    obtain fc' out where r: "r = (fc', out)" by (cases r)
    show ?thesis
    proof (cases "receiveData xs fc'")
      case (Inl e)
      then show ?thesis using Inr r Cons by simp
    next
      case (Inr r')
      obtain fc'' outs where r': "r' = (fc'', outs)" by (cases r')
      show ?thesis using \<open>decodeByte b fc = Inr r\<close> r Inr r' Cons
        by (cases "receiveData ys fc''") (auto split: option.splits)
    qed
  qed
qed

lemma receiveData_append_Inr:
  "receiveData xs fc = Inr (fc', out) \<Longrightarrow> receiveData ys fc' = Inr (fc'', outs) \<Longrightarrow>
   receiveData (xs @ ys) fc = Inr (fc'', out @ outs)"
  by (simp add: receiveData_append)

lemma decode_getKW [frame_simps]:
  "fc_state fc = getKW \<Longrightarrow>
   decodeByte b fc =
     (if b = keyword then Inr (fc\<lparr>fc_checksum := keyword, fc_state := getLen, fc_length := 0\<rparr>, None)
      else Inr (fc, None))"
  by (simp add: decodeByte_def)

text \<open>Bytes between frames are skipped until the keyword arrives.\<close>

lemma receiveData_noise:
  "fc_state fc = getKW \<Longrightarrow> keyword \<notin> set ns \<Longrightarrow> receiveData ns fc = Inr (fc, [])"
  by (induction ns) (auto simp: frame_simps)

lemma unat_Suc_size:
  "unat (i :: size_type) < n \<Longrightarrow> n \<le> vec_max_size \<Longrightarrow> unat (i + 1) = Suc (unat i)"
  by (simp add: vec_max_size_def unat_word_ariths)

lemma vec_max_size_lt: "n \<le> vec_max_size \<Longrightarrow> n < 2 ^ 64"
  by (simp add: vec_max_size_def)

text \<open>
  The payload loop: from index \<open>i\<close>, exactly the missing bytes are stored and folded into the
  checksum, and the last one moves the decoder to the checksum byte.
\<close>

lemma receive_payload:
  assumes "fc_state fc = getData" and "length (fc_decodePacket fc) = n"
    and "unat (fc_length fc) = n" and "n \<le> vec_max_size"
    and "unat (fc_index fc) + length bs = n" and "bs \<noteq> []"
  shows "receiveData bs fc =
    Inr (fc\<lparr>fc_checksum := fc_checksum fc XOR xor_all bs,
            fc_decodePacket := take (unat (fc_index fc)) (fc_decodePacket fc) @ bs,
            fc_index := fc_length fc, fc_state := getChecksum\<rparr>, [])"
  using assms
proof (induction bs arbitrary: fc)
  case Nil
  then show ?case by simp
next
  case (Cons b bs)
  let ?i = "fc_index fc"
  let ?v = "(fc_decodePacket fc)[unat ?i := b]"
  have i: "unat ?i < n" using Cons.prems(5) by simp
  have i': "unat (?i + 1) = Suc (unat ?i)" using i Cons.prems(4) by (rule unat_Suc_size)
  show ?case
  proof (cases "bs = []")
    case True
    with Cons.prems i' have "?i + 1 = fc_length fc"
      by (simp add: word_unat_eq_iff)
    moreover have "take (unat ?i) (fc_decodePacket fc) @ [b] = ?v"
      using Cons.prems(2,5) True by (simp flip: list_update_take_Suc)
    ultimately show ?thesis using Cons.prems(1,2) i True
      by (simp add: decodeByte_def)
  next
    case False
    let ?fc = "fc\<lparr>fc_checksum := fc_checksum fc XOR b, fc_decodePacket := ?v, fc_index := ?i + 1\<rparr>"
    from False Cons.prems(3,5) i' have "?i + 1 \<noteq> fc_length fc"
      by (cases bs) (auto simp: word_unat_eq_iff)
    then have step: "decodeByte b fc = Inr (?fc, None)"
      using Cons.prems(1,2) i by (simp add: decodeByte_def Let_def)
    have "receiveData bs ?fc =
      Inr (?fc\<lparr>fc_checksum := fc_checksum ?fc XOR xor_all bs,
              fc_decodePacket := take (unat (fc_index ?fc)) (fc_decodePacket ?fc) @ bs,
              fc_index := fc_length ?fc, fc_state := getChecksum\<rparr>, [])"
      by (rule Cons.IH) (use Cons.prems i' False in auto)
    moreover have "take (Suc (unat ?i)) ?v = take (unat ?i) (fc_decodePacket fc) @ [b]"
      using i Cons.prems(2) by (simp add: list_update_take_Suc)
    ultimately show ?thesis by (simp add: step i' xor.assoc)
  qed
qed

section \<open>The length field\<close>

lemma length_byte_short:
  assumes "(L :: size_type) < 0x80"
  shows "(ucast (ucast L :: byte) :: size_type) AND 0x80 = 0"
    and "(ucast (ucast L :: byte) :: size_type) AND 0x7f = L"
proof -
  have L: "take_bit 7 L = L" using assms
    by (intro take_bit_small) (simp add: word_less_nat_alt)
  have b: "bit L n \<Longrightarrow> n < 7" for n by (metis L bit_take_bit_iff)
  show "(ucast (ucast L :: byte) :: size_type) AND 0x80 = 0"
    unfolding mask_0x7f by (rule bit_word_eqI) (auto simp: bit_simps bit_0x80 dest: b)
  show "(ucast (ucast L :: byte) :: size_type) AND 0x7f = L"
    unfolding mask_0x7f by (rule bit_word_eqI) (auto simp: bit_simps bit_0x80 dest: b)
qed

lemma length_bytes_long:
  shows "(ucast (ucast ((drop_bit 7 (L::size_type) AND 0x7f) OR 0x80) :: byte) :: size_type) AND 0x80 \<noteq> 0"
    and "(ucast (ucast ((drop_bit 7 (L::size_type) AND 0x7f) OR 0x80) :: byte) :: size_type) AND 0x7f = take_bit 7 (drop_bit 7 L)"
    and "(ucast (ucast (L AND 0x7f) :: byte) :: size_type) AND 0x80 = 0"
    and "(ucast (ucast (L AND 0x7f) :: byte) :: size_type) AND 0x7f = take_bit 7 L"
    and "push_bit 7 (take_bit 7 (drop_bit 7 L)) OR take_bit 7 L = take_bit 14 L"
proof -
  have "bit ((ucast (ucast ((drop_bit 7 (L::size_type) AND 0x7f) OR 0x80) :: byte) :: size_type) AND 0x80) 7"
    unfolding mask_0x7f by (auto simp: bit_simps bit_0x80)
  then show "(ucast (ucast ((drop_bit 7 (L::size_type) AND 0x7f) OR 0x80) :: byte) :: size_type) AND 0x80 \<noteq> 0" by fastforce
  show "(ucast (ucast ((drop_bit 7 (L::size_type) AND 0x7f) OR 0x80) :: byte) :: size_type) AND 0x7f = take_bit 7 (drop_bit 7 L)"
    unfolding mask_0x7f by (rule bit_word_eqI) (auto simp: bit_simps bit_0x80)
  show "(ucast (ucast (L AND 0x7f) :: byte) :: size_type) AND 0x80 = 0"
    unfolding mask_0x7f by (rule bit_word_eqI) (auto simp: bit_simps bit_0x80)
  show "(ucast (ucast (L AND 0x7f) :: byte) :: size_type) AND 0x7f = take_bit 7 L"
    unfolding mask_0x7f by (rule bit_word_eqI) (auto simp: bit_simps bit_0x80)
  show "push_bit 7 (take_bit 7 (drop_bit 7 L)) OR take_bit 7 L = take_bit 14 L"
    by (rule bit_word_eqI) (auto simp: bit_simps bit_0x80)
qed

lemma frameHeader_length: "dataLen < 0x80 \<Longrightarrow> length (frameHeader dataLen) = 2"
  "\<not> dataLen < 0x80 \<Longrightarrow> length (frameHeader dataLen) = 3"
  by (simp_all add: frameHeader_def)

lemma take_bit_14_short: "(L :: size_type) < 0x80 \<Longrightarrow> take_bit 14 L = L"
  by (rule take_bit_small) (simp add: word_less_nat_alt)

lemma unat_take_bit_14: "unat (take_bit 14 (L :: size_type)) = unat L mod 2 ^ 14"
  by (simp only: unsigned_take_bit_eq take_bit_eq_mod [of 14 "unat L"])

text \<open>
  Reading the header stores the low fourteen bits of the length: the encoder writes two
  groups of seven bits, whatever the length of the packet is.
\<close>

lemma receive_header:
  assumes "fc_state fc = getKW"
  shows "receiveData (frameHeader L) fc =
    Inr (fc\<lparr>fc_checksum := xor_all (frameHeader L), fc_state := getData,
            fc_length := take_bit 14 L, fc_index := 0,
            fc_decodePacket := vec_resize (unat (take_bit 14 L)) (fc_decodePacket fc)\<rparr>, [])"
proof -
  have small: "\<not> vec_max_size < unat (take_bit 14 L)"
    by (simp add: vec_max_size_def unat_take_bit_14)
  show ?thesis
  proof (cases "L < 0x80")
    case True
    then show ?thesis using assms small
      by (simp add: frameHeader_def decodeByte_def length_byte_short take_bit_14_short)
  next
    case False
    then show ?thesis using assms small length_bytes_long [of L]
      by (simp add: frameHeader_def decodeByte_def Let_def xor.assoc)
  qed
qed

section \<open>Whole frames\<close>

text \<open>
  The decoder on any frame whose header announces the number of payload bytes that follow:
  it hands the payload to the receiver exactly when the checksum byte matches, and is back
  between frames afterwards, whatever the filler byte is.
\<close>

lemma receive_frame:
  assumes "fc_state fc = getKW" and "bs \<noteq> []" and "length bs = unat (take_bit 14 L)"
  shows "\<exists>fc'. receiveData (frameHeader L @ bs @ [c, f]) fc =
      Inr (fc', if c = xor_all (frameHeader L @ bs) \<and> fc_hasCB fc then [bs] else []) \<and>
    fc_state fc' = getKW \<and> fc_hasCB fc' = fc_hasCB fc"
proof -
  let ?h = "fc\<lparr>fc_checksum := xor_all (frameHeader L), fc_state := getData,
            fc_length := take_bit 14 L, fc_index := 0,
            fc_decodePacket := vec_resize (unat (take_bit 14 L)) (fc_decodePacket fc)\<rparr>"
  let ?d = "?h\<lparr>fc_checksum := xor_all (frameHeader L) XOR xor_all bs,
            fc_decodePacket := bs, fc_index := fc_length ?h, fc_state := getChecksum\<rparr>"
  have "length bs \<le> vec_max_size"
    using assms(3) by (simp add: vec_max_size_def unat_take_bit_14)
  then have "receiveData bs ?h = Inr (?d, [])"
    using receive_payload [of ?h "length bs" bs] assms(2,3) by simp
  then have "receiveData (frameHeader L @ bs) fc = Inr (?d, [])"
    using receiveData_append_Inr [OF receive_header [OF assms(1)]] by simp
  moreover have "receiveData [c, f] ?d =
    Inr (?d\<lparr>fc_checksum := fc_checksum ?d XOR c, fc_state := getKW\<rparr>,
         if c = xor_all (frameHeader L @ bs) \<and> fc_hasCB fc then [bs] else [])"
    using assms(3) by (auto simp: decodeByte_def xor_zero_iff_eq)
  ultimately have "receiveData ((frameHeader L @ bs) @ [c, f]) fc =
    Inr (?d\<lparr>fc_checksum := fc_checksum ?d XOR c, fc_state := getKW\<rparr>,
         [] @ (if c = xor_all (frameHeader L @ bs) \<and> fc_hasCB fc then [bs] else []))"
    by (rule receiveData_append_Inr)
  then show ?thesis by simp
qed

lemma encodePacket_eq:
  "encodePacket d =
     frameHeader (word_of_nat (length d)) @ d @
       [xor_all (frameHeader (word_of_nat (length d)) @ d), 0xff]"
  by (simp add: encodePacket_def Let_def xor_all_def)

lemma length_field:
  "n < 2 ^ 14 \<Longrightarrow> unat (take_bit 14 (word_of_nat n :: size_type)) = n"
  by (simp add: unat_take_bit_14 unat_of_nat)

text \<open>A packet that fits the two length bytes, and is not empty.\<close>

definition frame_payload :: "byte_vec \<Rightarrow> bool" where
  "frame_payload d \<longleftrightarrow> d \<noteq> [] \<and> length d < 2 ^ 14"

definition codec_idle :: "FrameCodec \<Rightarrow> bool" where
  "codec_idle fc \<longleftrightarrow> fc_state fc = getKW \<and> fc_hasCB fc"

lemma receive_encoded:
  assumes "codec_idle fc" and "frame_payload d"
  shows "\<exists>fc'. receiveData (encodePacket d) fc = Inr (fc', [d]) \<and> codec_idle fc'"
  using receive_frame [of fc d "word_of_nat (length d)"
      "xor_all (frameHeader (word_of_nat (length d)) @ d)" "0xff"] assms
  by (simp add: encodePacket_eq codec_idle_def frame_payload_def length_field)

section \<open>The interface of a framing layer\<close>

text \<open>
  What a user of the byte stream relies on: feeding an encoded packet to an idle decoder
  yields that packet and an idle decoder, noise yields nothing, and the decoder can be fed in
  pieces. Any sequence of packets with noise in between then arrives complete and in order.
\<close>

locale frame_layer =
  fixes enc :: "'p \<Rightarrow> 'b list"
    and dec :: "'b list \<Rightarrow> 's \<Rightarrow> ('s \<times> 'p list) result"
    and idle :: "'s \<Rightarrow> bool"
    and payload :: "'p \<Rightarrow> bool"
    and is_noise :: "'b \<Rightarrow> bool"
  assumes dec_append: "dec xs s = Inr (s', ps) \<Longrightarrow> dec ys s' = Inr (s'', qs) \<Longrightarrow>
      dec (xs @ ys) s = Inr (s'', ps @ qs)"
    and dec_nil: "dec [] s = Inr (s, [])"
    and dec_enc: "idle s \<Longrightarrow> payload p \<Longrightarrow> \<exists>s'. dec (enc p) s = Inr (s', [p]) \<and> idle s'"
    and dec_noise: "idle s \<Longrightarrow> list_all is_noise ns \<Longrightarrow> dec ns s = Inr (s, [])"
begin

lemma stream:
  "idle s \<Longrightarrow> list_all (\<lambda>(ns, p). list_all is_noise ns \<and> payload p) items \<Longrightarrow>
   \<exists>s'. dec (concat (map (\<lambda>(ns, p). ns @ enc p) items)) s = Inr (s', map snd items) \<and> idle s'"
proof (induction items arbitrary: s)
  case Nil
  then show ?case by (simp add: dec_nil)
next
  case (Cons item items)
  obtain ns p where item: "item = (ns, p)" by (cases item)
  from Cons.prems item have ns: "list_all is_noise ns" and p: "payload p" by auto
  obtain s1 where s1: "dec (enc p) s = Inr (s1, [p])" "idle s1"
    using dec_enc [OF Cons.prems(1) p] by blast
  have "dec (ns @ enc p) s = Inr (s1, [] @ [p])"
    using dec_noise [OF Cons.prems(1) ns] s1(1) by (rule dec_append)
  moreover obtain s2 where s2:
    "dec (concat (map (\<lambda>(ns, p). ns @ enc p) items)) s1 = Inr (s2, map snd items)" "idle s2"
    using Cons.IH [OF s1(2)] Cons.prems(2) by auto
  ultimately have "dec ((ns @ enc p) @ concat (map (\<lambda>(ns, p). ns @ enc p) items)) s =
      Inr (s2, ([] @ [p]) @ map snd items)"
    using dec_append by blast
  with s2(2) item show ?case by auto
qed

end

interpretation frames: frame_layer encodePacket receiveData codec_idle frame_payload
  "\<lambda>b. b \<noteq> keyword"
proof unfold_locales
  fix fc and ns :: byte_vec
  assume "codec_idle fc" and "list_all (\<lambda>b. b \<noteq> keyword) ns"
  then show "receiveData ns fc = Inr (fc, [])"
    by (intro receiveData_noise) (auto simp: codec_idle_def list_all_iff)
qed (simp_all add: receiveData_append_Inr receive_encoded)

section \<open>Safety of the decoder\<close>

text \<open>
  The buffer has the announced length from the moment the length is known, and the index
  stays inside it unless the announced length is zero.
\<close>

definition codec_inv :: "FrameCodec \<Rightarrow> bool" where
  "codec_inv fc \<longleftrightarrow>
     (fc_state fc \<in> {getData, getChecksum, getFiller} \<longrightarrow>
        length (fc_decodePacket fc) = unat (fc_length fc) \<and>
        length (fc_decodePacket fc) \<le> vec_max_size) \<and>
     (fc_state fc = getData \<longrightarrow>
        fc_index fc < fc_length fc \<or> (fc_length fc = 0 \<and> fc_index fc = 0))"

lemma codec_inv_init: "codec_inv (mkFrameCodec cb)"
  by (simp add: codec_inv_def mkFrameCodec_def)

lemma codec_inv_reset: "codec_inv (reset fc)"
  by (simp add: codec_inv_def reset_def)

lemma index_next:
  assumes "fc_index fc < fc_length fc" and "unat (fc_length fc) \<le> vec_max_size"
  shows "fc_index fc + 1 = fc_length fc \<or> fc_index fc + 1 < fc_length fc"
  using assms unat_Suc_size [of "fc_index fc" "unat (fc_length fc)"]
  by (auto simp: word_less_nat_alt word_unat_eq_iff)

lemma decodeByte_inv:
  assumes "codec_inv fc" and "decodeByte b fc = Inr (fc', out)"
  shows "codec_inv fc'"
  using assms index_next [of fc]
  by (auto simp: codec_inv_def decodeByte_def Let_def word_less_nat_alt unat_gt_0
      split: DecodeState.splits if_splits)

lemma decodeByte_oob_iff:
  assumes "codec_inv fc"
  shows "decodeByte b fc = Inl Out_Of_Bounds \<longleftrightarrow> fc_state fc = getData \<and> fc_length fc = 0"
  using assms
  by (auto simp: codec_inv_def decodeByte_def Let_def word_less_nat_alt
      split: DecodeState.splits if_splits)

lemma receiveData_inv:
  "codec_inv fc \<Longrightarrow> receiveData bs fc = Inr (fc', out) \<Longrightarrow> codec_inv fc'"
proof (induction bs arbitrary: fc out)
  case Nil
  then show ?case by simp
next
  case (Cons b bs)
  from Cons.prems(2) obtain fc1 o1 outs where
    step: "decodeByte b fc = Inr (fc1, o1)" and rest: "receiveData bs fc1 = Inr (fc', outs)"
    by (auto simp: rbind_eq_Inr)
  from Cons.prems(1) step have "codec_inv fc1" by (rule decodeByte_inv)
  from this rest show ?case by (rule Cons.IH)
qed

section \<open>Properties\<close>

text \<open>
  C12: Frame round trip. A decoder that is between frames and has a receiver, fed with the
  encoding of any packet of 1 to 16383 bytes, delivers exactly that packet and is between
  frames again.
\<close>

theorem frame_roundtrip:
  assumes "fc_state fc = getKW" and "fc_hasCB fc" and "d \<noteq> []" and "length d < 2 ^ 14"
  shows "\<exists>fc'. receiveData (encodePacket d) fc = Inr (fc', [d]) \<and>
    fc_state fc' = getKW \<and> fc_hasCB fc'"
  using receive_encoded [of fc d] assms by (auto simp: codec_idle_def frame_payload_def)

theorem frame_roundtrip_witness:
  "\<exists>fc'. receiveData (encodePacket [0xfd, 0, 7]) (mkFrameCodec True) = Inr (fc', [[0xfd, 0, 7]]) \<and>
    fc_state fc' = getKW \<and> fc_hasCB fc'"
  by (rule frame_roundtrip) (simp_all add: mkFrameCodec_def)

text \<open>
  C15: Segmentation of the byte stream. Any sequence of frames on the wire, each preceded by
  arbitrary bytes other than the keyword, is delivered completely, in order and without
  extra packets.
\<close>

theorem frame_stream:
  assumes "fc_state fc = getKW" and "fc_hasCB fc"
    and "\<forall>(ns, p) \<in> set items. keyword \<notin> set ns \<and> p \<noteq> [] \<and> length p < 2 ^ 14"
  shows "\<exists>fc'. receiveData (concat (map (\<lambda>(ns, p). ns @ encodePacket p) items)) fc =
      Inr (fc', map snd items) \<and> fc_state fc' = getKW"
proof -
  have "list_all (\<lambda>(ns, p). list_all (\<lambda>b. b \<noteq> keyword) ns \<and> frame_payload p) items"
    using assms(3) by (fastforce simp: list_all_iff frame_payload_def)
  moreover have "codec_idle fc" using assms(1,2) by (simp add: codec_idle_def)
  ultimately show ?thesis using frames.stream by (auto simp: codec_idle_def)
qed

theorem frame_stream_witness:
  "\<exists>fc'. receiveData (concat (map (\<lambda>(ns, p). ns @ encodePacket p) [([1, 2], [4]), ([], [0xfd, 9])]))
      (mkFrameCodec True) = Inr (fc', [[4], [0xfd, 9]]) \<and> fc_state fc' = getKW"
  using frame_stream [of "mkFrameCodec True" "[([1, 2], [4]), ([], [0xfd, 9])]"]
  by (simp add: mkFrameCodec_def keyword_def)

text \<open>
  C25: Corruption of one byte is detected. When one payload byte of an encoded packet is
  replaced by a different one on the wire, the decoder delivers nothing and is ready for the
  next frame.
\<close>

theorem frame_corruption_detected:
  assumes "fc_state fc = getKW" and "i < length d" and "length d < 2 ^ 14" and "b \<noteq> d ! i"
  shows "\<exists>fc'. receiveData ((encodePacket d)[length (frameHeader (word_of_nat (length d))) + i := b]) fc
      = Inr (fc', []) \<and> fc_state fc' = getKW"
proof -
  let ?h = "frameHeader (word_of_nat (length d))"
  have upd: "(encodePacket d)[length ?h + i := b] = ?h @ d[i := b] @ [xor_all (?h @ d), 0xff]"
    using assms(2) by (simp add: encodePacket_eq list_update_append)
  have "xor_all (?h @ d) \<noteq> xor_all (?h @ d[i := b])"
    using xor_all_update_neq [OF assms(2,4)] by auto
  moreover have "d[i := b] \<noteq> []" using assms(2) by auto
  ultimately show ?thesis unfolding upd
    using receive_frame [of fc "d[i := b]" "word_of_nat (length d)" "xor_all (?h @ d)" "0xff"]
      assms(1,3) by (auto simp: length_field simp del: xor_all_append)
qed

theorem frame_corruption_detected_witness:
  "\<exists>fc'. receiveData ((encodePacket [4, 5])[length (frameHeader (word_of_nat (length [4, 5 :: byte]))) + 1 := 6])
      (mkFrameCodec True) = Inr (fc', []) \<and> fc_state fc' = getKW"
  by (rule frame_corruption_detected) (simp_all add: mkFrameCodec_def)

text \<open>
  C26: Memory safety of the decoder, and its one exception. In every state the decoder can
  reach from its construction by received bytes, the step for the next byte writes outside
  the receive buffer exactly when the frame being read has announced the length zero.
\<close>

theorem decoder_oob_exactly_on_empty_frame:
  assumes "receiveData bs (mkFrameCodec cb) = Inr (fc, out)"
  shows "decodeByte b fc = Inl Out_Of_Bounds \<longleftrightarrow> fc_state fc = getData \<and> fc_length fc = 0"
  using receiveData_inv [OF codec_inv_init assms] by (rule decodeByte_oob_iff)

theorem decoder_oob_exactly_on_empty_frame_witness:
  "\<exists>fc. receiveData [0xfd, 0] (mkFrameCodec True) = Inr (fc, []) \<and> decodeByte 7 fc = Inl Out_Of_Bounds"
proof -
  let ?fc = "(mkFrameCodec True)\<lparr>fc_checksum := 0xfd, fc_state := getData\<rparr>"
  have run: "receiveData [0xfd, 0] (mkFrameCodec True) = Inr (?fc, [])"
    by (simp add: mkFrameCodec_def decodeByte_def keyword_def vec_max_size_def vec_resize_def)
  have "decodeByte 7 ?fc = Inl Out_Of_Bounds"
    using decoder_oob_exactly_on_empty_frame [OF run, of 7] by (simp add: mkFrameCodec_def)
  with run show ?thesis by blast
qed

text \<open>
  The length field wraps. The encoder writes only the low fourteen bits of the packet
  length, so for a packet of 16384 bytes or more the decoder expects a shorter payload than
  the one that follows.
\<close>

theorem frame_length_wraps:
  assumes "fc_state fc = getKW" and "2 ^ 14 \<le> length d" and "length d < 2 ^ 64"
  shows "\<exists>fc'. receiveData (frameHeader (word_of_nat (length d))) fc = Inr (fc', []) \<and>
    unat (fc_length fc') = length d mod 2 ^ 14 \<and> unat (fc_length fc') < length d"
  using receive_header [OF assms(1), of "word_of_nat (length d)"] assms(2,3)
  by (simp add: unat_take_bit_14 unat_of_nat)

theorem frame_length_wraps_witness:
  "\<exists>fc'. receiveData (frameHeader (word_of_nat (length (replicate 16384 (0 :: byte))))) (mkFrameCodec True) =
      Inr (fc', []) \<and> unat (fc_length fc') = length (replicate 16384 (0 :: byte)) mod 2 ^ 14 \<and>
    unat (fc_length fc') < length (replicate 16384 (0 :: byte))"
  by (rule frame_length_wraps) (simp_all add: mkFrameCodec_def)

end
