(* ===== verification/Msg_To_Byte.thy ===== *)
theory Msg_To_Byte
  imports Frame_Codec
begin

text \<open>
  The adapter between messages and bytes (\<open>src/src/core/MsgToByteAdapter.{h,cpp}\<close>): it owns the
  frame codec, drops a partly received frame after a pause, and answers the master's question
  whether a packet is being received. The byte interface below is present or not; the bytes
  handed to it are collected in \<open>mb_txBytes\<close>. \<open>now\<close> is the time of the event loop.
\<close>

record MsgToByteAdapter =
  mb_hasByteIf :: bool
  mb_codec :: FrameCodec
  mb_lastUpdate :: time
  mb_txBytes :: "byte_vec list"

definition mkMsgToByteAdapter :: MsgToByteAdapter where
  "mkMsgToByteAdapter = \<lparr>mb_hasByteIf = False, mb_codec = mkFrameCodec False, mb_lastUpdate = 0, mb_txBytes = []\<rparr>"

definition mb_addClient :: "bool \<Rightarrow> MsgToByteAdapter \<Rightarrow> MsgToByteAdapter" where
  "mb_addClient cb a = a\<lparr>mb_codec := setRxCB cb (mb_codec a)\<rparr>"

definition mb_sendMsg :: "byte_vec \<Rightarrow> MsgToByteAdapter \<Rightarrow> MsgToByteAdapter result" where
  "mb_sendMsg msg a =
     (if mb_hasByteIf a then Inr (a\<lparr>mb_txBytes := mb_txBytes a @ [encodePacket msg]\<rparr>)
      else Inl Null_Deref)"

definition setByteIf :: "bool \<Rightarrow> MsgToByteAdapter \<Rightarrow> MsgToByteAdapter" where
  "setByteIf beIf a =
     (let a' = a\<lparr>mb_hasByteIf := beIf\<rparr>
      in if beIf then a'\<lparr>mb_codec := reset (mb_codec a')\<rparr> else a')"

definition checkTimeout :: "time \<Rightarrow> MsgToByteAdapter \<Rightarrow> MsgToByteAdapter" where
  "checkTimeout now a =
     (if rxInProgress (mb_codec a)
      then (let a' = (if now - mb_lastUpdate a > 1 / 10 then a\<lparr>mb_codec := reset (mb_codec a)\<rparr> else a)
            in a'\<lparr>mb_lastUpdate := now\<rparr>)
      else a)"

definition packetRxInProgress :: "time \<Rightarrow> MsgToByteAdapter \<Rightarrow> bool \<times> MsgToByteAdapter" where
  "packetRxInProgress now a = (let a' = checkTimeout now a in (rxInProgress (mb_codec a'), a'))"

definition receiveBytes :: "time \<Rightarrow> byte_vec \<Rightarrow> MsgToByteAdapter \<Rightarrow> (MsgToByteAdapter \<times> byte_vec list) result" where
  "receiveBytes now bytes a =
     (let a' = (checkTimeout now a)\<lparr>mb_lastUpdate := now\<rparr>
      in rbind (receiveData bytes (mb_codec a')) (\<lambda>(fc, out). Inr (a'\<lparr>mb_codec := fc\<rparr>, out)))"

text \<open>The answers to a series of polls at given times.\<close>

fun pollAll :: "time list \<Rightarrow> MsgToByteAdapter \<Rightarrow> bool list" where
  "pollAll [] a = []"
| "pollAll (t # ts) a = (case packetRxInProgress t a of (b, a') \<Rightarrow> b # pollAll ts a')"

section \<open>Properties\<close>

text \<open>
  Recovery after a pause. Whatever was received before, when more than 0.1 seconds pass
  without received bytes and without a poll, the next frame is delivered complete and alone:
  a truncated frame cannot corrupt its successor.
\<close>

theorem adapter_recovers_after_pause:
  assumes "now - mb_lastUpdate a > 1 / 10" and "fc_hasCB (mb_codec a)" and "d \<noteq> []" and "length d < 2 ^ 14"
  shows "\<exists>a'. receiveBytes now (encodePacket d) a = Inr (a', [d]) \<and> \<not> rxInProgress (mb_codec a')"
proof -
  let ?a = "(checkTimeout now a)\<lparr>mb_lastUpdate := now\<rparr>"
  have "codec_idle (mb_codec ?a)"
    using assms(1,2) by (auto simp: checkTimeout_def codec_idle_def rxInProgress_def reset_def Let_def)
  then obtain fc' where "receiveData (encodePacket d) (mb_codec ?a) = Inr (fc', [d])" "codec_idle fc'"
    using frames.dec_enc [of "mb_codec ?a" d] assms(3,4) by (auto simp: frame_payload_def)
  then show ?thesis by (auto simp: receiveBytes_def Let_def codec_idle_def rxInProgress_def)
qed

theorem adapter_recovers_after_pause_witness:
  "\<exists>a'. receiveBytes 5 (encodePacket [1, 2])
      (mkMsgToByteAdapter\<lparr>mb_codec := (mkFrameCodec True)\<lparr>fc_state := getData\<rparr>\<rparr>) = Inr (a', [[1, 2]]) \<and>
     \<not> rxInProgress (mb_codec a')"
  by (rule adapter_recovers_after_pause) (simp_all add: mkMsgToByteAdapter_def mkFrameCodec_def)

text \<open>
  Polling defeats the timeout. Each poll of a receiver with a started frame renews the time
  stamp; as long as the polls come at most 0.1 seconds apart, as those of the waiting master
  do, the receiver reports a packet in progress for ever although no byte arrives.
\<close>

theorem adapter_polling_defeats_timeout:
  assumes "rxInProgress (mb_codec a)"
    and "\<forall>i < length ts. (ts ! i) - ((mb_lastUpdate a # ts) ! i) \<le> 1 / 10"
  shows "pollAll ts a = replicate (length ts) True"
  using assms
proof (induction ts arbitrary: a)
  case Nil
  then show ?case by simp
next
  case (Cons t ts)
  let ?a = "a\<lparr>mb_lastUpdate := t\<rparr>"
  have "t - mb_lastUpdate a \<le> 1 / 10" using Cons.prems(2) by (metis length_greater_0_conv list.discI nth_Cons_0)
  then have poll: "packetRxInProgress t a = (True, ?a)"
    using Cons.prems(1) by (simp add: packetRxInProgress_def checkTimeout_def Let_def)
  have "\<forall>i < length ts. (ts ! i) - ((mb_lastUpdate ?a # ts) ! i) \<le> 1 / 10"
    using Cons.prems(2) by (metis MsgToByteAdapter.select_convs(3) MsgToByteAdapter.update_convs(3)
        MsgToByteAdapter.surjective Suc_less_eq length_Cons nth_Cons_Suc)
  then have "pollAll ts ?a = replicate (length ts) True" using Cons.prems(1) by (intro Cons.IH) simp_all
  then show ?case using poll by simp
qed

theorem adapter_polling_defeats_timeout_witness:
  "pollAll [8 / 100, 16 / 100, 24 / 100]
     (mkMsgToByteAdapter\<lparr>mb_codec := (mkFrameCodec True)\<lparr>fc_state := getData\<rparr>\<rparr>) = [True, True, True]"
  using adapter_polling_defeats_timeout [of "mkMsgToByteAdapter\<lparr>mb_codec := (mkFrameCodec True)\<lparr>fc_state := getData\<rparr>\<rparr>"
      "[8 / 100, 16 / 100, 24 / 100]"]
  by (simp add: mkMsgToByteAdapter_def rxInProgress_def less_Suc_eq)

end
