(* ===== verification/Vec_Queue.thy ===== *)
theory Vec_Queue
  imports SN_Prelude
begin

text \<open>
  \<open>src/src/utility/VecQueue.h\<close>: a FIFO queue kept in a \<open>std::vector\<close> with a head position.
  The class states its invariants in a comment; \<open>vq_inv\<close> is that comment. The locale
  \<open>fifo_queue\<close> is what the users of the class (the event queue of the state machine and the
  ready queue of the scheduler) rely on, and the interpretation \<open>vq\<close> proves it for the class.
\<close>

section \<open>The class\<close>

record 'a VecQueue =
  vq_store :: "'a list"
  vq_headPos :: nat

definition normLimit :: nat where
  "normLimit = 20"

definition mkVecQueue :: "'a VecQueue" where
  "mkVecQueue = \<lparr>vq_store = [], vq_headPos = 0\<rparr>"

definition check_empty :: "'a VecQueue \<Rightarrow> 'a VecQueue" where
  "check_empty q = (if vq_headPos q = length (vq_store q) then \<lparr>vq_store = [], vq_headPos = 0\<rparr> else q)"

definition checkRenormalization :: "'a VecQueue \<Rightarrow> 'a VecQueue" where
  "checkRenormalization q =
     (if length (vq_store q) div 2 < vq_headPos q
      then \<lparr>vq_store = drop (vq_headPos q) (vq_store q), vq_headPos = 0\<rparr> else q)"

definition vq_push :: "'a \<Rightarrow> 'a VecQueue \<Rightarrow> 'a VecQueue" where
  "vq_push el q =
     (let q = (if normLimit < length (vq_store q) then checkRenormalization q else q)
      in q\<lparr>vq_store := vq_store q @ [el]\<rparr>)"

definition vq_pop :: "'a VecQueue \<Rightarrow> 'a VecQueue" where
  "vq_pop q = check_empty (q\<lparr>vq_headPos := vq_headPos q + 1\<rparr>)"

definition vq_pop_back :: "'a VecQueue \<Rightarrow> 'a VecQueue result" where
  "vq_pop_back q =
     (if vq_store q = [] then Inl Out_Of_Bounds
      else Inr (check_empty (q\<lparr>vq_store := butlast (vq_store q)\<rparr>)))"

definition vq_front :: "'a VecQueue \<Rightarrow> 'a result" where
  "vq_front q =
     (if vq_headPos q < length (vq_store q) then Inr (vq_store q ! vq_headPos q) else Inl Out_Of_Bounds)"

definition vq_size :: "'a VecQueue \<Rightarrow> nat" where
  "vq_size q = length (vq_store q) - vq_headPos q"

definition vq_empty :: "'a VecQueue \<Rightarrow> bool" where
  "vq_empty q \<longleftrightarrow> vq_store q = []"

section \<open>Abstraction and invariant\<close>

definition vq_list :: "'a VecQueue \<Rightarrow> 'a list" where
  "vq_list q = drop (vq_headPos q) (vq_store q)"

definition vq_inv :: "'a VecQueue \<Rightarrow> bool" where
  "vq_inv q \<longleftrightarrow> vq_headPos q \<le> length (vq_store q) \<and>
     (vq_headPos q = length (vq_store q) \<longrightarrow> vq_store q = [])"

lemmas vq_defs = mkVecQueue_def check_empty_def checkRenormalization_def vq_push_def vq_pop_def
  vq_pop_back_def vq_front_def vq_size_def vq_empty_def vq_list_def vq_inv_def normLimit_def

section \<open>The interface of a FIFO queue\<close>

locale fifo_queue =
  fixes new :: 'q
    and push :: "'a \<Rightarrow> 'q \<Rightarrow> 'q"
    and pop :: "'q \<Rightarrow> 'q"
    and front :: "'q \<Rightarrow> 'a result"
    and empty :: "'q \<Rightarrow> bool"
    and elems :: "'q \<Rightarrow> 'a list"
    and inv :: "'q \<Rightarrow> bool"
  assumes inv_new: "inv new"
    and elems_new: "elems new = []"
    and inv_push: "inv q \<Longrightarrow> inv (push x q)"
    and elems_push: "inv q \<Longrightarrow> elems (push x q) = elems q @ [x]"
    and inv_pop: "inv q \<Longrightarrow> elems q \<noteq> [] \<Longrightarrow> inv (pop q)"
    and elems_pop: "inv q \<Longrightarrow> elems q \<noteq> [] \<Longrightarrow> elems (pop q) = tl (elems q)"
    and front_elems: "inv q \<Longrightarrow> elems q \<noteq> [] \<Longrightarrow> front q = Inr (hd (elems q))"
    and empty_elems: "inv q \<Longrightarrow> empty q \<longleftrightarrow> elems q = []"
begin

lemma push_all:
  "inv q \<Longrightarrow> inv (fold push xs q) \<and> elems (fold push xs q) = elems q @ xs"
  by (induction xs arbitrary: q) (simp_all add: inv_push elems_push)

text \<open>Popping as often as elements were pushed yields them in the order of the pushes.\<close>

lemma pops_in_order:
  "inv q \<Longrightarrow> i < length (elems q) \<Longrightarrow>
   inv ((pop ^^ i) q) \<and> front ((pop ^^ i) q) = Inr (elems q ! i) \<and>
   elems ((pop ^^ i) q) = drop i (elems q)"
proof (induction i)
  case 0
  then show ?case by (auto simp: front_elems hd_conv_nth)
next
  case (Suc i)
  then have IH: "inv ((pop ^^ i) q)" "elems ((pop ^^ i) q) = drop i (elems q)" by simp_all
  then have *: "inv (pop ((pop ^^ i) q))"
    "elems (pop ((pop ^^ i) q)) = drop (Suc i) (elems q)"
    using Suc.prems(2) by (simp_all add: inv_pop elems_pop tl_drop drop_Suc)
  moreover have "front (pop ((pop ^^ i) q)) = Inr (elems q ! Suc i)"
    using * Suc.prems(2) by (simp add: front_elems hd_drop_conv_nth)
  ultimately show ?case by simp
qed

end

section \<open>The class is a FIFO queue\<close>

lemma vq_inv_push: "vq_inv q \<Longrightarrow> vq_inv (vq_push x q)"
  by (auto simp: vq_defs Let_def)

lemma vq_list_push: "vq_inv q \<Longrightarrow> vq_list (vq_push x q) = vq_list q @ [x]"
  by (auto simp: vq_defs Let_def)

lemma vq_list_Nil: "vq_inv q \<Longrightarrow> vq_list q = [] \<longleftrightarrow> vq_store q = []"
  by (auto simp: vq_defs)

lemma vq_nonempty: "vq_inv q \<Longrightarrow> vq_list q \<noteq> [] \<Longrightarrow> vq_headPos q < length (vq_store q)"
  by (auto simp: vq_defs)

lemma vq_inv_pop: "vq_inv q \<Longrightarrow> vq_list q \<noteq> [] \<Longrightarrow> vq_inv (vq_pop q)"
  using vq_nonempty [of q] by (auto simp: vq_inv_def vq_pop_def check_empty_def)

lemma vq_list_pop: "vq_inv q \<Longrightarrow> vq_list q \<noteq> [] \<Longrightarrow> vq_list (vq_pop q) = tl (vq_list q)"
  using vq_nonempty [of q]
  by (auto simp: vq_list_def vq_pop_def check_empty_def drop_Suc tl_drop)

lemma vq_front_list: "vq_inv q \<Longrightarrow> vq_list q \<noteq> [] \<Longrightarrow> vq_front q = Inr (hd (vq_list q))"
  using vq_nonempty [of q] by (simp add: vq_front_def vq_list_def hd_drop_conv_nth)

lemma vq_size_list: "vq_size q = length (vq_list q)"
  by (simp add: vq_size_def vq_list_def)

lemma vq_pop_back_list:
  assumes "vq_inv q" and "vq_list q \<noteq> []"
  shows "\<exists>q'. vq_pop_back q = Inr q' \<and> vq_inv q' \<and> vq_list q' = butlast (vq_list q)"
  using vq_nonempty [OF assms]
  by (auto simp: vq_pop_back_def check_empty_def vq_inv_def vq_list_def butlast_drop)

interpretation vq: fifo_queue mkVecQueue vq_push vq_pop vq_front vq_empty vq_list vq_inv
  by unfold_locales
    (simp_all add: vq_inv_push vq_list_push vq_inv_pop vq_list_pop vq_front_list
      vq_list_Nil vq_empty_def mkVecQueue_def, simp_all add: vq_defs)

lemmas vq_laws [simp] = vq_inv_push vq_list_push vq_inv_pop vq_list_pop vq_front_list
  vq.empty_elems vq.inv_new vq.elems_new

section \<open>Properties\<close>

text \<open>
  C33: The vector queue is a FIFO queue. From any state that satisfies the class invariant,
  pushing a list of elements keeps the invariant, and popping \<open>i\<close> times afterwards exposes
  the \<open>i\<close>-th element of the old contents followed by the pushed list, across every
  renormalisation of the storage.
\<close>

theorem vecqueue_fifo:
  assumes "vq_inv q" and "i < length (vq_list q @ xs)"
  shows "vq_inv ((vq_pop ^^ i) (fold vq_push xs q)) \<and>
    vq_front ((vq_pop ^^ i) (fold vq_push xs q)) = Inr ((vq_list q @ xs) ! i) \<and>
    vq_size ((vq_pop ^^ i) (fold vq_push xs q)) = length (vq_list q @ xs) - i"
proof -
  have "vq_inv (fold vq_push xs q)" and elems: "vq_list (fold vq_push xs q) = vq_list q @ xs"
    using vq.push_all [OF assms(1)] by simp_all
  then show ?thesis
    using vq.pops_in_order [of "fold vq_push xs q" i] assms(2) by (simp add: vq_size_list)
qed

theorem vecqueue_fifo_witness:
  "vq_front ((vq_pop ^^ 2) (fold vq_push [10, 20, 30 :: int] mkVecQueue)) = Inr 30"
  using vecqueue_fifo [of mkVecQueue 2 "[10, 20, 30 :: int]"] by simp

text \<open>
  C34: Bounded storage. After every push the vector holds at most twice the live elements, or
  at most 21 elements: the head positions left behind by pops cannot accumulate.
\<close>

theorem vecqueue_storage_bound:
  assumes "vq_inv q"
  shows "length (vq_store (vq_push x q)) \<le> max 21 (2 * vq_size (vq_push x q))"
  using assms by (auto simp: vq_defs Let_def)

theorem vecqueue_storage_bound_witness:
  "length (vq_store (vq_push (1 :: int) mkVecQueue)) \<le> max 21 (2 * vq_size (vq_push 1 (mkVecQueue :: int VecQueue)))"
  by (rule vecqueue_storage_bound) simp

end
