(* ===== verification/Master_Scheduler.thy ===== *)
theory Master_Scheduler
  imports Serial_Protocol Vec_Queue
begin

text \<open>
  The actions of the bus master (\<open>src/src/master/Action.{h,cpp}\<close>) and their scheduler
  (\<open>src/src/master/MasterScheduler.h\<close>), with the configuration constants of
  \<open>src/src/utility/Config.h\<close>. The report callback of an action is always the one
  \<open>ActionHandler\<close> installs, so it is a flag. \<open>std::priority_queue\<close> leaves the order of equal
  elements open; the model inserts behind equal elements. What the scheduler needs of it is
  the locale \<open>priority_queue\<close>.
\<close>

section \<open>Configuration\<close>

definition staticLowAddress :: int where "staticLowAddress = 1"
definition staticHighAddress :: int where "staticHighAddress = 3"
definition dynamicLowAddress :: int where "dynamicLowAddress = 33"
definition dynamicHighAddress :: int where "dynamicHighAddress = 48"
definition masterTokenCycleTime :: time where "masterTokenCycleTime = 5 / 100"
definition masterTokenGrantTx2RxTime :: time where "masterTokenGrantTx2RxTime = 1 / 10"
definition masterTokenClientTimeout :: time where "masterTokenClientTimeout = 8 / 100"
definition addrDelayTokenPacketSent :: time where "addrDelayTokenPacketSent = 1 / 10000"
definition addrDelayTokenTimeout :: time where "addrDelayTokenTimeout = 10"
definition addrDelayFreeAddress :: time where "addrDelayFreeAddress = 30"
definition addrDelayTokenReturn :: time where "addrDelayTokenReturn = 1 / 10"
definition addrQueryPeriod :: time where "addrQueryPeriod = 5"
definition addrDiscoveryTimeout :: time where "addrDiscoveryTimeout = 1 / 100"

section \<open>Actions\<close>

datatype Cmd = send_master_start | send_token | query_address | do_nothing

datatype ReturnValue =
    RV_ok | RV_not_set | RV_timeout | RV_rx_token_no_packet | RV_client_packet_started
  | RV_token_timeout | RV_address_query_done

record Action =
  ac_action :: Cmd
  ac_address :: LocalAddress
  ac_result :: ReturnValue
  ac_hasReportCB :: bool

definition mkAction :: "Cmd \<Rightarrow> LocalAddress \<Rightarrow> Action" where
  "mkAction cmd addr = \<lparr>ac_action = cmd, ac_address = addr, ac_result = RV_not_set, ac_hasReportCB = False\<rparr>"

definition doNothing :: "Action \<Rightarrow> bool" where
  "doNothing a \<longleftrightarrow> ac_action a = do_nothing"

definition makeMasterStartAction :: Action where
  "makeMasterStartAction = mkAction send_master_start null_addr"

definition makeSendTokenAction :: "LocalAddress \<Rightarrow> Action" where
  "makeSendTokenAction addr = mkAction send_token addr"

definition makeQueryAddressAction :: Action where
  "makeQueryAddressAction = mkAction query_address null_addr"

definition makeDoNothingAction :: Action where
  "makeDoNothingAction = mkAction do_nothing null_addr"

primrec toString_Cmd :: "Cmd \<Rightarrow> string" where
  "toString_Cmd send_master_start = ''send_master_start''"
| "toString_Cmd send_token = ''send_token''"
| "toString_Cmd query_address = ''query_address''"
| "toString_Cmd do_nothing = ''do_nothing''"

primrec toString_ReturnValue :: "ReturnValue \<Rightarrow> string" where
  "toString_ReturnValue RV_ok = ''ok''"
| "toString_ReturnValue RV_not_set = ''not_set''"
| "toString_ReturnValue RV_timeout = ''timeout''"
| "toString_ReturnValue RV_rx_token_no_packet = ''rx_token_no_packet''"
| "toString_ReturnValue RV_client_packet_started = ''client_packet_started''"
| "toString_ReturnValue RV_token_timeout = ''token_timeout''"
| "toString_ReturnValue RV_address_query_done = ''address_query_done''"

text \<open>The enumerators of \<open>Cmd\<close> are ordered by declaration.\<close>

primrec cmdIndex :: "Cmd \<Rightarrow> nat" where
  "cmdIndex send_master_start = 0"
| "cmdIndex send_token = 1"
| "cmdIndex query_address = 2"
| "cmdIndex do_nothing = 3"

lemma cmdIndex_inject: "cmdIndex a = cmdIndex b \<longleftrightarrow> a = b"
  by (cases a; cases b) simp_all

instantiation Cmd :: linorder
begin

definition less_eq_Cmd :: "Cmd \<Rightarrow> Cmd \<Rightarrow> bool" where
  "less_eq_Cmd a b \<longleftrightarrow> cmdIndex a \<le> cmdIndex b"

definition less_Cmd :: "Cmd \<Rightarrow> Cmd \<Rightarrow> bool" where
  "less_Cmd a b \<longleftrightarrow> cmdIndex a < cmdIndex b"

instance
  by standard (auto simp: less_eq_Cmd_def less_Cmd_def cmdIndex_inject)

end

definition action_gt :: "Action \<Rightarrow> Action \<Rightarrow> bool" where
  "action_gt lhs rhs \<longleftrightarrow> ac_action rhs < ac_action lhs"

section \<open>The scheduler\<close>

record QueueEl =
  qe_nextTime :: time
  qe_action :: Action

definition queueEl_gt :: "QueueEl \<Rightarrow> QueueEl \<Rightarrow> bool" where
  "queueEl_gt lhs rhs \<longleftrightarrow>
     qe_nextTime rhs < qe_nextTime lhs \<or>
     (qe_nextTime lhs = qe_nextTime rhs \<and> action_gt (qe_action lhs) (qe_action rhs))"

text \<open>\<open>std::priority_queue\<close> with \<open>std::greater\<close>: the smallest element is on top.\<close>

fun pq_push :: "QueueEl \<Rightarrow> QueueEl list \<Rightarrow> QueueEl list" where
  "pq_push x [] = [x]"
| "pq_push x (y # ys) = (if queueEl_gt y x then x # y # ys else y # pq_push x ys)"

definition pq_top :: "QueueEl list \<Rightarrow> QueueEl result" where
  "pq_top q = (case q of [] \<Rightarrow> Inl Out_Of_Bounds | x # _ \<Rightarrow> Inr x)"

definition pq_pop :: "QueueEl list \<Rightarrow> QueueEl list" where
  "pq_pop q = tl q"

record MasterScheduler =
  ms_waiting :: "QueueEl list"
  ms_ready :: "Action VecQueue"

definition mkMasterScheduler :: MasterScheduler where
  "mkMasterScheduler = \<lparr>ms_waiting = [], ms_ready = mkVecQueue\<rparr>"

definition addAction :: "Action \<Rightarrow> time \<Rightarrow> MasterScheduler \<Rightarrow> MasterScheduler" where
  "addAction a t s = s\<lparr>ms_waiting := pq_push \<lparr>qe_nextTime = t, qe_action = a\<rparr> (ms_waiting s)\<rparr>"

definition addActionNow :: "Action \<Rightarrow> MasterScheduler \<Rightarrow> MasterScheduler" where
  "addActionNow a s = s\<lparr>ms_ready := vq_push a (ms_ready s)\<rparr>"

definition ms_front :: "MasterScheduler \<Rightarrow> Action result" where
  "ms_front s = vq_front (ms_ready s)"

definition ms_pop :: "MasterScheduler \<Rightarrow> MasterScheduler" where
  "ms_pop s = s\<lparr>ms_ready := vq_pop (ms_ready s)\<rparr>"

function moveReady :: "time \<Rightarrow> MasterScheduler \<Rightarrow> MasterScheduler" where
  "moveReady now s =
     (case pq_top (ms_waiting s) of
        Inl _ \<Rightarrow> s
      | Inr el \<Rightarrow>
          if qe_nextTime el \<le> now
          then moveReady now (s\<lparr>ms_ready := vq_push (qe_action el) (ms_ready s),
                               ms_waiting := pq_pop (ms_waiting s)\<rparr>)
          else s)"
  by pat_completeness auto
termination
  by (relation "measure (\<lambda>(now, s). length (ms_waiting s))")
    (auto simp: pq_top_def pq_pop_def split: list.splits)

declare moveReady.simps [simp del]

definition workToDo :: "time \<Rightarrow> MasterScheduler \<Rightarrow> bool \<times> MasterScheduler" where
  "workToDo now s = (let s' = moveReady now s in (\<not> vq_empty (ms_ready s'), s'))"

definition readyTime :: "MasterScheduler \<Rightarrow> time" where
  "readyTime s = (case pq_top (ms_waiting s) of Inl _ \<Rightarrow> 0 | Inr el \<Rightarrow> qe_nextTime el)"

section \<open>The interface of a priority queue\<close>

locale priority_queue =
  fixes gt :: "'a \<Rightarrow> 'a \<Rightarrow> bool"
    and push :: "'a \<Rightarrow> 'q \<Rightarrow> 'q"
    and top :: "'q \<Rightarrow> 'a result"
    and pop :: "'q \<Rightarrow> 'q"
    and bag :: "'q \<Rightarrow> 'a multiset"
    and inv :: "'q \<Rightarrow> bool"
  assumes bag_push: "bag (push x q) = add_mset x (bag q)"
    and inv_push: "inv q \<Longrightarrow> inv (push x q)"
    and top_in: "top q = Inr x \<Longrightarrow> x \<in># bag q"
    and top_least: "inv q \<Longrightarrow> top q = Inr x \<Longrightarrow> y \<in># bag q \<Longrightarrow> \<not> gt x y"
    and top_none: "top q = Inl e \<longleftrightarrow> bag q = {#} \<and> e = Out_Of_Bounds"
    and bag_pop: "top q = Inr x \<Longrightarrow> bag (pop q) = bag q - {#x#}"
    and inv_pop: "inv q \<Longrightarrow> inv (pop q)"
begin

text \<open>When the top is not due, nothing in the queue is.\<close>

lemma not_due:
  assumes "inv q" and "top q = Inr x" and "\<And>y. key y < key x \<Longrightarrow> gt x y"
    and "y \<in># bag q"
  shows "key x \<le> (key y :: 'k :: linorder)"
  using top_least [OF assms(1,2,4)] assms(3) by (meson not_le)

end

definition pq_inv :: "QueueEl list \<Rightarrow> bool" where
  "pq_inv q \<longleftrightarrow> sorted_wrt (\<lambda>x y. \<not> queueEl_gt x y) q"

lemma queueEl_trans: "\<not> queueEl_gt x y \<Longrightarrow> \<not> queueEl_gt y z \<Longrightarrow> \<not> queueEl_gt x z"
  by (auto simp: queueEl_gt_def action_gt_def)

lemma queueEl_asym: "queueEl_gt x y \<Longrightarrow> \<not> queueEl_gt y x"
  by (auto simp: queueEl_gt_def action_gt_def)

lemma mset_pq_push [simp]: "mset (pq_push x q) = add_mset x (mset q)"
  by (induction q) auto

lemma set_pq_push [simp]: "set (pq_push x q) = insert x (set q)"
  by (induction q) auto

lemma pq_inv_push: "pq_inv q \<Longrightarrow> pq_inv (pq_push x q)"
  unfolding pq_inv_def
  by (induction q) (auto dest: queueEl_asym, meson queueEl_asym queueEl_trans)

interpretation spq: priority_queue queueEl_gt pq_push pq_top pq_pop mset pq_inv
proof unfold_locales
  fix q x y
  assume "pq_inv q" and "pq_top q = Inr x" and "y \<in># mset q"
  then show "\<not> queueEl_gt x y"
    by (cases q) (auto simp: pq_top_def pq_inv_def queueEl_gt_def action_gt_def)
next
  fix q assume "pq_inv q"
  then show "pq_inv (pq_pop q)" by (cases q) (simp_all add: pq_inv_def pq_pop_def)
qed (auto simp: pq_inv_push pq_top_def pq_pop_def split: list.splits)

section \<open>What the scheduler releases\<close>

definition sched_inv :: "MasterScheduler \<Rightarrow> bool" where
  "sched_inv s \<longleftrightarrow> pq_inv (ms_waiting s) \<and> vq_inv (ms_ready s)"

text \<open>Every action the scheduler holds, waiting or ready.\<close>

definition sched_actions :: "MasterScheduler \<Rightarrow> Action multiset" where
  "sched_actions s = image_mset qe_action (mset (ms_waiting s)) + mset (vq_list (ms_ready s))"

definition due :: "time \<Rightarrow> QueueEl \<Rightarrow> bool" where
  "due now el \<longleftrightarrow> qe_nextTime el \<le> now"

lemma sched_inv_init [simp]: "sched_inv mkMasterScheduler"
  by (simp add: sched_inv_def mkMasterScheduler_def pq_inv_def)

lemma sched_actions_init [simp]: "sched_actions mkMasterScheduler = {#}"
  by (simp add: sched_actions_def mkMasterScheduler_def)

lemma sched_inv_add [simp]:
  "sched_inv s \<Longrightarrow> sched_inv (addAction a t s)"
  "sched_inv s \<Longrightarrow> sched_inv (addActionNow a s)"
  by (simp_all add: sched_inv_def addAction_def addActionNow_def pq_inv_push)

lemma sched_actions_add [simp]:
  "sched_actions (addAction a t s) = add_mset a (sched_actions s)"
  "sched_inv s \<Longrightarrow> sched_actions (addActionNow a s) = add_mset a (sched_actions s)"
  by (simp_all add: sched_actions_def addAction_def addActionNow_def sched_inv_def)

lemma moveReady_eq:
  "moveReady now s =
     s\<lparr>ms_ready := fold vq_push (map qe_action (takeWhile (due now) (ms_waiting s))) (ms_ready s),
       ms_waiting := dropWhile (due now) (ms_waiting s)\<rparr>"
proof (induction now s rule: moveReady.induct)
  case (1 now s)
  then show ?case
    by (cases "ms_waiting s")
      (auto simp: moveReady.simps [of now s] pq_top_def pq_pop_def due_def)
qed

lemma due_prefix:
  assumes "pq_inv q"
  shows "takeWhile (due now) q = filter (due now) q"
    and "dropWhile (due now) q = filter (\<lambda>el. \<not> due now el) q"
proof -
  have "takeWhile (due now) q = filter (due now) q \<and> dropWhile (due now) q = filter (\<lambda>el. \<not> due now el) q"
    using assms
  proof (induction q)
    case Nil
    then show ?case by simp
  next
    case (Cons x q)
    then have "\<not> due now x \<Longrightarrow> y \<in> set q \<Longrightarrow> \<not> due now y" for y
      by (force simp: pq_inv_def due_def queueEl_gt_def)
    then have "\<not> due now x \<Longrightarrow> filter (due now) q = []" "\<not> due now x \<Longrightarrow> filter (\<lambda>el. \<not> due now el) q = q"
      by (simp_all add: filter_empty_conv filter_id_conv)
    moreover have "pq_inv q" using Cons.prems by (simp add: pq_inv_def)
    ultimately show ?case using Cons.IH by (cases "due now x") simp_all
  qed
  then show "takeWhile (due now) q = filter (due now) q"
    and "dropWhile (due now) q = filter (\<lambda>el. \<not> due now el) q" by blast+
qed

lemma workToDo_spec:
  assumes "sched_inv s" and "workToDo now s = (b, s')"
  shows "sched_inv s'"
    and "vq_list (ms_ready s') = vq_list (ms_ready s) @ map qe_action (filter (due now) (ms_waiting s))"
    and "ms_waiting s' = filter (\<lambda>el. \<not> due now el) (ms_waiting s)"
    and "b \<longleftrightarrow> vq_list (ms_ready s') \<noteq> []"
    and "sched_actions s' = sched_actions s"
proof -
  have inv: "pq_inv (ms_waiting s)" "vq_inv (ms_ready s)" using assms(1) by (simp_all add: sched_inv_def)
  let ?d = "map qe_action (filter (due now) (ms_waiting s))"
  have s': "s' = s\<lparr>ms_ready := fold vq_push ?d (ms_ready s),
      ms_waiting := filter (\<lambda>el. \<not> due now el) (ms_waiting s)\<rparr>"
    using assms(2) due_prefix [OF inv(1), of now] by (auto simp: workToDo_def Let_def moveReady_eq)
  have ready: "vq_inv (ms_ready s')" "vq_list (ms_ready s') = vq_list (ms_ready s) @ ?d"
    using vq.push_all [OF inv(2), of ?d] by (simp_all add: s')
  then show "vq_list (ms_ready s') = vq_list (ms_ready s) @ ?d" by simp
  show w: "ms_waiting s' = filter (\<lambda>el. \<not> due now el) (ms_waiting s)" by (simp add: s')
  have "pq_inv (ms_waiting s')" using inv(1) by (simp add: w pq_inv_def sorted_wrt_filter)
  with ready(1) show "sched_inv s'" by (simp add: sched_inv_def)
  show "b \<longleftrightarrow> vq_list (ms_ready s') \<noteq> []"
    using assms(2) ready(1) by (auto simp: workToDo_def Let_def)
  have "mset (filter (\<lambda>el. \<not> due now el) (ms_waiting s)) + mset (filter (due now) (ms_waiting s)) =
      mset (ms_waiting s)"
    by (simp add: multiset_partition [symmetric] add.commute)
  then have "image_mset qe_action (mset (filter (\<lambda>el. \<not> due now el) (ms_waiting s))) +
      image_mset qe_action (mset (filter (due now) (ms_waiting s))) = image_mset qe_action (mset (ms_waiting s))"
    by (metis image_mset_union)
  then show "sched_actions s' = sched_actions s"
    using ready(2) w by (simp add: sched_actions_def ac_simps)
qed

lemma ms_pop_spec:
  assumes "sched_inv s" and "vq_list (ms_ready s) = a # as"
  shows "ms_front s = Inr a" and "sched_inv (ms_pop s)" and "vq_list (ms_ready (ms_pop s)) = as"
    and "sched_actions s = add_mset a (sched_actions (ms_pop s))"
    and "ms_waiting (ms_pop s) = ms_waiting s"
  using assms by (simp_all add: sched_inv_def ms_front_def ms_pop_def sched_actions_def)

section \<open>Properties\<close>

text \<open>
  C27: The scheduler releases exactly the due actions. After \<open>workToDo(now)\<close>, the ready queue is
  extended by precisely the waiting actions whose time has come, earliest first, no due
  action is left waiting, no action is lost or duplicated, and the result says whether there
  is an action to run.
\<close>

theorem scheduler_releases_due:
  assumes "sched_inv s" and "workToDo now s = (b, s')"
  shows "vq_list (ms_ready s') = vq_list (ms_ready s) @ map qe_action (filter (due now) (ms_waiting s)) \<and>
    sorted (map qe_nextTime (filter (due now) (ms_waiting s))) \<and>
    (\<forall>el \<in> set (ms_waiting s'). now < qe_nextTime el) \<and>
    sched_actions s' = sched_actions s \<and> (b \<longleftrightarrow> vq_list (ms_ready s') \<noteq> []) \<and> sched_inv s'"
proof -
  have "sorted_wrt (\<lambda>x y. qe_nextTime x \<le> qe_nextTime y) (ms_waiting s)"
    by (rule sorted_wrt_mono_rel [of _ "\<lambda>x y. \<not> queueEl_gt x y"])
      (use assms(1) in \<open>auto simp: queueEl_gt_def sched_inv_def pq_inv_def\<close>)
  then have "sorted (map qe_nextTime (filter (due now) (ms_waiting s)))"
    by (simp add: sorted_map sorted_wrt_filter)
  then show ?thesis using workToDo_spec [OF assms] by (auto simp: due_def)
qed

theorem scheduler_releases_due_witness:
  "vq_list (ms_ready (snd (workToDo 5 (addAction (makeSendTokenAction 2) 7
      (addAction (makeSendTokenAction 1) 3 mkMasterScheduler))))) = [makeSendTokenAction 1]"
proof -
  let ?s = "addAction (makeSendTokenAction 2) 7 (addAction (makeSendTokenAction 1) 3 mkMasterScheduler)"
  have "workToDo 5 ?s = (fst (workToDo 5 ?s), snd (workToDo 5 ?s))" by simp
  from scheduler_releases_due [OF _ this] show ?thesis
    by (simp add: addAction_def mkMasterScheduler_def sched_inv_def pq_inv_def queueEl_gt_def due_def)
qed

end
