(* ===== verification/Address_Table.thy ===== *)
theory Address_Table
  imports Master_Scheduler
begin

text \<open>
  The rows of the master's address store (\<open>src/src/master/AddressLine.h\<close>) and the parts of
  \<open>src/src/master/DynamicHandler.cpp\<close> that only read or change the store: lookup, removal and
  the choice of the next polling time. A pointer to a row is its index in the vector.

  The constructors used for the static rows leave \<open>m_uniqueId\<close> uninitialised; its value is an
  argument of the model's constructor.
\<close>

section \<open>Rows\<close>

datatype LineState = active | idle | badClient | free

record AddressLine =
  al_state :: LineState
  al_badCount :: int
  al_address :: LocalAddress
  al_isDynamic :: bool
  al_uniqueId :: UniqueId
  al_channelType :: byte

text \<open>The constructor for static rows and the one for assigned rows.\<close>

definition mkAddressLine :: "UniqueId \<Rightarrow> LocalAddress \<Rightarrow> AddressLine" where
  "mkAddressLine uninit addr =
     \<lparr>al_state = free, al_badCount = 0, al_address = addr, al_isDynamic = False,
      al_uniqueId = uninit, al_channelType = channelType2Byte illegal_type\<rparr>"

definition mkAddressLineUid ::
    "LocalAddress \<Rightarrow> LineState \<Rightarrow> bool \<Rightarrow> UniqueId \<Rightarrow> byte \<Rightarrow> AddressLine" where
  "mkAddressLineUid addr s dynamic uid ct =
     \<lparr>al_state = s, al_badCount = 0, al_address = addr, al_isDynamic = dynamic,
      al_uniqueId = uid, al_channelType = ct\<rparr>"

definition al_setInit :: "LineState \<Rightarrow> AddressLine \<Rightarrow> AddressLine" where
  "al_setInit s l = l\<lparr>al_state := s\<rparr>"

definition removeDynamic :: "AddressLine \<Rightarrow> bool" where
  "removeDynamic l \<longleftrightarrow> al_isDynamic l \<and> al_state l = free"

definition setState :: "LineState \<Rightarrow> AddressLine \<Rightarrow> AddressLine" where
  "setState st l =
     (let l' = l\<lparr>al_badCount := (if st = badClient then al_badCount l + 1 else 0)\<rparr>
      in if al_badCount l' > 3 then l'\<lparr>al_state := free\<rparr> else l'\<lparr>al_state := st\<rparr>)"

section \<open>The store\<close>

fun find_index :: "('a \<Rightarrow> bool) \<Rightarrow> 'a list \<Rightarrow> nat option" where
  "find_index P [] = None"
| "find_index P (x # xs) = (if P x then Some 0 else map_option Suc (find_index P xs))"

definition findLine_uid :: "UniqueId \<Rightarrow> AddressLine list \<Rightarrow> nat option" where
  "findLine_uid uid table = find_index (\<lambda>el. al_uniqueId el = uid) table"

definition findLine_addr :: "LocalAddress \<Rightarrow> AddressLine list \<Rightarrow> nat option" where
  "findLine_addr addr table = find_index (\<lambda>el. addr = al_address el) table"

definition removeLine :: "nat \<Rightarrow> AddressLine list \<Rightarrow> AddressLine list" where
  "removeLine i table = take i table @ drop (Suc i) table"

primrec nextTime :: "LineState \<Rightarrow> time \<Rightarrow> time" where
  "nextTime active now = now + addrDelayTokenPacketSent"
| "nextTime idle now = now + addrDelayTokenReturn"
| "nextTime badClient now = now + addrDelayTokenTimeout"
| "nextTime free now = now + addrDelayFreeAddress"

section \<open>Facts\<close>

lemma find_index_Some:
  "find_index P xs = Some i \<Longrightarrow> i < length xs \<and> P (xs ! i)"
  by (induction xs arbitrary: i) (auto split: if_splits)

lemma find_index_None: "find_index P xs = None \<longleftrightarrow> (\<forall>x \<in> set xs. \<not> P x)"
  by (induction xs) auto

lemma find_index_snoc:
  "find_index P xs = None \<Longrightarrow> find_index P (xs @ [x]) = (if P x then Some (length xs) else None)"
  by (induction xs) (auto split: if_splits)

lemma mset_removeLine:
  "i < length xs \<Longrightarrow> add_mset (xs ! i) (mset (removeLine i xs)) = mset xs"
  by (metis removeLine_def id_take_nth_drop mset_append mset.simps(2) union_mset_add_mset_right)

lemma setState_frame [simp]:
  "al_address (setState st l) = al_address l"
  "al_isDynamic (setState st l) = al_isDynamic l"
  "al_uniqueId (setState st l) = al_uniqueId l"
  by (simp_all add: setState_def Let_def)

lemma map_update_same: "i < length xs \<Longrightarrow> f y = f (xs ! i) \<Longrightarrow> map f (xs[i := y]) = map f xs"
  by (metis list_update_id map_update nth_map)

lemma nextTime_bounds: "now < nextTime st now \<and> nextTime st now \<le> now + 30"
  by (cases st)
    (simp_all add: addrDelayTokenPacketSent_def addrDelayTokenReturn_def addrDelayTokenTimeout_def
      addrDelayFreeAddress_def)

section \<open>Properties\<close>

text \<open>
  When a row is given up. A row that answered is reset by any answer; a dynamically
  assigned row whose client lets \<open>n\<close> consecutive tokens time out is due for removal exactly
  when \<open>n\<close> is at least four, and a static row is never due for removal.
\<close>

theorem bad_client_removed_after_four:
  assumes "al_badCount l = 0" and "n > 0"
  shows "removeDynamic ((setState badClient ^^ n) l) = (al_isDynamic l \<and> 4 \<le> n)"
proof -
  have "al_badCount ((setState badClient ^^ k) l) = int k \<and>
      al_isDynamic ((setState badClient ^^ k) l) = al_isDynamic l \<and>
      (0 < k \<longrightarrow> al_state ((setState badClient ^^ k) l) = (if 3 < k then free else badClient))" for k
    using assms(1) by (induction k) (auto simp: setState_def Let_def)
  from this [of n] show ?thesis using assms(2) by (auto simp: removeDynamic_def)
qed

theorem bad_client_removed_after_four_witness:
  "\<not> removeDynamic ((setState badClient ^^ 3) (mkAddressLineUid 33 idle True [] 1)) \<and>
   removeDynamic ((setState badClient ^^ 4) (mkAddressLineUid 33 idle True [] 1))"
  using bad_client_removed_after_four [of "mkAddressLineUid 33 idle True [] 1" 3]
    bad_client_removed_after_four [of "mkAddressLineUid 33 idle True [] 1" 4]
  by (simp add: mkAddressLineUid_def)

end
