(* ===== verification/Time_Service.thy ===== *)
theory Time_Service
  imports SN_Prelude
begin

text \<open>
  Timers: the handle \<open>TimeServiceIf::Timer\<close> (\<open>src/src/interfaces/TimeServiceIf.h\<close>), the service
  \<open>TimeServiceEv\<close> (\<open>src/src/hal/TimeServiceEv.{h,cpp}\<close>) and the libev wrapper it uses
  (\<open>src/src/eventwrapper/TimeoutWatcher.{h,cpp}\<close>, \<open>EventLoop.cpp\<close>).

  The state is the time of the event loop and the timers started in it: \<open>ev_timer_start\<close> adds
  an entry, \<open>ev_timer_stop\<close> removes it, and \<open>m_active\<close> of a \<open>TimeoutData\<close> says whether it is
  there. A handle holds the number of its \<open>TimerImpl\<close> object or nothing (\<open>nullptr\<close>). A callback
  is a value of type \<open>'cb\<close> that the client interprets. Time is real arithmetic.
\<close>

record 'cb PendingTimer =
  pt_id :: nat
  pt_deadline :: time
  pt_cb :: 'cb

record 'cb TimeService =
  ts_now :: time
  ts_nextId :: nat
  ts_pending :: "'cb PendingTimer list"

type_synonym Timer = "nat option"

definition mkTimeService :: "time \<Rightarrow> 'cb TimeService" where
  "mkTimeService t = \<lparr>ts_now = t, ts_nextId = 0, ts_pending = []\<rparr>"

section \<open>The service\<close>

text \<open>\<open>TimeoutData::start\<close>: the timer of a fresh object enters the loop.\<close>

definition td_start :: "time \<Rightarrow> 'cb \<Rightarrow> 'cb TimeService \<Rightarrow> 'cb TimeService" where
  "td_start timespan fkn ts =
     ts\<lparr>ts_nextId := Suc (ts_nextId ts),
        ts_pending := ts_pending ts @
          [\<lparr>pt_id = ts_nextId ts, pt_deadline = ts_now ts + timespan, pt_cb = fkn\<rparr>]\<rparr>"

definition td_cancel :: "nat \<Rightarrow> 'cb TimeService \<Rightarrow> 'cb TimeService" where
  "td_cancel i ts = ts\<lparr>ts_pending := filter (\<lambda>p. pt_id p \<noteq> i) (ts_pending ts)\<rparr>"

definition td_active :: "nat \<Rightarrow> 'cb TimeService \<Rightarrow> bool" where
  "td_active i ts \<longleftrightarrow> i \<in> pt_id ` set (ts_pending ts)"

text \<open>\<open>TimeoutData::cb\<close>: an active timer is stopped first, then its function is called.\<close>

definition td_cb :: "nat \<Rightarrow> 'cb TimeService \<Rightarrow> 'cb option \<times> 'cb TimeService" where
  "td_cb i ts =
     (case find (\<lambda>p. pt_id p = i) (ts_pending ts) of
        None \<Rightarrow> (None, ts)
      | Some p \<Rightarrow> (Some (pt_cb p), td_cancel i ts))"

definition makeTimeout :: "time \<Rightarrow> 'cb \<Rightarrow> 'cb TimeService \<Rightarrow> Timer \<times> 'cb TimeService" where
  "makeTimeout timespan fkn ts = (Some (ts_nextId ts), td_start timespan fkn ts)"

definition makeTimeoutAbs :: "time \<Rightarrow> 'cb \<Rightarrow> 'cb TimeService \<Rightarrow> Timer \<times> 'cb TimeService" where
  "makeTimeoutAbs timepoint fkn ts = (Some (ts_nextId ts), td_start (timepoint - ts_now ts) fkn ts)"

section \<open>The handle\<close>

definition timer_cancel :: "Timer \<Rightarrow> 'cb TimeService \<Rightarrow> Timer \<times> 'cb TimeService" where
  "timer_cancel t ts = (case t of None \<Rightarrow> (t, ts) | Some i \<Rightarrow> (None, td_cancel i ts))"

definition timer_destroy :: "Timer \<Rightarrow> 'cb TimeService \<Rightarrow> 'cb TimeService" where
  "timer_destroy t ts = (case t of None \<Rightarrow> ts | Some i \<Rightarrow> td_cancel i ts)"

text \<open>
  \<open>operator=(Timer&&)\<close> swaps and then drops the old pointer of the target without a call of
  \<open>cancel\<close>; the results are the target and the source. \<open>operator=(const Timer&)\<close> swaps with a
  local copy, whose destructor then cancels what the target held.
\<close>

definition timer_moveAssign :: "Timer \<Rightarrow> Timer \<Rightarrow> Timer \<times> Timer" where
  "timer_moveAssign target t = (t, None)"

definition timer_copyAssign :: "Timer \<Rightarrow> Timer \<Rightarrow> 'cb TimeService \<Rightarrow> Timer \<times> 'cb TimeService" where
  "timer_copyAssign target t ts = (t, timer_destroy target ts)"

text \<open>The passage of time.\<close>

definition ts_advance :: "time \<Rightarrow> 'cb TimeService \<Rightarrow> 'cb TimeService" where
  "ts_advance dt ts = ts\<lparr>ts_now := ts_now ts + dt\<rparr>"

section \<open>Facts\<close>

definition ts_inv :: "'cb TimeService \<Rightarrow> bool" where
  "ts_inv ts \<longleftrightarrow> distinct (map pt_id (ts_pending ts)) \<and> (\<forall>p \<in> set (ts_pending ts). pt_id p < ts_nextId ts)"

text \<open>The callbacks still to come.\<close>

definition ts_callbacks :: "'cb TimeService \<Rightarrow> (nat \<times> 'cb) set" where
  "ts_callbacks ts = (\<lambda>p. (pt_id p, pt_cb p)) ` set (ts_pending ts)"

lemma ts_inv_init [simp]: "ts_inv (mkTimeService t)"
  by (simp add: ts_inv_def mkTimeService_def)

lemma ts_callbacks_init [simp]: "ts_callbacks (mkTimeService t) = {}"
  by (simp add: ts_callbacks_def mkTimeService_def)

lemma ts_inv_td_start [simp]: "ts_inv ts \<Longrightarrow> ts_inv (td_start s cb ts)"
  by (auto simp: ts_inv_def td_start_def)

lemma ts_inv_td_cancel [simp]: "ts_inv ts \<Longrightarrow> ts_inv (td_cancel i ts)"
  by (auto simp: ts_inv_def td_cancel_def distinct_map_filter)

lemma ts_inv_advance [simp]: "ts_inv (ts_advance dt ts) = ts_inv ts"
  by (simp add: ts_inv_def ts_advance_def)

lemma ts_now_ops [simp]:
  "ts_now (td_start s cb ts) = ts_now ts"
  "ts_now (td_cancel i ts) = ts_now ts"
  "ts_now (ts_advance dt ts) = ts_now ts + dt"
  "ts_now (mkTimeService t) = t"
  by (simp_all add: td_start_def td_cancel_def ts_advance_def mkTimeService_def)

lemma ts_callbacks_ops [simp]:
  "ts_callbacks (td_start s cb ts) = insert (ts_nextId ts, cb) (ts_callbacks ts)"
  "ts_callbacks (td_cancel i ts) = {(j, cb) \<in> ts_callbacks ts. j \<noteq> i}"
  "ts_callbacks (ts_advance dt ts) = ts_callbacks ts"
  by (auto simp: ts_callbacks_def td_start_def td_cancel_def ts_advance_def)

lemma ts_nextId_fresh: "ts_inv ts \<Longrightarrow> (i, cb) \<in> ts_callbacks ts \<Longrightarrow> i < ts_nextId ts"
  by (auto simp: ts_inv_def ts_callbacks_def)

lemma ts_callbacks_unique:
  "ts_inv ts \<Longrightarrow> (i, a) \<in> ts_callbacks ts \<Longrightarrow> (i, b) \<in> ts_callbacks ts \<Longrightarrow> a = b"
  by (auto simp: ts_inv_def ts_callbacks_def distinct_map dest: inj_onD)

lemma td_cb_Some:
  assumes "ts_inv ts" and "td_cb i ts = (Some cb, ts')"
  shows "(i, cb) \<in> ts_callbacks ts" and "ts' = td_cancel i ts"
  using assms find_Some_in [of "\<lambda>p. pt_id p = i" "ts_pending ts"]
  by (auto simp: td_cb_def ts_callbacks_def split: option.splits)

lemma td_cb_active: "td_active i ts \<Longrightarrow> \<exists>cb. td_cb i ts = (Some cb, td_cancel i ts)"
  by (auto simp: td_cb_def td_active_def find_None_iff split: option.splits)

section \<open>Properties\<close>

text \<open>
  A timer fires at most once and never after it was cancelled. When the function of an
  active timer is called the timer has left the loop, and a timer that was cancelled or has
  fired calls nothing.
\<close>

theorem timer_fires_once:
  assumes "ts_inv ts" and "td_active i ts"
  shows "\<exists>cb. td_cb i ts = (Some cb, td_cancel i ts) \<and> (i, cb) \<in> ts_callbacks ts \<and>
    td_cb i (td_cancel i ts) = (None, td_cancel i ts) \<and>
    td_cb i (snd (timer_cancel (Some i) ts)) = (None, td_cancel i ts)"
proof -
  have "find (\<lambda>p. pt_id p = i) (ts_pending (td_cancel i ts)) = None"
    by (simp add: td_cancel_def find_None_iff)
  then show ?thesis
    using td_cb_active [OF assms(2)] td_cb_Some(1) [OF assms(1)]
    by (auto simp: td_cb_def timer_cancel_def)
qed

theorem timer_fires_once_witness:
  "\<exists>cb. td_cb 0 (td_start 5 ''f'' (mkTimeService 1)) = (Some cb, td_cancel 0 (td_start 5 ''f'' (mkTimeService 1)))"
  using timer_fires_once [of "td_start 5 ''f'' (mkTimeService 1)" 0]
  by (auto simp: td_active_def td_start_def mkTimeService_def ts_inv_def)

text \<open>
  Assigning a new timer to a handle does not stop the timer the handle held: after
  \<open>operator=(Timer&&)\<close> the old timer is still in the loop and nothing refers to it any more,
  so both functions will be called. The copy assignment stops it.
\<close>

theorem timer_move_assign_keeps_old_armed:
  assumes "ts_inv ts" and "(i, cb) \<in> ts_callbacks ts"
    and "makeTimeout s fkn ts = (new, ts')"
  shows "fst (timer_moveAssign (Some i) new) = new \<and> new \<noteq> Some i \<and>
    snd (timer_moveAssign (Some i) new) = None \<and>
    {(i, cb), (the new, fkn)} \<subseteq> ts_callbacks ts' \<and>
    (i, cb) \<notin> ts_callbacks (snd (timer_copyAssign (Some i) new ts'))"
  using assms ts_nextId_fresh [OF assms(1,2)]
  by (auto simp: makeTimeout_def timer_moveAssign_def timer_copyAssign_def timer_destroy_def)

theorem timer_move_assign_keeps_old_armed_witness:
  "\<exists>new ts'. makeTimeout 5 ''g'' (td_start 5 ''f'' (mkTimeService 1)) = (new, ts') \<and>
     {(0, ''f''), (the new, ''g'')} \<subseteq> ts_callbacks ts'"
  using timer_move_assign_keeps_old_armed [of "td_start 5 ''f'' (mkTimeService 1)" 0 "''f''" 5 "''g''"]
  by (auto simp: mkTimeService_def makeTimeout_def td_start_def ts_inv_def ts_callbacks_def)

end
