(* ===== verification/Action_Handler.thy ===== *)
theory Action_Handler
  imports Address_Table Tx_Queue Time_Service
begin

text \<open>
  The master's side of the bus around its state machine: the packets it sends
  (\<open>src/src/master/MasterPacketTx.cpp\<close>), the assignment of addresses
  (\<open>src/src/master/DynamicHandler.cpp\<close>) and the handler that starts actions and takes their
  results (\<open>src/src/master/ActionHandler.{h,cpp}\<close>), with \<open>startAction\<close> and
  \<open>reportActionResult\<close> of \<open>src/src/master/MasterFSM.cpp\<close>, which they call.

  The objects refer to each other by pointers; their state is one record \<open>MasterWorld\<close> with a
  component per object. A lambda handed to the time service is a value of \<open>timer_cb\<close>. An
  operation that posts events to the state machine returns them, in order.
  \<open>mw_rxBusy\<close> is what \<open>packetRxInProgress\<close> of the receiver answers; it changes with the bytes
  on the line.
\<close>

section \<open>State\<close>

datatype Event =
    ev_init | rx_pkt_master_start_stop | rx_pkt_grant_token | rx_pkt_client_packet
  | rx_return_token | rx_pkt_address_request AddressRequest | timer_timeout | check_new_command

datatype timer_cb = CB_fsm_timeout | CB_check_new_action | CB_query_address

record ActionHandler =
  ah_scheduler :: MasterScheduler
  ah_delayAction :: Timer
  ah_currentAction :: Action

record DynamicHandler =
  dh_minAddr :: int
  dh_maxAddr :: int
  dh_freeAddresses :: "LocalAddress list"
  dh_table :: "AddressLine list"
  dh_timer :: Timer

record MasterFSM =
  mf_timer :: Timer
  mf_currentAction :: Action

record MasterWorld =
  mw_ts :: "timer_cb TimeService"
  mw_tx :: TxQueue
  mw_rxBusy :: bool
  mw_ah :: ActionHandler
  mw_dh :: DynamicHandler
  mw_fsm :: MasterFSM

definition mkActionHandler :: ActionHandler where
  "mkActionHandler = \<lparr>ah_scheduler = mkMasterScheduler, ah_delayAction = None,
     ah_currentAction = makeDoNothingAction\<rparr>"

definition mkDynamicHandler :: DynamicHandler where
  "mkDynamicHandler = \<lparr>dh_minAddr = staticLowAddress, dh_maxAddr = staticHighAddress,
     dh_freeAddresses = [], dh_table = [], dh_timer = None\<rparr>"

definition mkMasterFSM :: MasterFSM where
  "mkMasterFSM = \<lparr>mf_timer = None, mf_currentAction = makeDoNothingAction\<rparr>"

definition mkMasterWorld :: "timer_cb TimeService \<Rightarrow> TxQueue \<Rightarrow> bool \<Rightarrow> MasterWorld" where
  "mkMasterWorld ts tx busy =
     \<lparr>mw_ts = ts, mw_tx = tx, mw_rxBusy = busy, mw_ah = mkActionHandler,
      mw_dh = mkDynamicHandler, mw_fsm = mkMasterFSM\<rparr>"

section \<open>Packets of the master\<close>

definition sendToken :: "LocalAddress \<Rightarrow> MasterWorld \<Rightarrow> MasterWorld" where
  "sendToken destAddr w =
     w\<lparr>mw_tx := sendMasterPacket (fromHeader_GrantToken (mkGrantToken destAddr)) (mw_tx w)\<rparr>"

definition sendMasterStop :: "MasterWorld \<Rightarrow> MasterWorld" where
  "sendMasterStop w =
     w\<lparr>mw_tx := sendMasterPacket
         (fromHeader_MasterEnded \<lparr>me_m_type = messageType2Byte master_ended\<rparr>) (mw_tx w)\<rparr>"

definition sendMasterStart :: "MasterWorld \<Rightarrow> MasterWorld" where
  "sendMasterStart w =
     w\<lparr>mw_tx := sendMasterPacket
         (fromHeader_MasterStarted \<lparr>ms_m_type = messageType2Byte master_started\<rparr>) (mw_tx w)\<rparr>"

definition sendAddressDiscovery :: "MasterWorld \<Rightarrow> MasterWorld" where
  "sendAddressDiscovery w =
     w\<lparr>mw_tx := sendMasterPacket
         (fromHeader_AddressDiscovery \<lparr>ad_m_type = messageType2Byte address_discovery,
            ad_m_randomDelay = 0, ad_m_randomHoldOff = 0\<rparr>) (mw_tx w)\<rparr>"

definition sendAddressReply :: "LocalAddress \<Rightarrow> UniqueId \<Rightarrow> MasterWorld \<Rightarrow> MasterWorld" where
  "sendAddressReply local uid w =
     w\<lparr>mw_tx := sendMasterPacket
         (fromHeader_AddressReply \<lparr>ar_m_type = messageType2Byte address_reply,
            ar_m_assigned = local, ar_m_uniqueId = uid\<rparr>) (mw_tx w)\<rparr>"

definition mp_sendClientPacket :: "MasterWorld \<Rightarrow> MasterWorld result" where
  "mp_sendClientPacket w = rbind (sendClientPacket (mw_tx w)) (\<lambda>q. Inr (w\<lparr>mw_tx := q\<rparr>))"

definition mp_txQueueEmpty :: "MasterWorld \<Rightarrow> bool" where
  "mp_txQueueEmpty w = txQueueEmpty (mw_tx w)"

definition mp_clientAddress :: "MasterWorld \<Rightarrow> LocalAddress" where
  "mp_clientAddress w = clientAddress (mw_tx w)"

section \<open>Posting actions\<close>

definition postActionNow :: "Action \<Rightarrow> MasterWorld \<Rightarrow> MasterWorld" where
  "postActionNow a w = w\<lparr>mw_ah := (mw_ah w)
     \<lparr>ah_scheduler := addActionNow (a\<lparr>ac_hasReportCB := True\<rparr>) (ah_scheduler (mw_ah w))\<rparr>\<rparr>"

definition postAction :: "Action \<Rightarrow> time \<Rightarrow> MasterWorld \<Rightarrow> MasterWorld" where
  "postAction a t w = w\<lparr>mw_ah := (mw_ah w)
     \<lparr>ah_scheduler := addAction (a\<lparr>ac_hasReportCB := True\<rparr>) t (ah_scheduler (mw_ah w))\<rparr>\<rparr>"

section \<open>Assignment of addresses\<close>

text \<open>\<open>start\<close>: the static rows with a token each, the free dynamic addresses, the first query.\<close>

definition addStaticLine :: "(LocalAddress \<Rightarrow> UniqueId) \<Rightarrow> int \<Rightarrow> MasterWorld \<Rightarrow> MasterWorld" where
  "addStaticLine uninit i w =
     postActionNow (makeSendTokenAction (toLocalAddress_int i))
       (w\<lparr>mw_dh := (mw_dh w)\<lparr>dh_table := dh_table (mw_dh w) @
          [mkAddressLine (uninit (toLocalAddress_int i)) (toLocalAddress_int i)]\<rparr>\<rparr>)"

definition dh_start :: "(LocalAddress \<Rightarrow> UniqueId) \<Rightarrow> MasterWorld \<Rightarrow> MasterWorld" where
  "dh_start uninit w =
     (let w1 = fold (addStaticLine uninit) [dh_minAddr (mw_dh w) .. dh_maxAddr (mw_dh w)] w;
          w2 = w1\<lparr>mw_dh := (mw_dh w1)\<lparr>dh_freeAddresses := dh_freeAddresses (mw_dh w1) @
                 map toLocalAddress_int (rev [dynamicLowAddress .. dynamicHighAddress])\<rparr>\<rparr>
      in postActionNow makeQueryAddressAction w2)"

definition allocAddress :: "UniqueId \<Rightarrow> MasterWorld \<Rightarrow> LocalAddress \<times> MasterWorld" where
  "allocAddress uid w =
     (let fr = dh_freeAddresses (mw_dh w) in
      if fr = [] then (null_addr, w)
      else (last fr, w\<lparr>mw_dh := (mw_dh w)\<lparr>dh_freeAddresses := butlast fr\<rparr>\<rparr>))"

definition receivedAddressRequest :: "AddressRequest \<Rightarrow> MasterWorld \<Rightarrow> MasterWorld" where
  "receivedAddressRequest aReq w =
     (let addrLine = findLine_uid (aq_m_uniqueId aReq) (dh_table (mw_dh w));
          (addrLine', w') =
            (if addrLine = None \<and> dh_freeAddresses (mw_dh w) \<noteq> []
             then (let (localAddr, w1) = allocAddress (aq_m_uniqueId aReq) w;
                       w2 = w1\<lparr>mw_dh := (mw_dh w1)\<lparr>dh_table := dh_table (mw_dh w1) @
                              [mkAddressLineUid localAddr idle True (aq_m_uniqueId aReq)
                                 (aq_m_channelType aReq)]\<rparr>\<rparr>;
                       w3 = postActionNow (makeSendTokenAction localAddr) w2
                   in (findLine_addr localAddr (dh_table (mw_dh w3)), w3))
             else (addrLine, w))
      in case addrLine' of
           None \<Rightarrow> w'
         | Some i \<Rightarrow> sendAddressReply (al_address (dh_table (mw_dh w') ! i)) (aq_m_uniqueId aReq) w')"

definition addressDiscoveryIsDone :: "MasterWorld \<Rightarrow> MasterWorld" where
  "addressDiscoveryIsDone w =
     (let next_time = ts_now (mw_ts w) + addrQueryPeriod;
          (t, ts) = makeTimeoutAbs next_time CB_query_address (mw_ts w)
      in w\<lparr>mw_ts := ts,
           mw_dh := (mw_dh w)\<lparr>dh_timer := fst (timer_moveAssign (dh_timer (mw_dh w)) t)\<rparr>\<rparr>)"

definition updateAddressLine :: "LocalAddress \<Rightarrow> LineState \<Rightarrow> MasterWorld \<Rightarrow> MasterWorld result" where
  "updateAddressLine addr newState w =
     (case findLine_addr addr (dh_table (mw_dh w)) of
        None \<Rightarrow> Inl Null_Deref
      | Some i \<Rightarrow>
          (let line = setState newState (dh_table (mw_dh w) ! i);
               table = (dh_table (mw_dh w))[i := line]
           in if removeDynamic line
              then Inr (w\<lparr>mw_dh := (mw_dh w)
                     \<lparr>dh_freeAddresses := dh_freeAddresses (mw_dh w) @ [al_address line],
                      dh_table := removeLine i table\<rparr>\<rparr>)
              else Inr (postAction (makeSendTokenAction addr)
                     (nextTime (al_state line) (ts_now (mw_ts w)))
                     (w\<lparr>mw_dh := (mw_dh w)\<lparr>dh_table := table\<rparr>\<rparr>))))"

section \<open>Starting actions and taking their results\<close>

definition actionActive :: "MasterWorld \<Rightarrow> bool" where
  "actionActive w \<longleftrightarrow> ac_action (mf_currentAction (mw_fsm w)) \<noteq> do_nothing"

definition startAction :: "Action \<Rightarrow> MasterWorld \<Rightarrow> (MasterWorld \<times> Event list) result" where
  "startAction a w =
     (if actionActive w then Inl Assert_Failed
      else Inr (w\<lparr>mw_fsm := (mw_fsm w)\<lparr>mf_currentAction := a\<rparr>\<rparr>, [check_new_command]))"

definition checkNewAction :: "MasterWorld \<Rightarrow> (MasterWorld \<times> Event list) result" where
  "checkNewAction w =
     (if doNothing (ah_currentAction (mw_ah w))
      then (case workToDo (ts_now (mw_ts w)) (ah_scheduler (mw_ah w)) of (work, s) \<Rightarrow>
              let w1 = w\<lparr>mw_ah := (mw_ah w)\<lparr>ah_scheduler := s\<rparr>\<rparr> in
              if work
              then rbind (ms_front s) (\<lambda>a.
                     startAction a (w1\<lparr>mw_ah := (mw_ah w1)
                       \<lparr>ah_currentAction := a, ah_scheduler := ms_pop s\<rparr>\<rparr>))
              else (let next_time = readyTime s in
                    if next_time < 1 then Inr (w1, [])
                    else (let (t, ts) = makeTimeoutAbs next_time CB_check_new_action (mw_ts w1)
                          in Inr (w1\<lparr>mw_ts := ts,
                               mw_ah := (mw_ah w1)\<lparr>ah_delayAction :=
                                 fst (timer_moveAssign (ah_delayAction (mw_ah w1)) t)\<rparr>\<rparr>, []))))
      else Inr (w, []))"

definition ah_reportActionResult ::
    "ReturnValue \<Rightarrow> MasterWorld \<Rightarrow> (MasterWorld \<times> Event list) result" where
  "ah_reportActionResult rv w =
     (let addr = ac_address (ah_currentAction (mw_ah w));
          w1 = w\<lparr>mw_ah := (mw_ah w)\<lparr>ah_currentAction := makeDoNothingAction\<rparr>\<rparr>
      in rbind (case rv of
                  RV_client_packet_started \<Rightarrow> updateAddressLine addr active w1
                | RV_rx_token_no_packet \<Rightarrow> updateAddressLine addr idle w1
                | RV_token_timeout \<Rightarrow> updateAddressLine addr badClient w1
                | RV_address_query_done \<Rightarrow> Inr (addressDiscoveryIsDone w1)
                | RV_ok \<Rightarrow> Inr w1
                | _ \<Rightarrow> Inl Assert_Failed)
           checkNewAction)"

definition fsm_reportActionResult ::
    "ReturnValue \<Rightarrow> MasterWorld \<Rightarrow> (MasterWorld \<times> Event list) result" where
  "fsm_reportActionResult rv w =
     (let cb = ac_hasReportCB (mf_currentAction (mw_fsm w));
          w1 = w\<lparr>mw_fsm := (mw_fsm w)\<lparr>mf_currentAction := makeDoNothingAction\<rparr>\<rparr>
      in if cb then ah_reportActionResult rv w1 else Inr (w1, []))"

end
