(* ===== verification/State_Chart.thy ===== *)
theory State_Chart
  imports Vec_Queue
begin

text \<open>
  The hierarchical state machine engine of \<open>src/src/statechart/StateChart.{h,cpp}\<close>. States are
  numbered by \<open>int\<close> as in the class; \<open>FsmSetupBase\<close> is the table of registered states,
  \<open>FsmBaseSupport\<close> the stack of active states with the pending transition, and \<open>FsmBase\<close> adds
  the event queue and the object the states work on (the user's state machine, of type \<open>'w\<close>).

  The state classes of a user are the parameter \<open>FsmDescription\<close>: what the constructor, the
  destructor and \<open>event\<close> of a state do to \<open>'w\<close>, which transition they request and which
  events they post. A constructor may request a transition but posts no event. A pointer to a
  \<open>StateInfo\<close> is the entry \<open>findState\<close> returns for its id; two such pointers are equal exactly
  when the ids are. Loops that need not end are \<open>partial_function (option)\<close>: \<open>None\<close> is "does
  not return".
\<close>

section \<open>The table of states\<close>

record StateInfo =
  si_id :: int
  si_parentId :: int
  si_level :: nat
  si_stateSize :: nat
  si_name :: string

record FsmSetupBase =
  fs_states :: "StateInfo list"
  fs_maxLevel :: nat

definition mkFsmSetupBase :: FsmSetupBase where
  "mkFsmSetupBase = \<lparr>fs_states = [], fs_maxLevel = 0\<rparr>"

definition findState :: "FsmSetupBase \<Rightarrow> int \<Rightarrow> StateInfo option" where
  "findState setup i = find (\<lambda>el. si_id el = i) (fs_states setup)"

definition addStateBase ::
    "int \<Rightarrow> int \<Rightarrow> nat \<Rightarrow> string \<Rightarrow> FsmSetupBase \<Rightarrow> FsmSetupBase result" where
  "addStateBase stateId parentId sz name setup =
     rbind (if stateId \<noteq> parentId
            then (case findState setup parentId of
                    None \<Rightarrow> Inl Null_Deref
                  | Some parent \<Rightarrow> Inr (si_level parent + 1))
            else Inr 0)
       (\<lambda>level.
         let t = \<lparr>si_id = stateId, si_parentId = parentId, si_level = level,
                  si_stateSize = sz, si_name = name\<rparr>
         in Inr (setup\<lparr>fs_states := fs_states setup @ [t],
                      fs_maxLevel := (if fs_maxLevel setup < level then level
                                      else fs_maxLevel setup)\<rparr>))"

section \<open>The machine\<close>

text \<open>\<open>LevelData\<close>: the state object alive at a level, if any, and the size of its storage.\<close>

record LevelData =
  ld_activeState :: "int option"
  ld_stateStorage :: nat

record FsmBaseSupport =
  fb_stackFrames :: "LevelData list"
  fb_currentInfos :: "StateInfo list"
  fb_setup :: FsmSetupBase
  fb_nextInfos :: "StateInfo option list"
  fb_stateUpdate :: bool
  fb_nextState :: int

definition mkFsmBaseSupport :: "FsmSetupBase \<Rightarrow> FsmBaseSupport" where
  "mkFsmBaseSupport setup =
     \<lparr>fb_stackFrames = [], fb_currentInfos = [], fb_setup = setup, fb_nextInfos = [],
      fb_stateUpdate = False, fb_nextState = 0\<rparr>"

record ('ev, 'w) FsmDescription =
  fd_construct :: "int \<Rightarrow> 'w \<Rightarrow> ('w \<times> int option) result"
  fd_destruct :: "int \<Rightarrow> 'w \<Rightarrow> ('w \<times> int option \<times> 'ev list) result"
  fd_event :: "int \<Rightarrow> 'ev \<Rightarrow> 'w \<Rightarrow> (bool \<times> 'w \<times> int option \<times> 'ev list) result"

record ('ev, 'w) FsmBase =
  m_base :: FsmBaseSupport
  m_eventQueue :: "'ev VecQueue"
  m_world :: 'w

definition mkFsmBase :: "FsmSetupBase \<Rightarrow> 'w \<Rightarrow> ('ev, 'w) FsmBase" where
  "mkFsmBase setup w =
     \<lparr>m_base = mkFsmBaseSupport setup, m_eventQueue = mkVecQueue, m_world = w\<rparr>"

definition transition :: "int \<Rightarrow> FsmBaseSupport \<Rightarrow> FsmBaseSupport" where
  "transition i fb = fb\<lparr>fb_nextState := i, fb_stateUpdate := True\<rparr>"

text \<open>What a state's code did to the machine: object, requested transition, posted events.\<close>

definition applyEffect ::
    "'w \<times> int option \<times> 'ev list \<Rightarrow> ('ev, 'w) FsmBase \<Rightarrow> ('ev, 'w) FsmBase" where
  "applyEffect eff m = (case eff of (w, req, evs) \<Rightarrow>
     m\<lparr>m_world := w,
       m_base := (case req of None \<Rightarrow> m_base m | Some i \<Rightarrow> transition i (m_base m)),
       m_eventQueue := fold vq_push evs (m_eventQueue m)\<rparr>)"

lemma applyEffect_frame [simp]:
  "fb_currentInfos (m_base (applyEffect eff m)) = fb_currentInfos (m_base m)"
  "fb_nextInfos (m_base (applyEffect eff m)) = fb_nextInfos (m_base m)"
  "fb_stackFrames (m_base (applyEffect eff m)) = fb_stackFrames (m_base m)"
  "fb_setup (m_base (applyEffect eff m)) = fb_setup (m_base m)"
  "m_world (applyEffect eff m) = fst eff"
  by (auto simp: applyEffect_def transition_def split: prod.splits option.splits)

section \<open>Transitions\<close>

text \<open>The loop of \<open>populateNextInfos\<close> from the state \<open>si\<close> up to its root.\<close>

partial_function (option) populateUp ::
    "FsmSetupBase \<Rightarrow> StateInfo \<Rightarrow> StateInfo option list \<Rightarrow> StateInfo option list result option" where
  "populateUp setup si nextInfos =
     (if 0 < si_level si
      then (case findState setup (si_parentId si) of
              None \<Rightarrow> Some (Inl Null_Deref)
            | Some p \<Rightarrow>
                if si_level p < length nextInfos
                then populateUp setup p (nextInfos[si_level p := Some p])
                else Some (Inl Out_Of_Bounds))
      else Some (Inr nextInfos))"

definition populateNextInfos :: "StateInfo \<Rightarrow> FsmBaseSupport \<Rightarrow> FsmBaseSupport result option" where
  "populateNextInfos nextInfo fb =
     (let level = si_level nextInfo;
          infos = take (level + 1) (fb_nextInfos fb) @
                  replicate (level + 1 - length (fb_nextInfos fb)) None
      in map_option (\<lambda>r. rbind r (\<lambda>infos'. Inr (fb\<lparr>fb_nextInfos := infos'\<rparr>)))
           (populateUp (fb_setup fb) nextInfo (infos[level := Some nextInfo])))"

fun commonLevel :: "StateInfo list \<Rightarrow> StateInfo option list \<Rightarrow> nat" where
  "commonLevel (c # cs) (n # ns) = (if Some c = n then Suc (commonLevel cs ns) else 0)"
| "commonLevel _ _ = 0"

definition findFirstThatDiffer :: "FsmBaseSupport \<Rightarrow> nat" where
  "findFirstThatDiffer fb =
     (if Some (last (fb_currentInfos fb)) = last (fb_nextInfos fb)
      then si_level (last (fb_currentInfos fb))
      else commonLevel (fb_currentInfos fb) (fb_nextInfos fb))"

function doExit ::
    "('ev, 'w) FsmDescription \<Rightarrow> nat \<Rightarrow> ('ev, 'w) FsmBase \<Rightarrow> ('ev, 'w) FsmBase result" where
  "doExit d bottomLevel m =
     (let infos = fb_currentInfos (m_base m); top = length infos - 1 in
      if bottomLevel < length infos
      then (if top < length (fb_stackFrames (m_base m))
            then (let frame = fb_stackFrames (m_base m) ! top;
                      fb = (m_base m)\<lparr>fb_stackFrames :=
                             (fb_stackFrames (m_base m))[top := frame\<lparr>ld_activeState := None\<rparr>]\<rparr>
                  in rbind (case ld_activeState frame of
                              None \<Rightarrow> Inr (m_world m, None, [])
                            | Some i \<Rightarrow> fd_destruct d i (m_world m))
                       (\<lambda>eff. let m' = applyEffect eff (m\<lparr>m_base := fb\<rparr>) in
                          doExit d bottomLevel
                            (m'\<lparr>m_base := (m_base m')
                               \<lparr>fb_currentInfos := butlast (fb_currentInfos (m_base m'))\<rparr>\<rparr>)))
            else Inl Out_Of_Bounds)
      else Inr m)"
  by pat_completeness auto
termination
  by (relation "measure (\<lambda>(d, bl, m). length (fb_currentInfos (m_base m)))")
    (auto simp: rbind_def)

function doEntry ::
    "('ev, 'w) FsmDescription \<Rightarrow> ('ev, 'w) FsmBase \<Rightarrow> ('ev, 'w) FsmBase result" where
  "doEntry d m =
     (let fb = m_base m; level = length (fb_currentInfos fb); dstLevel = length (fb_nextInfos fb) in
      if level \<noteq> dstLevel
      then (if level < dstLevel \<and> level < length (fb_stackFrames fb)
            then (case fb_nextInfos fb ! level of
                    None \<Rightarrow> Inl Null_Deref
                  | Some newState \<Rightarrow>
                      (let frame = fb_stackFrames fb ! level;
                           storage = max (ld_stateStorage frame) (si_stateSize newState);
                           fb' = fb\<lparr>fb_currentInfos := fb_currentInfos fb @ [newState],
                                   fb_stackFrames := (fb_stackFrames fb)
                                     [level := \<lparr>ld_activeState = Some (si_id newState),
                                               ld_stateStorage = storage\<rparr>]\<rparr>
                       in rbind (fd_construct d (si_id newState) (m_world m))
                            (\<lambda>(w, req). doEntry d (applyEffect (w, req, []) (m\<lparr>m_base := fb'\<rparr>)))))
            else Inl Out_Of_Bounds)
      else Inr m)"
  by pat_completeness auto
termination
  by (relation "measure (\<lambda>(d, m). length (fb_nextInfos (m_base m)) - length (fb_currentInfos (m_base m)))")
    auto

declare doExit.simps [simp del] doEntry.simps [simp del]

definition doTransition ::
    "('ev, 'w) FsmDescription \<Rightarrow> StateInfo \<Rightarrow> ('ev, 'w) FsmBase \<Rightarrow> ('ev, 'w) FsmBase result option" where
  "doTransition d nextInfo m =
     map_option (\<lambda>r. rbind r (\<lambda>fb.
         let bottomLevel = (if fb_currentInfos fb = [] then 0 else findFirstThatDiffer fb)
         in rbind (doExit d bottomLevel (m\<lparr>m_base := fb\<rparr>)) (doEntry d)))
       (populateNextInfos nextInfo (m_base m))"

partial_function (option) prepareTransition ::
    "('ev, 'w) FsmDescription \<Rightarrow> ('ev, 'w) FsmBase \<Rightarrow> ('ev, 'w) FsmBase result option" where
  "prepareTransition d m =
     (if fb_stateUpdate (m_base m)
      then (case findState (fb_setup (m_base m)) (fb_nextState (m_base m)) of
              None \<Rightarrow> prepareTransition d m
            | Some i \<Rightarrow>
                Option.bind (doTransition d i (m\<lparr>m_base := (m_base m)\<lparr>fb_stateUpdate := False\<rparr>\<rparr>))
                  (\<lambda>r. case r of Inl e \<Rightarrow> Some (Inl e) | Inr m' \<Rightarrow> prepareTransition d m'))
      else Some (Inr m))"

definition setStartState ::
    "('ev, 'w) FsmDescription \<Rightarrow> int \<Rightarrow> ('ev, 'w) FsmBase \<Rightarrow> ('ev, 'w) FsmBase result option" where
  "setStartState d i m =
     (let fb = m_base m;
          n = fs_maxLevel (fb_setup fb) + 1;
          frames = take n (fb_stackFrames fb) @
                   replicate (n - length (fb_stackFrames fb)) \<lparr>ld_activeState = None, ld_stateStorage = 0\<rparr>
      in prepareTransition d
           (m\<lparr>m_base := fb\<lparr>fb_stackFrames := frames, fb_nextState := i, fb_stateUpdate := True\<rparr>\<rparr>))"

definition cleanup ::
    "('ev, 'w) FsmDescription \<Rightarrow> ('ev, 'w) FsmBase \<Rightarrow> ('ev, 'w) FsmBase result" where
  "cleanup d m =
     rbind (doExit d 0 m) (\<lambda>m'. Inr (m'\<lparr>m_base := (m_base m')\<lparr>fb_stackFrames := []\<rparr>\<rparr>))"

section \<open>Events\<close>

text \<open>\<open>processEvent\<close> offers the event to the active states from the innermost one outwards.\<close>

fun emitEvents ::
    "('ev, 'w) FsmDescription \<Rightarrow> 'ev \<Rightarrow> nat \<Rightarrow> ('ev, 'w) FsmBase \<Rightarrow> ('ev, 'w) FsmBase result" where
  "emitEvents d ev 0 m = Inr m"
| "emitEvents d ev (Suc level) m =
     (if level < length (fb_stackFrames (m_base m))
      then (case ld_activeState (fb_stackFrames (m_base m) ! level) of
              None \<Rightarrow> Inl Null_Deref
            | Some i \<Rightarrow>
                rbind (fd_event d i ev (m_world m))
                  (\<lambda>(handled, eff). let m' = applyEffect eff m in
                     if handled then Inr m' else emitEvents d ev level m'))
      else Inl Out_Of_Bounds)"

definition processEvent ::
    "('ev, 'w) FsmDescription \<Rightarrow> 'ev \<Rightarrow> ('ev, 'w) FsmBase \<Rightarrow> ('ev, 'w) FsmBase result option" where
  "processEvent d ev m =
     (let level = length (fb_currentInfos (m_base m)) in
      if level = 0 then Some (Inr m)
      else (case emitEvents d ev level m of
              Inl e \<Rightarrow> Some (Inl e)
            | Inr m' \<Rightarrow> prepareTransition d m'))"

text \<open>The loop of \<open>postEvent\<close>; the queue keeps the event while it is being processed.\<close>

partial_function (option) processQueue ::
    "('ev, 'w) FsmDescription \<Rightarrow> ('ev, 'w) FsmBase \<Rightarrow> ('ev, 'w) FsmBase result option" where
  "processQueue d m =
     (if vq_empty (m_eventQueue m) then Some (Inr m)
      else (case vq_front (m_eventQueue m) of
              Inl e \<Rightarrow> Some (Inl e)
            | Inr ev \<Rightarrow>
                Option.bind (processEvent d ev m)
                  (\<lambda>r. case r of
                         Inl e \<Rightarrow> Some (Inl e)
                       | Inr m' \<Rightarrow> processQueue d (m'\<lparr>m_eventQueue := vq_pop (m_eventQueue m')\<rparr>))))"

definition postEvent ::
    "('ev, 'w) FsmDescription \<Rightarrow> 'ev \<Rightarrow> ('ev, 'w) FsmBase \<Rightarrow> ('ev, 'w) FsmBase result option" where
  "postEvent d ev m =
     (let empty = vq_empty (m_eventQueue m);
          m' = m\<lparr>m_eventQueue := vq_push ev (m_eventQueue m)\<rparr>
      in if empty then processQueue d m' else Some (Inr m'))"

declare populateUp.simps [code] prepareTransition.simps [code] processQueue.simps [code]

section \<open>Well-formed tables\<close>

definition wf_setup :: "FsmSetupBase \<Rightarrow> bool" where
  "wf_setup setup \<longleftrightarrow>
     distinct (map si_id (fs_states setup)) \<and>
     (\<forall>s \<in> set (fs_states setup). si_level s \<le> fs_maxLevel setup \<and>
        (si_level s \<noteq> 0 \<longrightarrow>
          (\<exists>p. findState setup (si_parentId s) = Some p \<and> si_level s = Suc (si_level p))))"

text \<open>The states from the root down to \<open>si\<close>, which is \<open>n\<close> levels below it.\<close>

fun pathTo :: "FsmSetupBase \<Rightarrow> nat \<Rightarrow> StateInfo \<Rightarrow> StateInfo list" where
  "pathTo setup 0 si = [si]"
| "pathTo setup (Suc n) si =
     (case findState setup (si_parentId si) of
        None \<Rightarrow> [si]
      | Some p \<Rightarrow> pathTo setup n p @ [si])"

lemma findState_in: "findState setup i = Some s \<Longrightarrow> s \<in> set (fs_states setup) \<and> si_id s = i"
  by (auto simp: findState_def dest: find_Some_in)

lemma wf_setup_init: "wf_setup mkFsmSetupBase"
  by (simp add: wf_setup_def mkFsmSetupBase_def)

lemma findState_append:
  "findState setup i = Some s \<Longrightarrow>
   findState (setup\<lparr>fs_states := fs_states setup @ ts, fs_maxLevel := l\<rparr>) i = Some s"
  by (simp add: findState_def find_append)

lemma addStateBase_wf:
  assumes "wf_setup setup" and "addStateBase i p sz nm setup = Inr setup'"
    and "i \<notin> si_id ` set (fs_states setup)"
  shows "wf_setup setup'"
proof -
  from assms(2) obtain level where
    lev: "if i \<noteq> p then \<exists>q. findState setup p = Some q \<and> level = Suc (si_level q) else level = 0"
    and s': "setup' = setup\<lparr>fs_states := fs_states setup @
        [\<lparr>si_id = i, si_parentId = p, si_level = level, si_stateSize = sz, si_name = nm\<rparr>],
        fs_maxLevel := (if fs_maxLevel setup < level then level else fs_maxLevel setup)\<rparr>"
    by (auto simp: addStateBase_def rbind_eq_Inr Let_def split: option.splits if_splits)
  have keep: "findState setup j = Some q \<Longrightarrow> findState setup' j = Some q" for j q
    unfolding s' by (rule findState_append)
  have "si_level s \<le> fs_maxLevel setup' \<and> (si_level s \<noteq> 0 \<longrightarrow>
      (\<exists>q. findState setup' (si_parentId s) = Some q \<and> si_level s = Suc (si_level q)))"
    if "s \<in> set (fs_states setup')" for s
  proof (cases "s \<in> set (fs_states setup)")
    case True
    then have "si_level s \<le> fs_maxLevel setup"
      and "si_level s \<noteq> 0 \<Longrightarrow> \<exists>q. findState setup (si_parentId s) = Some q \<and> si_level s = Suc (si_level q)"
      using assms(1) by (auto simp: wf_setup_def)
    then show ?thesis using keep by (fastforce simp: s')
  next
    case False
    then have "si_level s = level" "si_parentId s = p" using that by (auto simp: s')
    then show ?thesis using lev keep by (auto simp: s' split: if_splits)
  qed
  moreover have "distinct (map si_id (fs_states setup'))"
    using assms(1,3) by (auto simp: s' wf_setup_def)
  ultimately show ?thesis by (simp add: wf_setup_def)
qed

lemma pathTo_last: "last (pathTo setup n si) = si"
  by (cases n) (auto split: option.splits)

lemma length_pathTo:
  "wf_setup setup \<Longrightarrow> si \<in> set (fs_states setup) \<Longrightarrow> si_level si = n \<Longrightarrow>
   length (pathTo setup n si) = Suc n"
proof (induction n arbitrary: si)
  case 0
  then show ?case by simp
next
  case (Suc n)
  then obtain p where "findState setup (si_parentId si) = Some p" "si_level p = n"
    by (force simp: wf_setup_def)
  with Suc show ?case by (auto dest: findState_in)
qed

text \<open>The walk to the root ends and fills the vector with the path, for every table built by
  \<open>addStateBase\<close>.\<close>

lemma populateUp_path:
  "wf_setup setup \<Longrightarrow> si \<in> set (fs_states setup) \<Longrightarrow> si_level si = n \<Longrightarrow> n < length xs \<Longrightarrow>
   xs ! n = Some si \<Longrightarrow>
   populateUp setup si xs = Some (Inr (map Some (pathTo setup n si) @ drop (Suc n) xs))"
proof (induction n arbitrary: si xs)
  case 0
  then show ?case by (cases xs) (simp_all add: populateUp.simps)
next
  case (Suc n)
  then obtain p where p: "findState setup (si_parentId si) = Some p" "si_level p = n"
    by (force simp: wf_setup_def)
  let ?ys = "xs[n := Some p]"
  have "populateUp setup p ?ys = Some (Inr (map Some (pathTo setup n p) @ drop (Suc n) ?ys))"
    using Suc.prems p findState_in [OF p(1)] by (intro Suc.IH) auto
  moreover have "drop (Suc n) ?ys = Some si # drop (Suc (Suc n)) xs"
    using Suc.prems by (simp add: Cons_nth_drop_Suc [symmetric])
  ultimately show ?case
    using p Suc.prems by (simp add: populateUp.simps [of _ si])
qed

lemma populateNextInfos_path:
  assumes "wf_setup (fb_setup fb)" and "si \<in> set (fs_states (fb_setup fb))"
  shows "populateNextInfos si fb =
    Some (Inr (fb\<lparr>fb_nextInfos := map Some (pathTo (fb_setup fb) (si_level si) si)\<rparr>))"
  using populateUp_path [OF assms refl] unfolding populateNextInfos_def Let_def by simp

section \<open>Entering and leaving states\<close>

lemma doExit_done: "length (fb_currentInfos (m_base m)) \<le> bl \<Longrightarrow> doExit d bl m = Inr m"
  by (subst doExit.simps) (simp add: Let_def)

lemma doEntry_done:
  "length (fb_currentInfos (m_base m)) = length (fb_nextInfos (m_base m)) \<Longrightarrow> doEntry d m = Inr m"
  by (subst doEntry.simps) (simp add: Let_def)

definition stack_ok :: "FsmBaseSupport \<Rightarrow> bool" where
  "stack_ok fb \<longleftrightarrow>
     length (fb_currentInfos fb) \<le> length (fb_stackFrames fb) \<and>
     (\<forall>l < length (fb_currentInfos fb).
        ld_activeState (fb_stackFrames fb ! l) = Some (si_id (fb_currentInfos fb ! l)))"

text \<open>
  A machine whose states only record their construction and destruction, used to observe the
  order in which the engine runs constructors and destructors.
\<close>

datatype probe = Entered int | Left int

definition probeFsm :: "('ev, probe list) FsmDescription" where
  "probeFsm = \<lparr>fd_construct = (\<lambda>i w. Inr (w @ [Entered i], None)),
               fd_destruct = (\<lambda>i w. Inr (w @ [Left i], None, [])),
               fd_event = (\<lambda>i ev w. Inr (False, w, None, []))\<rparr>"

lemma applyEffect_quiet [simp]: "applyEffect (w, None, []) m = m\<lparr>m_world := w\<rparr>"
  by (simp add: applyEffect_def)

lemma stack_ok_pop:
  assumes "stack_ok fb" and "fb_currentInfos fb \<noteq> []"
  shows "stack_ok (fb\<lparr>fb_stackFrames := (fb_stackFrames fb)[length (fb_currentInfos fb) - 1 := fr],
                    fb_currentInfos := butlast (fb_currentInfos fb)\<rparr>)"
  using assms by (auto simp: stack_ok_def nth_butlast)

lemma stack_ok_push:
  assumes "stack_ok fb" and "length (fb_currentInfos fb) < length (fb_stackFrames fb)"
    and "ld_activeState fr = Some (si_id s)"
  shows "stack_ok (fb\<lparr>fb_currentInfos := fb_currentInfos fb @ [s],
      fb_stackFrames := (fb_stackFrames fb)[length (fb_currentInfos fb) := fr]\<rparr>)"
  using assms by (auto simp: stack_ok_def nth_append less_Suc_eq)

lemma doExit_step:
  assumes "stack_ok (m_base m)" and "bl < length (fb_currentInfos (m_base m))"
    and "fd_destruct d (si_id (last (fb_currentInfos (m_base m)))) (m_world m) = Inr (w, None, [])"
  shows "\<exists>m'. doExit d bl m = doExit d bl m' \<and> stack_ok (m_base m') \<and> m_world m' = w \<and>
    fb_currentInfos (m_base m') = butlast (fb_currentInfos (m_base m)) \<and>
    fb_nextInfos (m_base m') = fb_nextInfos (m_base m) \<and>
    fb_setup (m_base m') = fb_setup (m_base m) \<and>
    length (fb_stackFrames (m_base m')) = length (fb_stackFrames (m_base m)) \<and>
    fb_stateUpdate (m_base m') = fb_stateUpdate (m_base m) \<and> m_eventQueue m' = m_eventQueue m"
proof -
  let ?cur = "fb_currentInfos (m_base m)" and ?frames = "fb_stackFrames (m_base m)"
  let ?top = "length ?cur - 1"
  let ?fb = "(m_base m)\<lparr>fb_stackFrames := ?frames[?top := (?frames ! ?top)\<lparr>ld_activeState := None\<rparr>],
      fb_currentInfos := butlast ?cur\<rparr>"
  have ne: "?cur \<noteq> []" using assms(2) by auto
  then have top: "?top < length ?cur" "?cur ! ?top = last ?cur" by (simp_all add: last_conv_nth)
  then have "?top < length ?frames" "ld_activeState (?frames ! ?top) = Some (si_id (last ?cur))"
    using assms(1) by (auto simp: stack_ok_def)
  then have "doExit d bl m = doExit d bl (m\<lparr>m_world := w, m_base := ?fb\<rparr>)"
    using assms(2,3) by (subst doExit.simps) (simp add: Let_def)
  moreover have "stack_ok ?fb" using assms(1) ne by (rule stack_ok_pop)
  ultimately show ?thesis by (intro exI [of _ "m\<lparr>m_world := w, m_base := ?fb\<rparr>"]) simp
qed

lemma doExit_probe:
  assumes "stack_ok (m_base m)" and "bl \<le> length (fb_currentInfos (m_base m))"
  shows "\<exists>m'. doExit probeFsm bl m = Inr m' \<and> stack_ok (m_base m') \<and>
    fb_currentInfos (m_base m') = take bl (fb_currentInfos (m_base m)) \<and>
    m_world m' = m_world m @ map (Left \<circ> si_id) (rev (drop bl (fb_currentInfos (m_base m)))) \<and>
    fb_nextInfos (m_base m') = fb_nextInfos (m_base m) \<and>
    length (fb_stackFrames (m_base m')) = length (fb_stackFrames (m_base m))"
  using assms
proof (induction "length (fb_currentInfos (m_base m)) - bl" arbitrary: m)
  case 0
  then show ?case by (simp add: doExit_done)
next
  case (Suc k)
  let ?cur = "fb_currentInfos (m_base m)"
  have lt: "bl < length ?cur" using Suc.hyps(2) by simp
  then have ne: "?cur \<noteq> []" by auto
  obtain m1 where m1: "doExit probeFsm bl m = doExit probeFsm bl m1" "stack_ok (m_base m1)"
    "m_world m1 = m_world m @ [Left (si_id (last ?cur))]"
    "fb_currentInfos (m_base m1) = butlast ?cur"
    "fb_nextInfos (m_base m1) = fb_nextInfos (m_base m)"
    "length (fb_stackFrames (m_base m1)) = length (fb_stackFrames (m_base m))"
    using doExit_step [OF Suc.prems(1) lt, of probeFsm] by (auto simp: probeFsm_def)
  have "k = length (fb_currentInfos (m_base m1)) - bl" and "bl \<le> length (fb_currentInfos (m_base m1))"
    using m1(4) Suc.hyps(2) lt by simp_all
  from Suc.hyps(1) [OF this(1) m1(2) this(2)] m1
  obtain m' where m': "doExit probeFsm bl m = Inr m'" "stack_ok (m_base m')"
    "fb_currentInfos (m_base m') = take bl (butlast ?cur)"
    "m_world m' = m_world m @ [Left (si_id (last ?cur))] @ map (Left \<circ> si_id) (rev (drop bl (butlast ?cur)))"
    "fb_nextInfos (m_base m') = fb_nextInfos (m_base m)"
    "length (fb_stackFrames (m_base m')) = length (fb_stackFrames (m_base m))"
    by auto
  have "take bl (butlast ?cur) = take bl ?cur" using lt by (simp add: take_butlast)
  moreover have "rev (drop bl ?cur) = last ?cur # rev (drop bl (butlast ?cur))"
    using drop_butlast_last [OF lt] by simp
  ultimately show ?case using m' by auto
qed

lemma doEntry_probe:
  assumes "stack_ok (m_base m)" and "fb_nextInfos (m_base m) = map Some path"
    and "fb_currentInfos (m_base m) = take k path" and "k \<le> length path"
    and "length path \<le> length (fb_stackFrames (m_base m))"
  shows "\<exists>m'. doEntry probeFsm m = Inr m' \<and> stack_ok (m_base m') \<and>
    fb_currentInfos (m_base m') = path \<and>
    m_world m' = m_world m @ map (Entered \<circ> si_id) (drop k path)"
  using assms
proof (induction "length path - k" arbitrary: m k)
  case 0
  then show ?case by (auto simp: doEntry_done)
next
  case (Suc j)
  let ?fb = "m_base m" and ?s = "path ! k"
  let ?fr = "\<lparr>ld_activeState = Some (si_id ?s),
      ld_stateStorage = max (ld_stateStorage (fb_stackFrames ?fb ! k)) (si_stateSize ?s)\<rparr>"
  let ?fb' = "?fb\<lparr>fb_currentInfos := fb_currentInfos ?fb @ [?s],
      fb_stackFrames := (fb_stackFrames ?fb)[length (fb_currentInfos ?fb) := ?fr]\<rparr>"
  let ?m = "m\<lparr>m_base := ?fb', m_world := m_world m @ [Entered (si_id ?s)]\<rparr>"
  have k: "k < length path" using Suc.hyps(2) by simp
  then have len: "length (fb_currentInfos ?fb) = k" using Suc.prems(3) by simp
  have step: "doEntry probeFsm m = doEntry probeFsm ?m"
    using k len Suc.prems(2,5) by (subst doEntry.simps) (simp add: Let_def probeFsm_def)
  have "stack_ok ?fb'"
    using Suc.prems(1) k len Suc.prems(5) by (intro stack_ok_push) simp_all
  moreover have "fb_currentInfos ?fb' = take (Suc k) path"
    using k Suc.prems(3) by (simp add: take_Suc_conv_app_nth)
  ultimately have "\<exists>m'. doEntry probeFsm ?m = Inr m' \<and> stack_ok (m_base m') \<and>
    fb_currentInfos (m_base m') = path \<and>
    m_world m' = m_world ?m @ map (Entered \<circ> si_id) (drop (Suc k) path)"
    using Suc.hyps(2) k Suc.prems by (intro Suc.hyps(1)) simp_all
  then show ?case using step k by (auto simp: Cons_nth_drop_Suc [symmetric])
qed

lemma take_commonLevel:
  "take (commonLevel cs (map Some ns)) cs = take (commonLevel cs (map Some ns)) ns"
  "commonLevel cs (map Some ns) \<le> length cs"
  "commonLevel cs (map Some ns) \<le> length ns"
  by (induction cs "map Some ns" arbitrary: ns rule: commonLevel.induct) auto

section \<open>Machines without hierarchy\<close>

text \<open>
  The interface between the engine and a machine whose states are all roots and whose
  constructors and destructors request no transition. Under this contract one event is one
  step \<open>flat_event\<close> of the active state: its handler, and when it asks for a transition, the
  destructor of the old and the constructor of the new state.
\<close>

definition flat_event ::
    "('ev, 'w) FsmDescription \<Rightarrow> int \<Rightarrow> 'ev \<Rightarrow> 'w \<Rightarrow> (int \<times> 'w \<times> 'ev list) result" where
  "flat_event d i ev w =
     rbind (fd_event d i ev w) (\<lambda>(handled, w1, req, evs).
       case req of
         None \<Rightarrow> Inr (i, w1, evs)
       | Some t \<Rightarrow>
           rbind (fd_destruct d i w1) (\<lambda>(w2, _, evs2).
             rbind (fd_construct d t w2) (\<lambda>(w3, _). Inr (t, w3, evs @ evs2))))"

definition flat_at :: "FsmSetupBase \<Rightarrow> int \<Rightarrow> ('ev, 'w) FsmBase \<Rightarrow> bool" where
  "flat_at tbl i m \<longleftrightarrow>
     fb_setup (m_base m) = tbl \<and> \<not> fb_stateUpdate (m_base m) \<and> vq_inv (m_eventQueue m) \<and>
     (\<exists>info frame. findState tbl i = Some info \<and> fb_currentInfos (m_base m) = [info] \<and>
        fb_stackFrames (m_base m) = [frame] \<and> ld_activeState frame = Some i)"

locale flat_fsm =
  fixes d :: "('ev, 'w) FsmDescription"
    and tbl :: FsmSetupBase
  assumes roots: "s \<in> set (fs_states tbl) \<Longrightarrow> si_level s = 0"
    and construct_quiet: "fd_construct d i w = Inr (w', req) \<Longrightarrow> req = None"
    and destruct_quiet: "fd_destruct d i w = Inr (w', req, evs) \<Longrightarrow> req = None"
    and targets_registered: "findState tbl i \<noteq> None \<Longrightarrow>
      fd_event d i ev w = Inr (h, w', Some t, evs) \<Longrightarrow> findState tbl t \<noteq> None"
begin

lemma level_0: "findState tbl i = Some s \<Longrightarrow> si_level s = 0"
  using roots findState_in by blast

lemma populate_root:
  assumes "findState tbl t = Some s" and "fb_setup fb = tbl"
  shows "populateNextInfos s fb = Some (Inr (fb\<lparr>fb_nextInfos := [Some s]\<rparr>))"
proof -
  have "length ys = 1 \<Longrightarrow> ys[0 := Some s] = [Some s]" for ys :: "StateInfo option list"
    by (cases ys) auto
  then show ?thesis
    using level_0 [OF assms(1)]
    by (simp add: populateNextInfos_def populateUp.simps Let_def)
qed

text \<open>A requested transition replaces the only active state.\<close>

lemma transition_step:
  assumes "flat_at tbl i m" and "findState tbl t = Some s"
    and "fd_destruct d i (m_world m) = Inr (w2, req2, evs2)"
    and "fd_construct d t w2 = Inr (w3, req3)"
  shows "\<exists>m'. prepareTransition d (m\<lparr>m_base := transition t (m_base m)\<rparr>) = Some (Inr m') \<and>
    flat_at tbl t m' \<and> m_world m' = w3 \<and> m_eventQueue m' = fold vq_push evs2 (m_eventQueue m)"
proof -
  obtain info frame where i: "findState tbl i = Some info" "fb_currentInfos (m_base m) = [info]"
    "fb_stackFrames (m_base m) = [frame]" "ld_activeState frame = Some i"
    and b: "fb_setup (m_base m) = tbl" "\<not> fb_stateUpdate (m_base m)" "vq_inv (m_eventQueue m)"
    using assms(1) by (auto simp: flat_at_def)
  have quiet: "req2 = None" "req3 = None"
    using assms(3,4) destruct_quiet construct_quiet by blast+
  let ?frame = "\<lparr>ld_activeState = Some t,
      ld_stateStorage = max (ld_stateStorage frame) (si_stateSize s)\<rparr>"
  let ?fb = "(m_base m)\<lparr>fb_nextState := t, fb_stateUpdate := False, fb_nextInfos := [Some s],
      fb_currentInfos := [s], fb_stackFrames := [?frame]\<rparr>"
  let ?m = "m\<lparr>m_base := ?fb, m_world := w3, m_eventQueue := fold vq_push evs2 (m_eventQueue m)\<rparr>"
  have id: "si_id s = t" using findState_in [OF assms(2)] by simp
  have level: "findFirstThatDiffer ((m_base m)\<lparr>fb_nextState := t, fb_stateUpdate := False,
      fb_nextInfos := [Some s]\<rparr>) = 0"
    using level_0 [OF i(1)] i(2) by (auto simp: findFirstThatDiffer_def)
  have "doTransition d s (m\<lparr>m_base := (m_base m)\<lparr>fb_nextState := t, fb_stateUpdate := False\<rparr>\<rparr>) = Some (Inr ?m)"
    using i assms(3,4) b(1) id quiet
    by (simp add: doTransition_def populate_root [OF assms(2)] level Let_def applyEffect_def
        doExit.simps doEntry.simps)
  then have "prepareTransition d (m\<lparr>m_base := transition t (m_base m)\<rparr>) = Some (Inr ?m)"
    using assms(2) b(1) by (simp add: prepareTransition.simps transition_def)
  moreover have "flat_at tbl t ?m"
    using assms(2) b vq.push_all [OF b(3)] by (simp add: flat_at_def)
  ultimately show ?thesis by (intro exI [of _ ?m]) simp
qed

lemma processEvent_ok:
  assumes "flat_at tbl i m" and "flat_event d i ev (m_world m) = Inr (j, w', evs)"
  shows "\<exists>m'. processEvent d ev m = Some (Inr m') \<and> flat_at tbl j m' \<and> m_world m' = w' \<and>
    vq_list (m_eventQueue m') = vq_list (m_eventQueue m) @ evs"
proof -
  obtain info frame where i: "findState tbl i = Some info" "fb_currentInfos (m_base m) = [info]"
    "fb_stackFrames (m_base m) = [frame]" "ld_activeState frame = Some i"
    and b: "fb_setup (m_base m) = tbl" "\<not> fb_stateUpdate (m_base m)" "vq_inv (m_eventQueue m)"
    using assms(1) by (auto simp: flat_at_def)
  from assms(2) obtain h w1 req evs1 where
    ev: "fd_event d i ev (m_world m) = Inr (h, w1, req, evs1)"
    by (auto simp: flat_event_def rbind_eq_Inr)
  let ?m1 = "applyEffect (w1, req, evs1) m"
  have emit: "processEvent d ev m = prepareTransition d ?m1"
    using i ev by (simp add: processEvent_def Let_def)
  have q: "vq_inv (m_eventQueue ?m1)" "vq_list (m_eventQueue ?m1) = vq_list (m_eventQueue m) @ evs1"
    using vq.push_all [OF b(3), of evs1] by (simp_all add: applyEffect_def)
  show ?thesis
  proof (cases req)
    case None
    have "prepareTransition d ?m1 = Some (Inr ?m1)"
      using None b(2) by (simp add: prepareTransition.simps applyEffect_def)
    moreover have "flat_at tbl i ?m1"
      using None assms(1) q(1) by (auto simp: flat_at_def applyEffect_def)
    ultimately show ?thesis using assms(2) ev None emit q(2)
      by (auto simp: flat_event_def)
  next
    case (Some t)
    from assms(2) ev Some obtain w2 req2 evs2 req3 where
      dc: "fd_destruct d i w1 = Inr (w2, req2, evs2)" "fd_construct d t w2 = Inr (w', req3)"
      and j: "j = t" "evs = evs1 @ evs2"
      by (auto simp: flat_event_def rbind_eq_Inr)
    obtain s where s: "findState tbl t = Some s"
      using targets_registered [OF _ ev [unfolded Some]] i(1) by auto
    let ?m2 = "m\<lparr>m_world := w1, m_eventQueue := fold vq_push evs1 (m_eventQueue m)\<rparr>"
    have "flat_at tbl i ?m2" "?m1 = ?m2\<lparr>m_base := transition t (m_base ?m2)\<rparr>"
      using assms(1) q(1) Some by (auto simp: flat_at_def applyEffect_def)
    then obtain m' where m': "prepareTransition d ?m1 = Some (Inr m')" "flat_at tbl t m'"
      "m_world m' = w'" "m_eventQueue m' = fold vq_push evs2 (m_eventQueue ?m2)"
      using transition_step [of i ?m2 t s w2 req2 evs2 w' req3] s dc by auto
    have "vq_list (m_eventQueue m') = vq_list (m_eventQueue m) @ evs1 @ evs2"
      using q vq.push_all [OF q(1), of evs2] m'(4) by (simp add: applyEffect_def)
    with m' j emit show ?thesis by auto
  qed
qed

lemma processEvent_err:
  assumes "flat_at tbl i m" and "flat_event d i ev (m_world m) = Inl e"
    and "fd_event d i ev (m_world m) = Inl e"
  shows "processEvent d ev m = Some (Inl e)"
  using assms by (auto simp: flat_at_def processEvent_def Let_def)

lemma processQueue_empty:
  "flat_at tbl i m \<Longrightarrow> vq_list (m_eventQueue m) = [] \<Longrightarrow> processQueue d m = Some (Inr m)"
  by (simp add: flat_at_def processQueue.simps)

text \<open>One turn of the queue loop: the event at the front is handled, then removed.\<close>

lemma processQueue_step:
  assumes "flat_at tbl i m" and "vq_list (m_eventQueue m) = ev # rest"
    and "flat_event d i ev (m_world m) = Inr (j, w', evs)"
  shows "\<exists>m'. processQueue d m = processQueue d m' \<and> flat_at tbl j m' \<and> m_world m' = w' \<and>
    vq_list (m_eventQueue m') = rest @ evs"
proof -
  obtain m1 where m1: "processEvent d ev m = Some (Inr m1)" "flat_at tbl j m1" "m_world m1 = w'"
    "vq_list (m_eventQueue m1) = (ev # rest) @ evs"
    using processEvent_ok [OF assms(1,3)] assms(2) by auto
  let ?m = "m1\<lparr>m_eventQueue := vq_pop (m_eventQueue m1)\<rparr>"
  have "vq_inv (m_eventQueue m)" "vq_inv (m_eventQueue m1)"
    using assms(1) m1(2) by (auto simp: flat_at_def)
  then have "processQueue d m = processQueue d ?m" "flat_at tbl j ?m"
    "vq_list (m_eventQueue ?m) = rest @ evs"
    using assms(2) m1 by (auto simp: processQueue.simps [of d m] flat_at_def)
  then show ?thesis using m1(3) by (intro exI [of _ ?m]) simp
qed

lemma postEvent_idle:
  assumes "flat_at tbl i m" and "vq_list (m_eventQueue m) = []"
  shows "\<exists>m'. postEvent d ev m = processQueue d m' \<and> flat_at tbl i m' \<and> m_world m' = m_world m \<and>
    vq_list (m_eventQueue m') = [ev]"
proof -
  have "vq_inv (m_eventQueue m)" using assms(1) by (simp add: flat_at_def)
  then show ?thesis using assms
    by (intro exI [of _ "m\<lparr>m_eventQueue := vq_push ev (m_eventQueue m)\<rparr>"])
      (auto simp: postEvent_def flat_at_def)
qed

lemma postEvent_err:
  assumes "flat_at tbl i m" and "vq_list (m_eventQueue m) = []" and "fd_event d i ev (m_world m) = Inl e"
  shows "postEvent d ev m = Some (Inl e)"
proof -
  let ?m = "m\<lparr>m_eventQueue := vq_push ev (m_eventQueue m)\<rparr>"
  have inv: "vq_inv (m_eventQueue m)" using assms(1) by (simp add: flat_at_def)
  have "flat_at tbl i ?m" using assms(1) inv by (auto simp: flat_at_def)
  then have "processEvent d ev ?m = Some (Inl e)"
    using assms(3) by (intro processEvent_err) (simp_all add: flat_event_def)
  then show ?thesis using inv assms(2)
    by (simp add: postEvent_def processQueue.simps [of d ?m] Let_def)
qed

lemma setStartState_flat:
  assumes "findState tbl i = Some s" and "fs_maxLevel tbl = 0" and "fd_construct d i w = Inr (w', req)"
  shows "\<exists>m'. setStartState d i (mkFsmBase tbl w) = Some (Inr m') \<and> flat_at tbl i m' \<and>
    m_world m' = w' \<and> vq_list (m_eventQueue m') = []"
proof -
  have "req = None" using assms(3) construct_quiet by blast
  then show ?thesis
    using assms(1,2,3) findState_in [OF assms(1)] vq.inv_new vq.elems_new
    by (simp add: setStartState_def mkFsmBase_def mkFsmBaseSupport_def prepareTransition.simps
        doTransition_def populate_root [OF assms(1)] Let_def doExit.simps doEntry.simps flat_at_def)
qed

end

section \<open>Properties\<close>

text \<open>A root state 0 with the two substates 1 and 2, of which 1 is active.\<close>

definition exampleState :: "int \<Rightarrow> int \<Rightarrow> nat \<Rightarrow> StateInfo" where
  "exampleState i p l = \<lparr>si_id = i, si_parentId = p, si_level = l, si_stateSize = 8, si_name = []\<rparr>"

definition exampleSetup :: FsmSetupBase where
  "exampleSetup = \<lparr>fs_states = [exampleState 0 0 0, exampleState 1 0 1, exampleState 2 0 1], fs_maxLevel = 1\<rparr>"

definition exampleMachine :: "(unit, probe list) FsmBase" where
  "exampleMachine = \<lparr>m_base = (mkFsmBaseSupport exampleSetup)
      \<lparr>fb_currentInfos := [exampleState 0 0 0, exampleState 1 0 1],
       fb_stackFrames := [\<lparr>ld_activeState = Some 0, ld_stateStorage = 8\<rparr>,
                          \<lparr>ld_activeState = Some 1, ld_stateStorage = 8\<rparr>]\<rparr>,
     m_eventQueue = mkVecQueue, m_world = []\<rparr>"

text \<open>
  C19: Order of exit and entry actions. For every state table built by \<open>addStateBase\<close> and every
  consistent stack of active states, a transition to a registered state destroys the active
  states below the common ancestors innermost first, then constructs the missing states down
  to the target outermost first, and leaves exactly the path of the target active. A
  transition to the active state itself destroys and reconstructs that state only.
\<close>

theorem hsm_transition_order:
  fixes m :: "('ev, probe list) FsmBase"
  assumes "wf_setup (fb_setup (m_base m))" and "stack_ok (m_base m)"
    and "target \<in> set (fs_states (fb_setup (m_base m)))"
    and "length (fb_stackFrames (m_base m)) = fs_maxLevel (fb_setup (m_base m)) + 1"
    and "cur = fb_currentInfos (m_base m)" and "path = pathTo (fb_setup (m_base m)) (si_level target) target"
    and "cur = [] \<or> cur = pathTo (fb_setup (m_base m)) (si_level (last cur)) (last cur)"
    and "l = (if cur \<noteq> [] \<and> last cur = target then si_level target else commonLevel cur (map Some path))"
  shows "\<exists>m'. doTransition probeFsm target m = Some (Inr m') \<and>
    fb_currentInfos (m_base m') = path \<and> stack_ok (m_base m') \<and>
    m_world m' = m_world m @ map (Left \<circ> si_id) (rev (drop l cur)) @ map (Entered \<circ> si_id) (drop l path)"
proof -
  let ?fb = "(m_base m)\<lparr>fb_nextInfos := map Some path\<rparr>"
  have path: "length path = Suc (si_level target)" "last path = target" "path \<noteq> []"
    using length_pathTo [OF assms(1,3) refl] pathTo_last assms(6) by auto
  have l: "take l cur = take l path" "l \<le> length cur" "l \<le> length path"
    using take_commonLevel [of cur path] assms(6,7,8) path(1) by (auto split: if_splits)
  have next1: "populateNextInfos target (m_base m) = Some (Inr ?fb)"
    using populateNextInfos_path [OF assms(1,3)] assms(6) by simp
  have bottom: "(if fb_currentInfos ?fb = [] then 0 else findFirstThatDiffer ?fb) = l"
    using assms(5,8) path l(2) by (auto simp: findFirstThatDiffer_def last_map)
  have "stack_ok (m_base (m\<lparr>m_base := ?fb\<rparr>))" using assms(2) by (simp add: stack_ok_def)
  then obtain m1 where m1: "doExit probeFsm l (m\<lparr>m_base := ?fb\<rparr>) = Inr m1" "stack_ok (m_base m1)"
    "fb_currentInfos (m_base m1) = take l path"
    "m_world m1 = m_world m @ map (Left \<circ> si_id) (rev (drop l cur))"
    "fb_nextInfos (m_base m1) = map Some path"
    "length (fb_stackFrames (m_base m1)) = length (fb_stackFrames (m_base m))"
    using doExit_probe [of "m\<lparr>m_base := ?fb\<rparr>" l] l assms(5) by auto
  have "length path \<le> length (fb_stackFrames (m_base m1))"
    using path(1) m1(6) assms(1,3,4) by (auto simp: wf_setup_def)
  with m1 l(3) obtain m' where "doEntry probeFsm m1 = Inr m'" "stack_ok (m_base m')"
    "fb_currentInfos (m_base m') = path" "m_world m' = m_world m1 @ map (Entered \<circ> si_id) (drop l path)"
    using doEntry_probe [of m1 path l] by auto
  then show ?thesis using m1 next1 bottom
    by (simp add: doTransition_def Let_def)
qed

theorem hsm_transition_order_witness:
  "\<exists>m'. doTransition probeFsm (exampleState 2 0 1) exampleMachine = Some (Inr m') \<and>
     m_world m' = [Left 1, Entered 2]"
proof -
  let ?a = "exampleState 0 0 0" and ?b = "exampleState 1 0 1" and ?c = "exampleState 2 0 1"
  have find: "findState exampleSetup 0 = Some ?a"
    by (simp add: findState_def exampleSetup_def exampleState_def)
  have wf: "wf_setup exampleSetup"
    using find by (simp add: wf_setup_def exampleSetup_def) (simp add: exampleState_def)
  have "\<exists>m'. doTransition probeFsm ?c exampleMachine = Some (Inr m') \<and>
    fb_currentInfos (m_base m') = [?a, ?c] \<and> stack_ok (m_base m') \<and>
    m_world m' = m_world exampleMachine @ map (Left \<circ> si_id) (rev (drop 1 [?a, ?b])) @
      map (Entered \<circ> si_id) (drop 1 [?a, ?c])"
    by (rule hsm_transition_order)
      (use wf find in \<open>simp_all add: exampleMachine_def exampleState_def mkFsmBaseSupport_def stack_ok_def\<close>,
        simp_all add: exampleSetup_def exampleState_def less_Suc_eq numeral_2_eq_2)
  then show ?thesis by (auto simp: exampleMachine_def exampleState_def)
qed

text \<open>
  C39: A transition to a state that was never registered does not return: the loop of
  \<open>prepareTransition\<close> repeats the failing lookup for ever.
\<close>

theorem unknown_transition_diverges:
  assumes "fb_stateUpdate (m_base m)" and "findState (fb_setup (m_base m)) (fb_nextState (m_base m)) = None"
  shows "prepareTransition d m = None"
proof (rule ccontr)
  assume "prepareTransition d m \<noteq> None"
  then obtain r where ret: "prepareTransition d m = Some r" by blast
  have "\<not> (fb_stateUpdate (m_base m) \<and> findState (fb_setup (m_base m)) (fb_nextState (m_base m)) = None)"
  proof (rule prepareTransition.raw_induct [where P = "\<lambda>d m r. \<not> (fb_stateUpdate (m_base m) \<and>
      findState (fb_setup (m_base m)) (fb_nextState (m_base m)) = None)", OF _ ret])
    fix f :: "('a, 'b) FsmDescription \<Rightarrow> ('a, 'b) FsmBase \<Rightarrow> ('a, 'b) FsmBase result option" and d m r
    assume "\<And>d m r. f d m = Some r \<Longrightarrow> \<not> (fb_stateUpdate (m_base m) \<and>
        findState (fb_setup (m_base m)) (fb_nextState (m_base m)) = None)"
      and "(if fb_stateUpdate (m_base m)
        then (case findState (fb_setup (m_base m)) (fb_nextState (m_base m)) of
              None \<Rightarrow> f d m
            | Some i \<Rightarrow>
                Option.bind (doTransition d i (m\<lparr>m_base := (m_base m)\<lparr>fb_stateUpdate := False\<rparr>\<rparr>))
                  (\<lambda>r. case r of Inl e \<Rightarrow> Some (Inl e) | Inr m' \<Rightarrow> f d m'))
        else Some (Inr m)) = Some r"
    then show "\<not> (fb_stateUpdate (m_base m) \<and>
        findState (fb_setup (m_base m)) (fb_nextState (m_base m)) = None)"
      by (fastforce split: option.splits if_splits)
  qed
  with assms show False by blast
qed

theorem unknown_transition_diverges_witness:
  "prepareTransition probeFsm ((mkFsmBase mkFsmSetupBase [] :: (unit, probe list) FsmBase)
     \<lparr>m_base := transition 5 (mkFsmBaseSupport mkFsmSetupBase)\<rparr>) = None"
  by (rule unknown_transition_diverges)
    (simp_all add: mkFsmBase_def transition_def mkFsmBaseSupport_def findState_def mkFsmSetupBase_def)

end
