(* ===== verification/Master_FSM.thy ===== *)
theory Master_FSM
  imports Action_Handler State_Chart
begin

text \<open>
  The state machine of the bus master (\<open>src/src/master/MasterFSM.{h,cpp}\<close>): one definition per
  constructor, destructor and \<open>event\<close> function of the six state classes, and their registration
  with the engine of \<open>State_Chart\<close>. The machine has no nested states, so the interpretation of
  \<open>flat_fsm\<close> reduces every event to one call of \<open>flat_event\<close>.
\<close>

datatype StateId =
    st_idle | st_startMaster | st_sendingToken | st_waitClientPacketDone
  | st_queryAddress | st_waitAddressReply

primrec stateId :: "StateId \<Rightarrow> int" where
  "stateId st_idle = 0"
| "stateId st_startMaster = 1"
| "stateId st_sendingToken = 2"
| "stateId st_waitClientPacketDone = 3"
| "stateId st_queryAddress = 4"
| "stateId st_waitAddressReply = 5"

definition stateOf :: "int \<Rightarrow> StateId option" where
  "stateOf i = find (\<lambda>s. stateId s = i)
     [st_idle, st_startMaster, st_sendingToken, st_waitClientPacketDone, st_queryAddress,
      st_waitAddressReply]"

lemma stateOf_stateId [simp]: "stateOf (stateId s) = Some s"
  by (cases s) (simp_all add: stateOf_def)

lemma stateOf_Some: "stateOf i = Some s \<Longrightarrow> i = stateId s"
  unfolding stateOf_def by (drule find_Some_in) simp

section \<open>The base class\<close>

definition startTimer :: "time \<Rightarrow> MasterWorld \<Rightarrow> MasterWorld" where
  "startTimer interval w =
     (let (t, ts) = makeTimeout interval CB_fsm_timeout (mw_ts w)
      in w\<lparr>mw_ts := ts,
           mw_fsm := (mw_fsm w)\<lparr>mf_timer := fst (timer_moveAssign (mf_timer (mw_fsm w)) t)\<rparr>\<rparr>)"

definition startTimerAbs :: "time \<Rightarrow> MasterWorld \<Rightarrow> MasterWorld" where
  "startTimerAbs timepoint w =
     (let (t, ts) = makeTimeoutAbs timepoint CB_fsm_timeout (mw_ts w)
      in w\<lparr>mw_ts := ts,
           mw_fsm := (mw_fsm w)\<lparr>mf_timer := fst (timer_moveAssign (mf_timer (mw_fsm w)) t)\<rparr>\<rparr>)"

definition cleanTimer :: "MasterWorld \<Rightarrow> MasterWorld" where
  "cleanTimer w =
     (let (t, ts) = timer_cancel (mf_timer (mw_fsm w)) (mw_ts w)
      in w\<lparr>mw_ts := ts, mw_fsm := (mw_fsm w)\<lparr>mf_timer := t\<rparr>\<rparr>)"

section \<open>The states\<close>

text \<open>The result of an \<open>event\<close> function: whether the event was handled, the objects, the
  requested transition and the posted events.\<close>

type_synonym event_result = "(bool \<times> MasterWorld \<times> int option \<times> Event list) result"

definition decodeAction :: "Action \<Rightarrow> MasterWorld \<Rightarrow> (MasterWorld \<times> int option \<times> Event list) result" where
  "decodeAction action w =
     (case ac_action action of
        do_nothing \<Rightarrow> Inr (w, None, [])
      | send_token \<Rightarrow>
          (let addr = ac_address action in
           if addr = mp_clientAddress w
           then (if mp_txQueueEmpty w
                 then rbind (fsm_reportActionResult RV_rx_token_no_packet w)
                        (\<lambda>(w', evs). Inr (w', None, evs))
                 else rbind (mp_sendClientPacket w)
                        (\<lambda>w'. Inr (w', Some (stateId st_waitClientPacketDone), [])))
           else Inr (sendToken addr w, Some (stateId st_sendingToken), []))
      | query_address \<Rightarrow> Inr (w, Some (stateId st_queryAddress), [])
      | send_master_start \<Rightarrow> Inr (w, Some (stateId st_startMaster), []))"

definition Idle_event :: "Event \<Rightarrow> MasterWorld \<Rightarrow> event_result" where
  "Idle_event ev w =
     (case ev of
        check_new_command \<Rightarrow>
          rbind (decodeAction (mf_currentAction (mw_fsm w)) w) (\<lambda>r. Inr (True, r))
      | _ \<Rightarrow> Inr (False, w, None, []))"

text \<open>\<open>fsm().reportActionResult(rv); transition(StateId::idle); return true;\<close>\<close>

definition reportAndIdle :: "ReturnValue \<Rightarrow> MasterWorld \<Rightarrow> event_result" where
  "reportAndIdle rv w =
     rbind (fsm_reportActionResult rv w) (\<lambda>(w', evs). Inr (True, w', Some (stateId st_idle), evs))"

definition MasterStart_construct :: "MasterWorld \<Rightarrow> MasterWorld" where
  "MasterStart_construct w = startTimer (1 / 10) (sendMasterStart w)"

definition MasterStart_event :: "Event \<Rightarrow> MasterWorld \<Rightarrow> event_result" where
  "MasterStart_event ev w =
     (case ev of
        rx_pkt_master_start_stop \<Rightarrow> reportAndIdle RV_ok w
      | timer_timeout \<Rightarrow> reportAndIdle RV_timeout w
      | _ \<Rightarrow> Inr (False, w, None, []))"

definition SendingToken_construct :: "MasterWorld \<Rightarrow> MasterWorld" where
  "SendingToken_construct w = startTimer masterTokenGrantTx2RxTime w"

definition SendingToken_event :: "Event \<Rightarrow> MasterWorld \<Rightarrow> event_result" where
  "SendingToken_event ev w =
     (case ev of
        rx_pkt_grant_token \<Rightarrow> Inr (True, w, Some (stateId st_waitClientPacketDone), [])
      | timer_timeout \<Rightarrow> Inr (True, w, Some (stateId st_idle), [])
      | _ \<Rightarrow> Inr (False, w, None, []))"

definition WaitClientPacketDoneState_construct :: "MasterWorld \<Rightarrow> MasterWorld" where
  "WaitClientPacketDoneState_construct w = startTimer masterTokenClientTimeout w"

definition WaitClientPacketDoneState_event :: "Event \<Rightarrow> MasterWorld \<Rightarrow> event_result" where
  "WaitClientPacketDoneState_event ev w =
     (case ev of
        rx_pkt_client_packet \<Rightarrow> reportAndIdle RV_client_packet_started w
      | rx_return_token \<Rightarrow> reportAndIdle RV_rx_token_no_packet w
      | timer_timeout \<Rightarrow>
          (if mw_rxBusy w then Inr (True, startTimer masterTokenClientTimeout w, None, [])
           else reportAndIdle RV_token_timeout w)
      | _ \<Rightarrow> Inr (False, w, None, []))"

definition QueryAddressState_construct :: "MasterWorld \<Rightarrow> MasterWorld" where
  "QueryAddressState_construct w = sendAddressDiscovery (startTimer masterTokenClientTimeout w)"

definition QueryAddressState_event :: "Event \<Rightarrow> MasterWorld \<Rightarrow> event_result" where
  "QueryAddressState_event ev w =
     (case ev of
        timer_timeout \<Rightarrow>
          (if mw_rxBusy w then Inr (True, startTimer masterTokenClientTimeout w, None, [])
           else reportAndIdle RV_address_query_done w)
      | rx_pkt_address_request aReq \<Rightarrow>
          Inr (True, receivedAddressRequest aReq w, Some (stateId st_waitAddressReply), [])
      | _ \<Rightarrow> Inr (False, w, None, []))"

definition WaitAddressReply_construct :: "MasterWorld \<Rightarrow> MasterWorld" where
  "WaitAddressReply_construct w = startTimer masterTokenClientTimeout w"

definition WaitAddressReply_destruct :: "MasterWorld \<Rightarrow> (MasterWorld \<times> Event list) result" where
  "WaitAddressReply_destruct w = fsm_reportActionResult RV_address_query_done (cleanTimer w)"

definition WaitAddressReply_event :: "Event \<Rightarrow> MasterWorld \<Rightarrow> event_result" where
  "WaitAddressReply_event ev w =
     (case ev of
        timer_timeout \<Rightarrow>
          (if mw_rxBusy w then Inr (True, startTimer masterTokenClientTimeout w, None, [])
           else Inr (True, w, Some (stateId st_idle), []))
      | _ \<Rightarrow> Inr (False, w, None, []))"

section \<open>The machine\<close>

primrec constructState :: "StateId \<Rightarrow> MasterWorld \<Rightarrow> MasterWorld" where
  "constructState st_idle = (\<lambda>w. w)"
| "constructState st_startMaster = MasterStart_construct"
| "constructState st_sendingToken = SendingToken_construct"
| "constructState st_waitClientPacketDone = WaitClientPacketDoneState_construct"
| "constructState st_queryAddress = QueryAddressState_construct"
| "constructState st_waitAddressReply = WaitAddressReply_construct"

primrec destructState :: "StateId \<Rightarrow> MasterWorld \<Rightarrow> (MasterWorld \<times> Event list) result" where
  "destructState st_idle = (\<lambda>w. Inr (w, []))"
| "destructState st_startMaster = (\<lambda>w. Inr (cleanTimer w, []))"
| "destructState st_sendingToken = (\<lambda>w. Inr (cleanTimer w, []))"
| "destructState st_waitClientPacketDone = (\<lambda>w. Inr (cleanTimer w, []))"
| "destructState st_queryAddress = (\<lambda>w. Inr (cleanTimer w, []))"
| "destructState st_waitAddressReply = WaitAddressReply_destruct"

primrec eventState :: "StateId \<Rightarrow> Event \<Rightarrow> MasterWorld \<Rightarrow> event_result" where
  "eventState st_idle = Idle_event"
| "eventState st_startMaster = MasterStart_event"
| "eventState st_sendingToken = SendingToken_event"
| "eventState st_waitClientPacketDone = WaitClientPacketDoneState_event"
| "eventState st_queryAddress = QueryAddressState_event"
| "eventState st_waitAddressReply = WaitAddressReply_event"

definition masterDescription :: "(Event, MasterWorld) FsmDescription" where
  "masterDescription =
     \<lparr>fd_construct = (\<lambda>i w. case stateOf i of None \<Rightarrow> Inl Null_Deref
        | Some s \<Rightarrow> Inr (constructState s w, None)),
      fd_destruct = (\<lambda>i w. case stateOf i of None \<Rightarrow> Inl Null_Deref
        | Some s \<Rightarrow> rbind (destructState s w) (\<lambda>(w', evs). Inr (w', None, evs))),
      fd_event = (\<lambda>i ev w. case stateOf i of None \<Rightarrow> Inl Null_Deref
        | Some s \<Rightarrow> eventState s ev w)\<rparr>"

text \<open>The registrations of the constructor; \<open>addState<T, id>()\<close> without parent is a root. The
  sizes of the state objects and their names do not matter to the engine.\<close>

definition addMasterState :: "StateId \<Rightarrow> FsmSetupBase \<Rightarrow> FsmSetupBase result" where
  "addMasterState s tbl = addStateBase (stateId s) (stateId s) 16 [] tbl"

definition masterSetupResult :: "FsmSetupBase result" where
  "masterSetupResult =
     rbind (addMasterState st_idle mkFsmSetupBase) (\<lambda>t.
     rbind (addMasterState st_startMaster t) (\<lambda>t.
     rbind (addMasterState st_sendingToken t) (\<lambda>t.
     rbind (addMasterState st_waitClientPacketDone t) (\<lambda>t.
     rbind (addMasterState st_queryAddress t) (\<lambda>t.
     addMasterState st_waitAddressReply t)))))"

definition masterStateInfo :: "StateId \<Rightarrow> StateInfo" where
  "masterStateInfo s = \<lparr>si_id = stateId s, si_parentId = stateId s, si_level = 0,
     si_stateSize = 16, si_name = []\<rparr>"

definition masterSetup :: FsmSetupBase where
  "masterSetup = \<lparr>fs_states = map masterStateInfo
      [st_idle, st_startMaster, st_sendingToken, st_waitClientPacketDone, st_queryAddress,
       st_waitAddressReply], fs_maxLevel = 0\<rparr>"

lemma masterSetupResult_eq: "masterSetupResult = Inr masterSetup"
  by (simp add: masterSetupResult_def addMasterState_def addStateBase_def masterSetup_def
      masterStateInfo_def mkFsmSetupBase_def Let_def)

lemma findState_master: "findState masterSetup i = map_option masterStateInfo (stateOf i)"
  by (auto simp: findState_def masterSetup_def stateOf_def masterStateInfo_def)

lemma findState_stateId [simp]: "findState masterSetup (stateId s) = Some (masterStateInfo s)"
  by (simp add: findState_master)

lemma eventState_target:
  assumes "eventState s ev w = Inr (h, w', Some t, evs)"
  shows "\<exists>s'. t = stateId s'"
  using assms
  by (cases s; cases ev)
    (auto simp: Idle_event_def decodeAction_def MasterStart_event_def SendingToken_event_def
      WaitClientPacketDoneState_event_def QueryAddressState_event_def WaitAddressReply_event_def
      reportAndIdle_def rbind_eq_Inr Let_def split: Cmd.splits if_splits prod.splits simp del: stateId.simps)

interpretation mfsm: flat_fsm masterDescription masterSetup
proof unfold_locales
  fix i ev w h w' t evs
  assume "findState masterSetup i \<noteq> None"
    and "fd_event masterDescription i ev w = Inr (h, w', Some t, evs)"
  then show "findState masterSetup t \<noteq> None"
    using eventState_target by (fastforce simp: masterDescription_def findState_master split: option.splits)
qed (auto simp: masterSetup_def masterStateInfo_def masterDescription_def rbind_eq_Inr split: option.splits)

text \<open>One event at the master: handler, then destructor and constructor when it asks for a
  transition.\<close>

definition masterEvent :: "StateId \<Rightarrow> Event \<Rightarrow> MasterWorld \<Rightarrow> (StateId \<times> MasterWorld \<times> Event list) result" where
  "masterEvent s ev w =
     rbind (eventState s ev w) (\<lambda>(_, w1, req, evs).
       case Option.bind req stateOf of
         None \<Rightarrow> Inr (s, w1, evs)
       | Some t \<Rightarrow> rbind (destructState s w1) (\<lambda>(w2, evs2). Inr (t, constructState t w2, evs @ evs2)))"

lemma masterEvent_flat:
  "flat_event masterDescription (stateId s) ev w =
     rbind (masterEvent s ev w) (\<lambda>(t, w', evs). Inr (stateId t, w', evs))"
proof (cases "eventState s ev w")
  case (Inl e)
  then show ?thesis by (simp add: flat_event_def masterEvent_def masterDescription_def)
next
  case (Inr r)
  obtain h w1 req evs where r: "r = (h, w1, req, evs)" by (cases r)
  show ?thesis
  proof (cases req)
    case None
    then show ?thesis using Inr r by (simp add: flat_event_def masterEvent_def masterDescription_def)
  next
    case (Some t)
    then obtain s' where "t = stateId s'" using eventState_target Inr r by blast
    then show ?thesis using Inr r Some
      by (cases "destructState s w1")
        (auto simp: flat_event_def masterEvent_def masterDescription_def)
  qed
qed

end
