(* ===== verification/Bus_Master.thy ===== *)
theory Bus_Master
  imports Master_FSM
begin

text \<open>
  The bus master as a whole (\<open>src/src/master/Master.{h,cpp}\<close>): its construction, the reception
  of packets, the callbacks of its timers, and the invariant that holds between any two inputs.
\<close>

type_synonym BusMaster = "(Event, MasterWorld) FsmBase"

section \<open>Operations\<close>

text \<open>Code outside the state machine that ends in posting events: the events are posted with
  the machine at rest, so each is processed at once.\<close>

fun postAll :: "Event list \<Rightarrow> BusMaster \<Rightarrow> BusMaster result option" where
  "postAll [] m = Some (Inr m)"
| "postAll (ev # evs) m =
     Option.bind (postEvent masterDescription ev m)
       (\<lambda>r. case r of Inl e \<Rightarrow> Some (Inl e) | Inr m' \<Rightarrow> postAll evs m')"

definition runCheckNewAction :: "BusMaster \<Rightarrow> BusMaster result option" where
  "runCheckNewAction m =
     (case checkNewAction (m_world m) of
        Inl e \<Rightarrow> Some (Inl e)
      | Inr (w, evs) \<Rightarrow> postAll evs (m\<lparr>m_world := w\<rparr>))"

definition mkMaster ::
    "(LocalAddress \<Rightarrow> UniqueId) \<Rightarrow> time \<Rightarrow> TxQueue \<Rightarrow> bool \<Rightarrow> BusMaster result option" where
  "mkMaster uninit now tx busy =
     (case masterSetupResult of
        Inl e \<Rightarrow> Some (Inl e)
      | Inr tbl \<Rightarrow>
          (let w = dh_start uninit (postActionNow makeMasterStartAction
                     (mkMasterWorld (mkTimeService now) tx busy))
           in Option.bind (setStartState masterDescription (stateId st_idle) (mkFsmBase tbl w))
                (\<lambda>r. case r of Inl e \<Rightarrow> Some (Inl e) | Inr m \<Rightarrow> runCheckNewAction m)))"

definition exitMaster :: "BusMaster \<Rightarrow> BusMaster" where
  "exitMaster m = m\<lparr>m_world := sendMasterStop (m_world m)\<rparr>"

definition masterPacketReceived :: "MessageType option \<Rightarrow> byte_vec \<Rightarrow> BusMaster \<Rightarrow> BusMaster result option" where
  "masterPacketReceived type packet m =
     (case type of
        Some grant_token \<Rightarrow> postEvent masterDescription rx_pkt_grant_token m
      | Some return_token \<Rightarrow> postEvent masterDescription rx_return_token m
      | Some send_packet \<Rightarrow> postEvent masterDescription rx_pkt_client_packet m
      | Some master_started \<Rightarrow> postEvent masterDescription rx_pkt_master_start_stop m
      | Some master_ended \<Rightarrow> postEvent masterDescription rx_pkt_master_start_stop m
      | Some mac_update \<Rightarrow> postEvent masterDescription rx_pkt_client_packet m
      | Some address_discovery \<Rightarrow> Some (Inr m)
      | Some address_request \<Rightarrow>
          (if sizeofHeader address_request \<le> length packet
           then (case toHeader address_request layout_AddressRequest packet of
                   Inl e \<Rightarrow> Some (Inl e)
                 | Inr aReq \<Rightarrow> postEvent masterDescription (rx_pkt_address_request aReq) m)
           else Some (Inr m))
      | Some address_reply \<Rightarrow> Some (Inr m)
      | None \<Rightarrow> Some (Inr m))"

text \<open>The lambdas the master hands to the time service.\<close>

primrec timerCallback :: "timer_cb \<Rightarrow> BusMaster \<Rightarrow> BusMaster result option" where
  "timerCallback CB_fsm_timeout m = postEvent masterDescription timer_timeout m"
| "timerCallback CB_check_new_action m = runCheckNewAction m"
| "timerCallback CB_query_address m =
     Some (Inr (m\<lparr>m_world := postActionNow makeQueryAddressAction (m_world m)\<rparr>))"

definition timerFired :: "nat \<Rightarrow> BusMaster \<Rightarrow> BusMaster result option" where
  "timerFired i m =
     (case td_cb i (mw_ts (m_world m)) of
        (None, _) \<Rightarrow> Some (Inr m)
      | (Some cb, ts) \<Rightarrow> timerCallback cb (m\<lparr>m_world := (m_world m)\<lparr>mw_ts := ts\<rparr>\<rparr>))"

text \<open>
  What can happen to the master: a packet arrives, a timer of the loop fires, time passes, the
  node's own client and host drivers change the transmit queue, the receiver starts or ends
  the reception of a frame, the program asks the master to stop.
\<close>

datatype bus_input =
    Rx_Packet "MessageType option" byte_vec
  | Timer_Fires nat
  | Time_Passes time
  | Client_Changes TxQueue
  | Rx_Busy bool
  | Exit_Master

primrec masterStep :: "bus_input \<Rightarrow> BusMaster \<Rightarrow> BusMaster result option" where
  "masterStep (Rx_Packet type packet) m = masterPacketReceived type packet m"
| "masterStep (Timer_Fires i) m = timerFired i m"
| "masterStep (Time_Passes dt) m =
     Some (Inr (m\<lparr>m_world := (m_world m)\<lparr>mw_ts := ts_advance \<bar>dt\<bar> (mw_ts (m_world m))\<rparr>\<rparr>))"
| "masterStep (Client_Changes q) m = Some (Inr (m\<lparr>m_world := (m_world m)\<lparr>mw_tx := q\<rparr>\<rparr>))"
| "masterStep (Rx_Busy b) m = Some (Inr (m\<lparr>m_world := (m_world m)\<lparr>mw_rxBusy := b\<rparr>\<rparr>))"
| "masterStep Exit_Master m = Some (Inr (exitMaster m))"

text \<open>Reachable states of a master constructed at a time after the first second of the epoch.\<close>

inductive reachable :: "BusMaster \<Rightarrow> bool" where
  start: "1 \<le> now \<Longrightarrow> mkMaster uninit now tx busy = Some (Inr m) \<Longrightarrow> reachable m"
| step: "reachable m \<Longrightarrow> masterStep inp m = Some (Inr m') \<Longrightarrow> reachable m'"

fun masterRun :: "bus_input list \<Rightarrow> BusMaster \<Rightarrow> BusMaster result option" where
  "masterRun [] m = Some (Inr m)"
| "masterRun (inp # inps) m =
     Option.bind (masterStep inp m)
       (\<lambda>r. case r of Inl e \<Rightarrow> Some (Inl e) | Inr m' \<Rightarrow> masterRun inps m')"

lemma masterRun_reachable: "reachable m \<Longrightarrow> masterRun inps m = Some (Inr m') \<Longrightarrow> reachable m'"
proof (induction inps arbitrary: m)
  case Nil
  then show ?case by simp
next
  case (Cons inp inps)
  then obtain m1 where "masterStep inp m = Some (Inr m1)" "masterRun inps m1 = Some (Inr m')"
    by (auto split: Option.bind_splits sum.splits)
  then show ?case using Cons reachable.step by blast
qed

text \<open>The state object that is alive.\<close>

definition inState :: "StateId \<Rightarrow> BusMaster \<Rightarrow> bool" where
  "inState s m \<longleftrightarrow> map si_id (fb_currentInfos (m_base m)) = [stateId s]"

section \<open>The invariant\<close>

definition cb_count :: "timer_cb \<Rightarrow> MasterWorld \<Rightarrow> nat" where
  "cb_count cb w = length (filter (\<lambda>p. pt_cb p = cb) (ts_pending (mw_ts w)))"

definition currentAction :: "MasterWorld \<Rightarrow> Action" where
  "currentAction w = ah_currentAction (mw_ah w)"

text \<open>The actions the master is committed to: scheduled ones and the current one.\<close>

definition inFlight :: "MasterWorld \<Rightarrow> Action multiset" where
  "inFlight w = sched_actions (ah_scheduler (mw_ah w)) +
     (if doNothing (currentAction w) then {#} else {#currentAction w#})"

definition tokens :: "MasterWorld \<Rightarrow> LocalAddress multiset" where
  "tokens w = image_mset ac_address (filter_mset (\<lambda>a. ac_action a = send_token) (inFlight w))"

definition queries :: "MasterWorld \<Rightarrow> nat" where
  "queries w = size (filter_mset (\<lambda>a. ac_action a = query_address) (inFlight w)) + cb_count CB_query_address w"

definition allAddresses :: "LocalAddress list" where
  "allAddresses = map toLocalAddress_int
     ([staticLowAddress .. staticHighAddress] @ [dynamicLowAddress .. dynamicHighAddress])"

definition tableAddresses :: "MasterWorld \<Rightarrow> LocalAddress multiset" where
  "tableAddresses w = mset (map al_address (dh_table (mw_dh w)))"

definition sched_ok :: "MasterWorld \<Rightarrow> bool" where
  "sched_ok w \<longleftrightarrow> sched_inv (ah_scheduler (mw_ah w)) \<and>
     (\<forall>a \<in># sched_actions (ah_scheduler (mw_ah w)). ac_hasReportCB a \<and> \<not> doNothing a) \<and>
     (\<forall>el \<in> set (ms_waiting (ah_scheduler (mw_ah w))).
        1 \<le> qe_nextTime el \<and> qe_nextTime el \<le> ts_now (mw_ts w) + 30)"

definition timers_ok :: "MasterWorld \<Rightarrow> bool" where
  "timers_ok w \<longleftrightarrow> ts_inv (mw_ts w) \<and> 1 \<le> ts_now (mw_ts w) \<and>
     (\<forall>p \<in> set (ts_pending (mw_ts w)).
        (mf_timer (mw_fsm w) = Some (pt_id p)) = (pt_cb p = CB_fsm_timeout)) \<and>
     (\<forall>i. mf_timer (mw_fsm w) = Some i \<longrightarrow> i < ts_nextId (mw_ts w))"

definition current_ok :: "MasterWorld \<Rightarrow> bool" where
  "current_ok w \<longleftrightarrow> mf_currentAction (mw_fsm w) = currentAction w \<and>
     (doNothing (currentAction w) \<or> ac_hasReportCB (currentAction w))"

text \<open>No two dynamic rows have the same unique id, nor a dynamic row the id of a static one.\<close>

definition uids_ok :: "AddressLine list \<Rightarrow> bool" where
  "uids_ok table \<longleftrightarrow>
     distinct (map al_uniqueId (filter al_isDynamic table)) \<and>
     set (map al_uniqueId (filter al_isDynamic table)) \<inter>
       set (map al_uniqueId (filter (\<lambda>l. \<not> al_isDynamic l) table)) = {}"

text \<open>The books, with the tokens \<open>T\<close> and the \<open>n\<close> queries that the caller has in hand.\<close>

definition books_ok :: "LocalAddress multiset \<Rightarrow> nat \<Rightarrow> MasterWorld \<Rightarrow> bool" where
  "books_ok T n w \<longleftrightarrow>
     tokens w + T = tableAddresses w \<and>
     tableAddresses w + mset (dh_freeAddresses (mw_dh w)) = mset allAddresses \<and>
     map al_address (filter (\<lambda>l. \<not> al_isDynamic l) (dh_table (mw_dh w))) =
       map toLocalAddress_int [staticLowAddress .. staticHighAddress] \<and>
     uids_ok (dh_table (mw_dh w)) \<and>
     queries w + n = 1"

definition core_ok :: "LocalAddress multiset \<Rightarrow> nat \<Rightarrow> MasterWorld \<Rightarrow> bool" where
  "core_ok T n w \<longleftrightarrow> sched_ok w \<and> timers_ok w \<and> current_ok w \<and> books_ok T n w"

text \<open>How many actions can be started at the present time.\<close>

definition work :: "MasterWorld \<Rightarrow> nat" where
  "work w = length (vq_list (ms_ready (ah_scheduler (mw_ah w)))) +
     length (filter (due (ts_now (mw_ts w))) (ms_waiting (ah_scheduler (mw_ah w))))"

end
