(* ===== verification/Master_Invariant.thy ===== *)
theory Master_Invariant
  imports Bus_Master
begin

text \<open>
  The invariant of the bus master is kept by every operation: first the operations of the
  action handler and the address store on \<open>core_ok\<close>, then the events of the state machine,
  then the inputs of \<open>Bus_Master\<close>.
\<close>

section \<open>Timers\<close>

lemma cb_count_start:
  "mw_ts w' = td_start s cb (mw_ts w) \<Longrightarrow> cb_count cb' w' = cb_count cb' w + (if cb = cb' then 1 else 0)"
  by (simp add: cb_count_def td_start_def)

lemma filter_remove_unique:
  assumes "distinct (map f xs)" and "p \<in> set xs"
  shows "length (filter (\<lambda>x. P x \<and> f x \<noteq> f p) xs) + (if P p then 1 else 0) = length (filter P xs)"
  using assms
proof (induction xs)
  case Nil
  then show ?case by simp
next
  case (Cons x xs)
  show ?case
  proof (cases "x = p")
    case True
    then have "f p \<notin> f ` set xs" using Cons.prems(1) by simp
    then have "f y \<noteq> f p" if "y \<in> set xs" for y using that by (metis imageI)
    then have "filter (\<lambda>x. P x \<and> f x \<noteq> f p) xs = filter P xs"
      by (intro filter_cong) auto
    with True show ?thesis by simp
  next
    case False
    then have "p \<in> set xs" "f x \<noteq> f p" using Cons.prems by auto
    then show ?thesis using Cons by auto
  qed
qed

lemma cb_count_cancel:
  assumes "ts_inv (mw_ts w)" and "(i, cb) \<in> ts_callbacks (mw_ts w)" and "mw_ts w' = td_cancel i (mw_ts w)"
  shows "cb_count cb' w' + (if cb' = cb then 1 else 0) = cb_count cb' w"
proof -
  obtain p where p: "p \<in> set (ts_pending (mw_ts w))" "pt_id p = i" "pt_cb p = cb"
    using assms(2) by (auto simp: ts_callbacks_def)
  then show ?thesis
    using filter_remove_unique [of pt_id "ts_pending (mw_ts w)" p "\<lambda>p. pt_cb p = cb'"] assms(1,3)
    by (auto simp: cb_count_def td_cancel_def ts_inv_def conj_commute)
qed

lemma cb_count_cong: "mw_ts w' = mw_ts w \<Longrightarrow> cb_count cb w' = cb_count cb w"
  by (simp add: cb_count_def)

text \<open>Cancelling the state machine's timer removes its timeout and nothing else.\<close>

lemma cleanTimer_spec:
  assumes "timers_ok w"
  shows "timers_ok (cleanTimer w)" and "cb_count CB_fsm_timeout (cleanTimer w) = 0"
    and "cb \<noteq> CB_fsm_timeout \<Longrightarrow> cb_count cb (cleanTimer w) = cb_count cb w"
    and "mw_ah (cleanTimer w) = mw_ah w" "mw_dh (cleanTimer w) = mw_dh w" "mw_tx (cleanTimer w) = mw_tx w"
    and "mf_currentAction (mw_fsm (cleanTimer w)) = mf_currentAction (mw_fsm w)"
    and "ts_now (mw_ts (cleanTimer w)) = ts_now (mw_ts w)" "mw_rxBusy (cleanTimer w) = mw_rxBusy w"
proof -
  have fsm: "p \<in> set (ts_pending (mw_ts w)) \<Longrightarrow>
      (pt_cb p = CB_fsm_timeout) = (mf_timer (mw_fsm w) = Some (pt_id p))" for p
    using assms by (auto simp: timers_ok_def)
  have inv: "ts_inv (mw_ts w)" "1 \<le> ts_now (mw_ts w)" using assms by (auto simp: timers_ok_def)
  note defs = cleanTimer_def timer_cancel_def Let_def
  show "timers_ok (cleanTimer w)"
  proof (cases "mf_timer (mw_fsm w)")
    case None
    then show ?thesis using assms by (simp add: defs timers_ok_def)
  next
    case (Some i)
    then have "p \<in> set (ts_pending (td_cancel i (mw_ts w))) \<Longrightarrow> pt_cb p \<noteq> CB_fsm_timeout" for p
      using fsm by (auto simp: td_cancel_def)
    then show ?thesis using Some inv by (auto simp: timers_ok_def defs)
  qed
  show "cb_count CB_fsm_timeout (cleanTimer w) = 0"
    using fsm by (cases "mf_timer (mw_fsm w)")
      (auto simp: cb_count_def defs td_cancel_def filter_empty_conv)
  show "cb_count cb (cleanTimer w) = cb_count cb w" if "cb \<noteq> CB_fsm_timeout"
  proof (cases "mf_timer (mw_fsm w)")
    case None
    then show ?thesis by (simp add: defs cb_count_def)
  next
    case (Some i)
    then have "filter (\<lambda>p. pt_id p \<noteq> i \<and> pt_cb p = cb) (ts_pending (mw_ts w)) =
        filter (\<lambda>p. pt_cb p = cb) (ts_pending (mw_ts w))"
      using fsm that by (intro filter_cong) auto
    then show ?thesis using Some by (simp add: defs cb_count_def td_cancel_def)
  qed
qed (simp_all add: cleanTimer_def timer_cancel_def split: option.splits)

text \<open>Arming the state machine's timer, when it is not armed.\<close>

lemma startTimer_spec:
  assumes "timers_ok w" and "cb_count CB_fsm_timeout w = 0"
  shows "timers_ok (startTimer s w)" and "cb_count CB_fsm_timeout (startTimer s w) = 1"
    and "cb \<noteq> CB_fsm_timeout \<Longrightarrow> cb_count cb (startTimer s w) = cb_count cb w"
    and "mw_ah (startTimer s w) = mw_ah w" "mw_dh (startTimer s w) = mw_dh w" "mw_tx (startTimer s w) = mw_tx w"
    and "mf_currentAction (mw_fsm (startTimer s w)) = mf_currentAction (mw_fsm w)"
    and "ts_now (mw_ts (startTimer s w)) = ts_now (mw_ts w)" "mw_rxBusy (startTimer s w) = mw_rxBusy w"
proof -
  note defs = startTimer_def makeTimeout_def timer_moveAssign_def Let_def
  have none: "p \<in> set (ts_pending (mw_ts w)) \<Longrightarrow> pt_cb p \<noteq> CB_fsm_timeout" for p
    using assms(2) by (auto simp: cb_count_def filter_empty_conv)
  have fresh: "pt_id p \<noteq> ts_nextId (mw_ts w)" if "p \<in> set (ts_pending (mw_ts w))" for p
    using that assms(1) by (auto simp: timers_ok_def ts_inv_def)
  have "ts_inv (mw_ts (startTimer s w))"
    using assms(1) by (simp add: timers_ok_def defs)
  moreover have "p \<in> set (ts_pending (mw_ts (startTimer s w))) \<Longrightarrow>
      (mf_timer (mw_fsm (startTimer s w)) = Some (pt_id p)) = (pt_cb p = CB_fsm_timeout)" for p
    using none by (auto simp: defs td_start_def dest: fresh)
  ultimately show "timers_ok (startTimer s w)"
    using assms(1) by (auto simp: timers_ok_def defs td_start_def)
  show "cb_count CB_fsm_timeout (startTimer s w) = 1"
    and "cb \<noteq> CB_fsm_timeout \<Longrightarrow> cb_count cb (startTimer s w) = cb_count cb w"
    using assms(2) by (simp_all add: cb_count_def defs td_start_def)
qed (simp_all add: startTimer_def makeTimeout_def timer_moveAssign_def)

section \<open>Checking for the next action\<close>

text \<open>What the handlers never touch: the transmit queue, the clock and the state machine's timer.\<close>

definition same_env :: "MasterWorld \<Rightarrow> MasterWorld \<Rightarrow> bool" where
  "same_env w w' \<longleftrightarrow> mw_tx w' = mw_tx w \<and> mw_rxBusy w' = mw_rxBusy w \<and>
     ts_now (mw_ts w') = ts_now (mw_ts w) \<and>
     cb_count CB_fsm_timeout w' = cb_count CB_fsm_timeout w"

lemma same_env_refl [simp]: "same_env w w"
  by (simp add: same_env_def)

lemma same_env_trans: "same_env w w' \<Longrightarrow> same_env w' w'' \<Longrightarrow> same_env w w''"
  by (simp add: same_env_def)

lemma books_ok_cong:
  assumes "inFlight w' = inFlight w" and "mw_dh w' = mw_dh w"
    and "cb_count CB_query_address w' = cb_count CB_query_address w"
  shows "books_ok T n w' = books_ok T n w"
  using assms by (simp add: books_ok_def tokens_def queries_def tableAddresses_def)

lemma static_rows_remain: "books_ok {#} n w \<Longrightarrow> inFlight w \<noteq> {#}"
proof
  assume books: "books_ok {#} n w" and none: "inFlight w = {#}"
  have "tokens w = {#}" using none by (simp add: tokens_def)
  then have "dh_table (mw_dh w) = []" using books by (simp add: books_ok_def tableAddresses_def)
  then show False using books
    by (simp add: books_ok_def staticLowAddress_def staticHighAddress_def upto.simps)
qed

text \<open>The current action moves from the scheduler to the machine: the commitments stay.\<close>

lemma checkNewAction_start:
  assumes "core_ok {#} 0 w" and "doNothing (currentAction w)"
    and "workToDo (ts_now (mw_ts w)) (ah_scheduler (mw_ah w)) = (True, s)"
  shows "\<exists>w'. checkNewAction w = Inr (w', [check_new_command]) \<and> core_ok {#} 0 w' \<and> same_env w w' \<and>
    mw_ts w' = mw_ts w \<and> mw_dh w' = mw_dh w \<and> \<not> doNothing (currentAction w') \<and> Suc (work w') = work w"
proof -
  let ?s = "ah_scheduler (mw_ah w)" and ?now = "ts_now (mw_ts w)"
  have inv: "sched_inv ?s" using assms(1) by (simp add: core_ok_def sched_ok_def)
  note wk = workToDo_spec [OF inv assms(3)]
  obtain a as where ready: "vq_list (ms_ready s) = a # as" using wk(4) by (cases "vq_list (ms_ready s)") auto
  note pop = ms_pop_spec [OF wk(1) ready]
  let ?w' = "w\<lparr>mw_ah := (mw_ah w)\<lparr>ah_currentAction := a, ah_scheduler := ms_pop s\<rparr>,
      mw_fsm := (mw_fsm w)\<lparr>mf_currentAction := a\<rparr>\<rparr>"
  have acts: "sched_actions ?s = add_mset a (sched_actions (ms_pop s))" using wk(5) pop(4) by simp
  then have a: "ac_hasReportCB a" "\<not> doNothing a"
    using assms(1) by (auto simp: core_ok_def sched_ok_def)
  have "\<not> actionActive w"
    using assms(1,2) by (simp add: core_ok_def current_ok_def actionActive_def doNothing_def)
  then have step: "checkNewAction w = Inr (?w', [check_new_command])"
    using assms(2,3) pop(1) by (simp add: checkNewAction_def currentAction_def startAction_def
        actionActive_def Let_def)
  have "inFlight ?w' = inFlight w"
    using acts a(2) assms(2) by (simp add: inFlight_def currentAction_def)
  then have "books_ok {#} 0 ?w'" using assms(1) books_ok_cong [of ?w' w]
    by (simp add: core_ok_def cb_count_def)
  moreover have "sched_ok ?w'"
    using assms(1) pop(2,5) wk(3) acts by (auto simp: core_ok_def sched_ok_def)
  moreover have "timers_ok ?w' \<and> current_ok ?w'"
    using assms(1) a by (simp add: core_ok_def timers_ok_def current_ok_def currentAction_def)
  moreover have "Suc (work ?w') = work w"
  proof -
    have "filter (due ?now) (ms_waiting (ms_pop s)) = []"
      using pop(5) wk(3) by (simp add: filter_empty_conv)
    moreover have "length (vq_list (ms_ready s)) = Suc (length (vq_list (ms_ready (ms_pop s))))"
      using ready pop(3) by simp
    ultimately show ?thesis using wk(2) by (simp add: work_def)
  qed
  ultimately show ?thesis
    using step a(2) by (intro exI [of _ ?w']) (simp add: core_ok_def same_env_def currentAction_def cb_count_def)
qed

text \<open>Nothing is due: the delay timer is armed for the next action.\<close>

lemma checkNewAction_wait:
  assumes "core_ok {#} 0 w" and "doNothing (currentAction w)"
    and "workToDo (ts_now (mw_ts w)) (ah_scheduler (mw_ah w)) = (False, s)"
  shows "\<exists>w'. checkNewAction w = Inr (w', []) \<and> core_ok {#} 0 w' \<and> same_env w w' \<and>
    mw_dh w' = mw_dh w \<and> doNothing (currentAction w') \<and>
    cb_count CB_check_new_action w' = Suc (cb_count CB_check_new_action w) \<and> work w = 0"
proof -
  let ?s = "ah_scheduler (mw_ah w)" and ?now = "ts_now (mw_ts w)"
  have inv: "sched_inv ?s" using assms(1) by (simp add: core_ok_def sched_ok_def)
  note wk = workToDo_spec [OF inv assms(3)]
  have ready: "vq_list (ms_ready s) = []" using wk(4) by simp
  have "inFlight w = sched_actions ?s" using assms(2) by (simp add: inFlight_def)
  moreover have "inFlight w \<noteq> {#}" using assms(1) static_rows_remain [of 0 w] by (simp add: core_ok_def)
  ultimately obtain el rest where wait: "ms_waiting s = el # rest"
    using wk(5) ready by (cases "ms_waiting s") (auto simp: sched_actions_def)
  then have "el \<in> set (ms_waiting ?s)" using arg_cong [OF wk(3), of set] by auto
  then have rt: "readyTime s = qe_nextTime el" "1 \<le> readyTime s"
    using assms(1) wait by (auto simp: readyTime_def pq_top_def core_ok_def sched_ok_def)
  let ?ts = "td_start (readyTime s - ?now) CB_check_new_action (mw_ts w)"
  let ?w' = "w\<lparr>mw_ah := (mw_ah w)\<lparr>ah_scheduler := s, ah_delayAction := Some (ts_nextId (mw_ts w))\<rparr>, mw_ts := ?ts\<rparr>"
  have step: "checkNewAction w = Inr (?w', [])"
    using assms(2,3) rt(2)
    by (simp add: checkNewAction_def currentAction_def Let_def makeTimeoutAbs_def timer_moveAssign_def)
  have cbs: "cb_count cb ?w' = cb_count cb w + (if CB_check_new_action = cb then 1 else 0)" for cb
    by (simp add: cb_count_def td_start_def)
  have "inFlight ?w' = inFlight w" using wk(5) by (simp add: inFlight_def currentAction_def)
  then have "books_ok {#} 0 ?w'" using assms(1) books_ok_cong [of ?w' w] cbs by (simp add: core_ok_def)
  moreover have "sched_ok ?w'"
    using assms(1) wk by (auto simp: core_ok_def sched_ok_def)
  moreover have "timers_ok ?w'"
    using assms(1) by (auto simp: core_ok_def timers_ok_def td_start_def ts_inv_def)
  moreover have "current_ok ?w'"
    using assms(1) by (simp add: core_ok_def current_ok_def currentAction_def)
  moreover have "work w = 0" using wk(2) ready by (simp add: work_def)
  ultimately show ?thesis
    using step assms(2) cbs by (intro exI [of _ ?w']) (simp add: core_ok_def same_env_def currentAction_def)
qed

section \<open>The address store\<close>

lemma map_filter_update:
  assumes "i < length xs" and "P y = P (xs ! i)" and "f y = f (xs ! i)"
  shows "map f (filter P (xs[i := y])) = map f (filter P xs)"
proof -
  have "xs = take i xs @ xs ! i # drop (Suc i) xs" using assms(1) by (rule id_take_nth_drop)
  then have "map f (filter P xs) = map f (filter P (take i xs @ xs ! i # drop (Suc i) xs))" by simp
  then show ?thesis using assms by (simp add: upd_conv_take_nth_drop)
qed

lemma removeLine_update [simp]: "removeLine i (xs[i := y]) = removeLine i xs"
  by (simp add: removeLine_def)

lemma removeLine_static:
  assumes "i < length xs" and "\<not> P (xs ! i)"
  shows "filter P (removeLine i xs) = filter P xs"
proof -
  have "xs = take i xs @ xs ! i # drop (Suc i) xs" using assms(1) by (rule id_take_nth_drop)
  then have "filter P xs = filter P (take i xs @ xs ! i # drop (Suc i) xs)" by simp
  then show ?thesis using assms(2) by (simp add: removeLine_def)
qed

lemma uids_ok_removeLine:
  assumes "uids_ok xs" and "i < length xs"
  shows "uids_ok (removeLine i xs)"
proof -
  have "uids_ok (take i xs @ xs ! i # drop (Suc i) xs)"
    using assms id_take_nth_drop [OF assms(2)] by simp
  then show ?thesis by (auto simp: uids_ok_def removeLine_def split: if_splits)
qed

lemma postAction_spec:
  assumes "sched_ok w" and "1 \<le> t" "t \<le> ts_now (mw_ts w) + 30" "ts_now (mw_ts w) < t" and "\<not> doNothing a"
  shows "sched_ok (postAction a t w)"
    and "inFlight (postAction a t w) = add_mset (a\<lparr>ac_hasReportCB := True\<rparr>) (inFlight w)"
    and "work (postAction a t w) = work w"
proof -
  show "inFlight (postAction a t w) = add_mset (a\<lparr>ac_hasReportCB := True\<rparr>) (inFlight w)"
    by (simp add: inFlight_def postAction_def currentAction_def)
  show "sched_ok (postAction a t w)"
    using assms by (auto simp: sched_ok_def postAction_def doNothing_def addAction_def sched_inv_def
        pq_inv_push sched_actions_def)
  have "filter (due (ts_now (mw_ts w))) (pq_push \<lparr>qe_nextTime = t, qe_action = b\<rparr> q) =
      filter (due (ts_now (mw_ts w))) q" for b q
    using assms(4) by (induction q) (auto simp: due_def)
  then show "work (postAction a t w) = work w"
    by (simp add: work_def postAction_def addAction_def)
qed

lemma postAction_frame [simp]:
  "mw_ts (postAction a t w) = mw_ts w" "mw_tx (postAction a t w) = mw_tx w"
  "mw_rxBusy (postAction a t w) = mw_rxBusy w" "mw_dh (postAction a t w) = mw_dh w"
  "mw_fsm (postAction a t w) = mw_fsm w" "currentAction (postAction a t w) = currentAction w"
  by (simp_all add: postAction_def currentAction_def)

lemma postActionNow_frame [simp]:
  "mw_ts (postActionNow a w) = mw_ts w" "mw_tx (postActionNow a w) = mw_tx w"
  "mw_rxBusy (postActionNow a w) = mw_rxBusy w" "mw_dh (postActionNow a w) = mw_dh w"
  "mw_fsm (postActionNow a w) = mw_fsm w" "currentAction (postActionNow a w) = currentAction w"
  by (simp_all add: postActionNow_def currentAction_def)

lemma postActionNow_spec:
  assumes "sched_ok w" and "\<not> doNothing a"
  shows "sched_ok (postActionNow a w)"
    and "inFlight (postActionNow a w) = add_mset (a\<lparr>ac_hasReportCB := True\<rparr>) (inFlight w)"
  using assms
  by (auto simp: sched_ok_def postActionNow_def inFlight_def currentAction_def doNothing_def addActionNow_def
      sched_inv_def sched_actions_def)

lemma tokens_add [simp]:
  "inFlight w' = add_mset a (inFlight w) \<Longrightarrow>
   tokens w' = (if ac_action a = send_token then add_mset (ac_address a) (tokens w) else tokens w)"
  by (simp add: tokens_def)

lemma updateAddressLine_spec:
  assumes "core_ok {#addr#} n w"
  shows "\<exists>w'. updateAddressLine addr st w = Inr w' \<and> core_ok {#} n w' \<and> same_env w w' \<and>
    mw_ts w' = mw_ts w \<and> currentAction w' = currentAction w \<and> work w' = work w"
proof -
  let ?t = "dh_table (mw_dh w)"
  have sched: "sched_ok w" and timers: "timers_ok w" and cur: "current_ok w" and books: "books_ok {#addr#} n w"
    using assms by (simp_all add: core_ok_def)
  have "tableAddresses w = tokens w + {#addr#}" using books by (simp add: books_ok_def)
  then have "addr \<in># tableAddresses w" by simp
  then have "findLine_addr addr ?t \<noteq> None" by (auto simp: findLine_addr_def find_index_None tableAddresses_def)
  then obtain i where find: "findLine_addr addr ?t = Some i" by blast
  then have i: "i < length ?t" "al_address (?t ! i) = addr"
    by (auto simp: findLine_addr_def dest: find_index_Some)
  let ?line = "setState st (?t ! i)"
  let ?w1 = "w\<lparr>mw_dh := (mw_dh w)\<lparr>dh_freeAddresses := dh_freeAddresses (mw_dh w) @ [addr], dh_table := removeLine i ?t\<rparr>\<rparr>"
  let ?w2 = "w\<lparr>mw_dh := (mw_dh w)\<lparr>dh_table := ?t[i := ?line]\<rparr>\<rparr>"
  let ?a = "makeSendTokenAction addr" and ?time = "nextTime (al_state ?line) (ts_now (mw_ts w))"
  show ?thesis
  proof (cases "removeDynamic ?line")
    case True
    have step: "updateAddressLine addr st w = Inr ?w1"
      using find True i(2) by (simp add: updateAddressLine_def Let_def)
    have row: "add_mset addr (tableAddresses ?w1) = tableAddresses w"
      using arg_cong [OF mset_removeLine [OF i(1)], of "image_mset al_address"] i(2)
      by (simp add: tableAddresses_def)
    have static: "filter (\<lambda>l. \<not> al_isDynamic l) (removeLine i ?t) = filter (\<lambda>l. \<not> al_isDynamic l) ?t"
      using True i(1) by (intro removeLine_static) (simp_all add: removeDynamic_def)
    have same: "tokens ?w1 = tokens w" "queries ?w1 = queries w"
      by (simp_all add: tokens_def queries_def inFlight_def currentAction_def cb_count_def)
    have tok: "add_mset addr (tokens w) = tableAddresses w"
      and free: "tableAddresses w + mset (dh_freeAddresses (mw_dh w)) = mset allAddresses"
      and rest: "map al_address (filter (\<lambda>l. \<not> al_isDynamic l) ?t) =
        map toLocalAddress_int [staticLowAddress .. staticHighAddress]" "uids_ok ?t" "queries w + n = 1"
      using books by (simp_all add: books_ok_def)
    have "tokens w = tableAddresses ?w1" using tok unfolding row [symmetric] by simp
    moreover have "tableAddresses ?w1 + mset (dh_freeAddresses (mw_dh ?w1)) = mset allAddresses"
      using free unfolding row [symmetric] by simp
    ultimately have "books_ok {#} n ?w1"
      using rest static same uids_ok_removeLine [OF _ i(1)] by (simp add: books_ok_def)
    moreover have "sched_ok ?w1 \<and> timers_ok ?w1 \<and> current_ok ?w1"
      using sched timers cur by (simp add: sched_ok_def timers_ok_def current_ok_def currentAction_def)
    ultimately show ?thesis using step
      by (simp add: core_ok_def same_env_def currentAction_def work_def cb_count_def)
  next
    case False
    let ?w' = "postAction ?a ?time ?w2"
    have step: "updateAddressLine addr st w = Inr ?w'"
      using find False by (simp add: updateAddressLine_def Let_def)
    have ok2: "sched_ok ?w2" using sched by (simp add: sched_ok_def)
    have time: "1 \<le> ?time" "?time \<le> ts_now (mw_ts ?w2) + 30" "ts_now (mw_ts ?w2) < ?time"
      using timers nextTime_bounds [of "ts_now (mw_ts w)" "al_state ?line"] by (simp_all add: timers_ok_def)
    have a: "\<not> doNothing ?a" "ac_action ?a = send_token" "ac_address ?a = addr"
      by (simp_all add: makeSendTokenAction_def mkAction_def doNothing_def)
    note post = postAction_spec [OF ok2 time a(1)]
    have "inFlight ?w2 = inFlight w" by (simp add: inFlight_def currentAction_def)
    then have tok: "tokens ?w' = add_mset addr (tokens w)"
      and qs: "queries ?w' = queries w"
      using post(2) a by (simp_all add: tokens_def queries_def cb_count_def)
    have rows: "tableAddresses ?w2 = tableAddresses w" "uids_ok (dh_table (mw_dh ?w2)) = uids_ok ?t"
      "map al_address (filter (\<lambda>l. \<not> al_isDynamic l) (dh_table (mw_dh ?w2))) =
       map al_address (filter (\<lambda>l. \<not> al_isDynamic l) ?t)"
      using i map_update_same [of i ?t al_address ?line]
      by (simp_all add: tableAddresses_def uids_ok_def map_filter_update)
    have "tableAddresses ?w' = tableAddresses w" using rows(1) by (simp add: tableAddresses_def)
    then have "books_ok {#} n ?w'" using books rows tok qs by (simp add: books_ok_def)
    moreover have "timers_ok ?w' \<and> current_ok ?w'"
      using timers cur by (simp add: timers_ok_def current_ok_def currentAction_def postAction_def)
    moreover have "work ?w' = work w" using post(3) by (simp add: work_def)
    ultimately show ?thesis using step post(1)
      by (simp add: core_ok_def same_env_def cb_count_def currentAction_def postAction_def)
  qed
qed

lemma addressDiscoveryIsDone_spec:
  assumes "core_ok T (Suc n) w"
  defines "w' \<equiv> addressDiscoveryIsDone w"
  shows "core_ok T n w' \<and> same_env w w' \<and> currentAction w' = currentAction w \<and> work w' = work w \<and>
    cb_count CB_check_new_action w' = cb_count CB_check_new_action w \<and> mw_dh w' = (mw_dh w)\<lparr>dh_timer := dh_timer (mw_dh w')\<rparr>"
proof -
  have w': "w' = w\<lparr>mw_ts := td_start addrQueryPeriod CB_query_address (mw_ts w),
      mw_dh := (mw_dh w)\<lparr>dh_timer := Some (ts_nextId (mw_ts w))\<rparr>\<rparr>"
    by (simp add: w'_def addressDiscoveryIsDone_def makeTimeoutAbs_def timer_moveAssign_def Let_def)
  have cbs: "cb_count cb w' = cb_count cb w + (if CB_query_address = cb then 1 else 0)" for cb
    by (simp add: w' cb_count_def td_start_def)
  have flight: "inFlight w' = inFlight w" by (simp add: w' inFlight_def currentAction_def)
  have "timers_ok w'"
    using assms(1) by (auto simp: w' core_ok_def timers_ok_def td_start_def ts_inv_def)
  moreover have "sched_ok w' \<and> current_ok w'"
    using assms(1) by (simp add: w' core_ok_def sched_ok_def current_ok_def currentAction_def)
  moreover have "books_ok T n w'"
  proof -
    have "books_ok T (Suc n) w" using assms(1) by (simp add: core_ok_def)
    moreover have "tokens w' = tokens w" "queries w' = Suc (queries w)"
      using flight cbs by (simp_all add: tokens_def queries_def)
    moreover have "tableAddresses w' = tableAddresses w" by (simp add: tableAddresses_def w')
    ultimately show ?thesis by (simp add: books_ok_def w')
  qed
  moreover have "same_env w w'" using cbs by (simp add: same_env_def w')
  ultimately show ?thesis
    using cbs by (simp add: core_ok_def currentAction_def work_def w')
qed

section \<open>Reporting a result\<close>

text \<open>The outcome of a check for new work: the next action is started, or the delay timer is
  armed.\<close>

definition checked :: "MasterWorld \<Rightarrow> MasterWorld \<Rightarrow> Event list \<Rightarrow> bool" where
  "checked w w' evs \<longleftrightarrow> core_ok {#} 0 w' \<and> same_env w w' \<and>
     (if doNothing (currentAction w')
      then evs = [] \<and> cb_count CB_check_new_action w' = Suc (cb_count CB_check_new_action w)
      else evs = [check_new_command] \<and> cb_count CB_check_new_action w' = cb_count CB_check_new_action w \<and>
           work w' < work w)"

lemma checkNewAction_spec:
  assumes "core_ok {#} 0 w" and "doNothing (currentAction w)"
  shows "\<exists>w' evs. checkNewAction w = Inr (w', evs) \<and> checked w w' evs \<and> mw_dh w' = mw_dh w"
proof -
  obtain b s where wk: "workToDo (ts_now (mw_ts w)) (ah_scheduler (mw_ah w)) = (b, s)" by fastforce
  show ?thesis
  proof (cases b)
    case True
    with wk have "workToDo (ts_now (mw_ts w)) (ah_scheduler (mw_ah w)) = (True, s)" by simp
    from checkNewAction_start [OF assms this] show ?thesis by (fastforce simp: checked_def cb_count_def)
  next
    case False
    with wk have "workToDo (ts_now (mw_ts w)) (ah_scheduler (mw_ah w)) = (False, s)" by simp
    from checkNewAction_wait [OF assms this] show ?thesis by (fastforce simp: checked_def)
  qed
qed

text \<open>Which results the state machine may report for the current command.\<close>

fun fitting :: "Cmd \<Rightarrow> ReturnValue \<Rightarrow> bool" where
  "fitting send_token rv = (rv \<in> {RV_client_packet_started, RV_rx_token_no_packet, RV_token_timeout})"
| "fitting query_address rv = (rv = RV_address_query_done)"
| "fitting send_master_start rv = (rv = RV_ok)"
| "fitting do_nothing rv = False"

lemma clear_current:
  assumes "core_ok {#} 0 w" and "\<not> doNothing (currentAction w)"
    and "w' = w\<lparr>mw_fsm := (mw_fsm w)\<lparr>mf_currentAction := makeDoNothingAction\<rparr>,
      mw_ah := (mw_ah w)\<lparr>ah_currentAction := makeDoNothingAction\<rparr>\<rparr>"
    and "T = (if ac_action (currentAction w) = send_token then {#ac_address (currentAction w)#} else {#})"
    and "n = (if ac_action (currentAction w) = query_address then 1 else 0)"
  shows "core_ok T n w' \<and> doNothing (currentAction w') \<and> same_env w w' \<and> work w' = work w \<and> mw_ts w' = mw_ts w"
proof -
  have idle: "doNothing makeDoNothingAction" by (simp add: makeDoNothingAction_def mkAction_def doNothing_def)
  then have flight: "inFlight w = add_mset (currentAction w) (inFlight w')"
    using assms(2,3) by (simp add: inFlight_def currentAction_def)
  have "tokens w = tokens w' + T" "queries w = queries w' + n"
    using assms(4,5) flight by (simp_all add: tokens_def queries_def assms(3) cb_count_def)
  moreover have "tableAddresses w' = tableAddresses w" "mw_dh w' = mw_dh w"
    by (simp_all add: tableAddresses_def assms(3))
  ultimately have "books_ok T n w'" using assms(1) by (simp add: core_ok_def books_ok_def)
  moreover have "sched_ok w' \<and> timers_ok w' \<and> current_ok w'"
    using assms(1) idle by (simp add: assms(3) core_ok_def sched_ok_def timers_ok_def current_ok_def currentAction_def)
  ultimately show ?thesis using idle
    by (simp add: core_ok_def same_env_def assms(3) currentAction_def work_def cb_count_def)
qed

lemma report_spec:
  assumes "core_ok {#} 0 w" and "fitting (ac_action (currentAction w)) rv"
  shows "\<exists>w' evs. fsm_reportActionResult rv w = Inr (w', evs) \<and> checked w w' evs"
proof -
  have busy: "\<not> doNothing (currentAction w)" using assms(2) by (auto simp: doNothing_def)
  let ?a = "currentAction w"
  define w1 where "w1 = w\<lparr>mw_fsm := (mw_fsm w)\<lparr>mf_currentAction := makeDoNothingAction\<rparr>,
      mw_ah := (mw_ah w)\<lparr>ah_currentAction := makeDoNothingAction\<rparr>\<rparr>"
  define T where "T = (if ac_action ?a = send_token then {#ac_address ?a#} else {#})"
  define n :: nat where "n = (if ac_action ?a = query_address then 1 else 0)"
  note w1 = clear_current [OF assms(1) busy w1_def T_def n_def]
  have cb: "ac_hasReportCB (mf_currentAction (mw_fsm w))"
    using assms(1) busy by (auto simp: core_ok_def current_ok_def)
  define upd where "upd = (case rv of
          RV_client_packet_started \<Rightarrow> updateAddressLine (ac_address ?a) active w1
        | RV_rx_token_no_packet \<Rightarrow> updateAddressLine (ac_address ?a) idle w1
        | RV_token_timeout \<Rightarrow> updateAddressLine (ac_address ?a) badClient w1
        | RV_address_query_done \<Rightarrow> Inr (addressDiscoveryIsDone w1)
        | RV_ok \<Rightarrow> Inr w1
        | _ \<Rightarrow> Inl Assert_Failed)"
  have report: "fsm_reportActionResult rv w = rbind upd checkNewAction"
    using cb by (cases rv) (simp_all add: fsm_reportActionResult_def ah_reportActionResult_def
        w1_def upd_def currentAction_def Let_def)
  have "\<exists>w2. upd = Inr w2 \<and>
      core_ok {#} 0 w2 \<and> doNothing (currentAction w2) \<and> same_env w1 w2 \<and> work w2 = work w1 \<and>
      cb_count CB_check_new_action w2 = cb_count CB_check_new_action w1"
  proof (cases "ac_action ?a")
    case send_token
    then have "core_ok {#ac_address ?a#} 0 w1" using w1 by (simp add: T_def n_def)
    from updateAddressLine_spec [OF this, of active] updateAddressLine_spec [OF this, of idle]
      updateAddressLine_spec [OF this, of badClient] show ?thesis
      using send_token assms(2) w1 unfolding upd_def by (auto simp: cb_count_def)
  next
    case query_address
    then have "core_ok {#} (Suc 0) w1" using w1 by (simp add: T_def n_def)
    from addressDiscoveryIsDone_spec [OF this] show ?thesis
      using query_address assms(2) w1 by (simp add: upd_def)
  next
    case send_master_start
    then show ?thesis using assms(2) w1 by (simp add: T_def n_def upd_def)
  next
    case do_nothing
    then show ?thesis using busy by (simp add: doNothing_def)
  qed
  then obtain w2 where w2: "fsm_reportActionResult rv w = checkNewAction w2" "core_ok {#} 0 w2"
    "doNothing (currentAction w2)" "same_env w1 w2" "work w2 = work w1"
    "cb_count CB_check_new_action w2 = cb_count CB_check_new_action w1"
    using report by auto
  obtain w' evs where "checkNewAction w2 = Inr (w', evs)" "checked w2 w' evs"
    using checkNewAction_spec [OF w2(2,3)] by blast
  moreover have "cb_count CB_check_new_action w1 = cb_count CB_check_new_action w"
    by (simp add: w1_def cb_count_def)
  ultimately show ?thesis
    using w1 w2 by (auto simp: checked_def same_env_def)
qed

section \<open>Address requests\<close>

definition assignedLine :: "AddressRequest \<Rightarrow> MasterWorld \<Rightarrow> AddressLine" where
  "assignedLine aReq w = mkAddressLineUid (last (dh_freeAddresses (mw_dh w))) idle True
     (aq_m_uniqueId aReq) (aq_m_channelType aReq)"

text \<open>A new row for the last of the free addresses.\<close>

definition assign :: "AddressRequest \<Rightarrow> MasterWorld \<Rightarrow> MasterWorld" where
  "assign aReq w = postActionNow (makeSendTokenAction (last (dh_freeAddresses (mw_dh w))))
     (w\<lparr>mw_dh := (mw_dh w)\<lparr>dh_freeAddresses := butlast (dh_freeAddresses (mw_dh w)),
                            dh_table := dh_table (mw_dh w) @ [assignedLine aReq w]\<rparr>\<rparr>)"

lemma receivedAddressRequest_eq:
  "receivedAddressRequest aReq w =
     (case findLine_uid (aq_m_uniqueId aReq) (dh_table (mw_dh w)) of
        Some i \<Rightarrow> sendAddressReply (al_address (dh_table (mw_dh w) ! i)) (aq_m_uniqueId aReq) w
      | None \<Rightarrow>
          if dh_freeAddresses (mw_dh w) = [] then w
          else sendAddressReply (last (dh_freeAddresses (mw_dh w))) (aq_m_uniqueId aReq) (assign aReq w))"
proof (cases "findLine_uid (aq_m_uniqueId aReq) (dh_table (mw_dh w)) = None \<and> dh_freeAddresses (mw_dh w) \<noteq> []")
  case True
  let ?t = "dh_table (mw_dh w) @ [assignedLine aReq w]" and ?a = "last (dh_freeAddresses (mw_dh w))"
  have "al_address (assignedLine aReq w) = ?a" by (simp add: assignedLine_def mkAddressLineUid_def)
  then obtain i where i: "findLine_addr ?a ?t = Some i"
    by (cases "findLine_addr ?a ?t") (auto simp: findLine_addr_def find_index_None)
  then have "al_address (?t ! i) = ?a" by (auto simp: findLine_addr_def dest: find_index_Some)
  with i True show ?thesis
    by (simp add: receivedAddressRequest_def allocAddress_def Let_def assign_def assignedLine_def)
next
  case False
  then show ?thesis by (auto simp: receivedAddressRequest_def Let_def split: option.splits)
qed

lemma sendAddressReply_frame [simp]:
  "mw_ts (sendAddressReply a u w) = mw_ts w" "mw_ah (sendAddressReply a u w) = mw_ah w"
  "mw_dh (sendAddressReply a u w) = mw_dh w" "mw_fsm (sendAddressReply a u w) = mw_fsm w"
  "mw_rxBusy (sendAddressReply a u w) = mw_rxBusy w"
  by (simp_all add: sendAddressReply_def)

text \<open>Nothing in the invariant depends on the transmit queue or the receiver.\<close>

lemma core_ok_cong:
  assumes "mw_ts w' = mw_ts w" "mw_ah w' = mw_ah w" "mw_dh w' = mw_dh w" "mw_fsm w' = mw_fsm w"
  shows "core_ok T n w' = core_ok T n w" "work w' = work w" "currentAction w' = currentAction w"
    "cb_count cb w' = cb_count cb w"
  using assms
  by (simp_all add: core_ok_def sched_ok_def timers_ok_def current_ok_def books_ok_def tokens_def queries_def
      inFlight_def tableAddresses_def work_def currentAction_def cb_count_def)

lemma assign_ok:
  assumes "core_ok {#} n w" and "findLine_uid (aq_m_uniqueId aReq) (dh_table (mw_dh w)) = None"
    and "dh_freeAddresses (mw_dh w) \<noteq> []"
  shows "core_ok {#} n (assign aReq w)"
proof -
  let ?fr = "dh_freeAddresses (mw_dh w)" and ?t = "dh_table (mw_dh w)" and ?l = "assignedLine aReq w"
  let ?a = "makeSendTokenAction (last ?fr)"
  let ?w1 = "w\<lparr>mw_dh := (mw_dh w)\<lparr>dh_freeAddresses := butlast ?fr, dh_table := ?t @ [?l]\<rparr>\<rparr>"
  have books: "books_ok {#} n w" using assms(1) by (simp add: core_ok_def)
  have l: "al_isDynamic ?l" "al_uniqueId ?l = aq_m_uniqueId aReq" "al_address ?l = last ?fr"
    by (simp_all add: assignedLine_def mkAddressLineUid_def)
  have a: "\<not> doNothing ?a" "ac_action ?a = send_token" "ac_address ?a = last ?fr"
    by (simp_all add: makeSendTokenAction_def mkAction_def doNothing_def)
  have "sched_ok ?w1" using assms(1) by (simp add: core_ok_def sched_ok_def)
  note post = postActionNow_spec [OF this a(1)]
  have "inFlight ?w1 = inFlight w" by (simp add: inFlight_def currentAction_def)
  then have tok: "tokens (assign aReq w) = add_mset (last ?fr) (tokens w)"
    and q: "queries (assign aReq w) = queries w"
    using post(2) a by (simp_all add: assign_def tokens_def queries_def cb_count_def)
  have tab: "tableAddresses (assign aReq w) = add_mset (last ?fr) (tableAddresses w)"
    by (simp add: assign_def tableAddresses_def l)
  have "mset ?fr = add_mset (last ?fr) (mset (butlast ?fr))"
    using assms(3) by (metis add_mset_add_single append_butlast_last_id mset_append mset_single_iff)
  then have part: "tableAddresses (assign aReq w) + mset (dh_freeAddresses (mw_dh (assign aReq w))) = mset allAddresses"
    using books tab by (simp add: books_ok_def assign_def)
  have "\<forall>x \<in> set ?t. al_uniqueId x \<noteq> aq_m_uniqueId aReq"
    using assms(2) by (auto simp: findLine_uid_def find_index_None)
  then have "uids_ok (?t @ [?l])"
    using books l by (auto simp: books_ok_def uids_ok_def)
  then have "books_ok {#} n (assign aReq w)"
    using books tok q tab part l by (simp add: books_ok_def assign_def)
  moreover have "timers_ok (assign aReq w) \<and> current_ok (assign aReq w)"
    using assms(1) by (simp add: assign_def core_ok_def timers_ok_def current_ok_def currentAction_def postActionNow_def)
  ultimately show ?thesis using post(1) by (simp add: core_ok_def assign_def)
qed

lemma receivedAddressRequest_spec:
  assumes "core_ok {#} n w" and w': "w' = receivedAddressRequest aReq w"
  shows "core_ok {#} n w' \<and> currentAction w' = currentAction w \<and> mw_ts w' = mw_ts w \<and> mw_fsm w' = mw_fsm w \<and>
    mw_rxBusy w' = mw_rxBusy w"
proof (cases "findLine_uid (aq_m_uniqueId aReq) (dh_table (mw_dh w)) = None \<and> dh_freeAddresses (mw_dh w) \<noteq> []")
  case True
  let ?w1 = "assign aReq w"
  have "core_ok {#} n ?w1" using assms(1) True by (intro assign_ok) simp_all
  moreover have "w' = sendAddressReply (last (dh_freeAddresses (mw_dh w))) (aq_m_uniqueId aReq) ?w1"
    using True by (simp add: w' receivedAddressRequest_eq)
  ultimately show ?thesis
    using core_ok_cong [of w' ?w1] by (simp add: assign_def) (simp add: currentAction_def postActionNow_def)
next
  case False
  then have "w' = w \<or> (\<exists>a u. w' = sendAddressReply a u w)"
    by (auto simp: w' receivedAddressRequest_eq split: option.splits)
  then show ?thesis using assms(1) core_ok_cong [of w' w] by auto
qed

section \<open>Events of the state machine\<close>

fun phase_ok :: "StateId \<Rightarrow> Cmd \<Rightarrow> bool" where
  "phase_ok st_idle c = (c = do_nothing \<or> c = send_token)"
| "phase_ok st_startMaster c = (c = send_master_start)"
| "phase_ok st_sendingToken c = (c = send_token)"
| "phase_ok st_waitClientPacketDone c = (c = send_token)"
| "phase_ok st_queryAddress c = (c = query_address)"
| "phase_ok st_waitAddressReply c = (c = query_address)"

text \<open>
  The machine at rest in a state: exactly one timeout is armed in every state but \<open>idle\<close>, and
  in \<open>idle\<close> the delay timer is armed, unless the machine is stalled with an action it no
  longer works on.
\<close>

definition rest_ok :: "StateId \<Rightarrow> MasterWorld \<Rightarrow> bool" where
  "rest_ok s w \<longleftrightarrow> core_ok {#} 0 w \<and> phase_ok s (ac_action (currentAction w)) \<and>
     cb_count CB_fsm_timeout w = (if s = st_idle then 0 else 1) \<and>
     cb_count CB_check_new_action w = (if s = st_idle \<and> doNothing (currentAction w) then 1 else 0)"

text \<open>The machine in \<open>idle\<close> with the event \<open>check_new_command\<close> pending.\<close>

definition ready_ok :: "MasterWorld \<Rightarrow> bool" where
  "ready_ok w \<longleftrightarrow> core_ok {#} 0 w \<and> \<not> doNothing (currentAction w) \<and>
     cb_count CB_fsm_timeout w = 0 \<and> cb_count CB_check_new_action w = 0"

definition outcome :: "StateId \<Rightarrow> MasterWorld \<Rightarrow> Event list \<Rightarrow> bool" where
  "outcome s w evs \<longleftrightarrow> (evs = [] \<and> rest_ok s w) \<or> (evs = [check_new_command] \<and> s = st_idle \<and> ready_ok w)"

lemma core_ok_timer:
  assumes "core_ok T n w" and "timers_ok w'" and "cb_count CB_query_address w' = cb_count CB_query_address w"
    and "mw_ah w' = mw_ah w" "mw_dh w' = mw_dh w"
    and "mf_currentAction (mw_fsm w') = mf_currentAction (mw_fsm w)" "ts_now (mw_ts w') = ts_now (mw_ts w)"
  shows "core_ok T n w' \<and> currentAction w' = currentAction w \<and> work w' = work w"
proof -
  have cur: "currentAction w' = currentAction w" using assms by (simp add: currentAction_def)
  then have "inFlight w' = inFlight w" using assms by (simp add: inFlight_def)
  then have "books_ok T n w'" using assms(1,3,5) books_ok_cong [of w' w] by (simp add: core_ok_def)
  then show ?thesis using assms cur by (simp add: core_ok_def sched_ok_def current_ok_def work_def)
qed

lemma core_ok_cleanTimer:
  assumes "core_ok T n w"
  shows "core_ok T n (cleanTimer w) \<and> currentAction (cleanTimer w) = currentAction w \<and> work (cleanTimer w) = work w"
proof -
  have "timers_ok w" using assms by (simp add: core_ok_def)
  note c = cleanTimer_spec [OF this]
  show ?thesis using assms c by (intro core_ok_timer) simp_all
qed

lemma core_ok_startTimer:
  assumes "core_ok T n w" and "cb_count CB_fsm_timeout w = 0"
  shows "core_ok T n (startTimer t w) \<and> currentAction (startTimer t w) = currentAction w \<and>
    cb_count CB_fsm_timeout (startTimer t w) = 1 \<and>
    cb_count CB_check_new_action (startTimer t w) = cb_count CB_check_new_action w"
proof -
  have "timers_ok w" using assms by (simp add: core_ok_def)
  note c = startTimer_spec [OF this assms(2)]
  have "core_ok T n (startTimer t w) \<and> currentAction (startTimer t w) = currentAction w \<and> work (startTimer t w) = work w"
    using assms c by (intro core_ok_timer) simp_all
  then show ?thesis using c by simp
qed

text \<open>Entering a state other than \<open>idle\<close> arms its timeout.\<close>

lemma construct_ok:
  assumes "core_ok {#} 0 w" and "cb_count CB_fsm_timeout w = 0" and "cb_count CB_check_new_action w = 0"
    and "phase_ok s (ac_action (currentAction w))" and "s \<noteq> st_idle"
  shows "rest_ok s (constructState s w)"
proof -
  have timer: "rest_ok s (startTimer t w)" for t
    using core_ok_startTimer [OF assms(1,2), of t] assms(3-5) by (simp add: rest_ok_def)
  have send: "rest_ok s' (w'\<lparr>mw_tx := q\<rparr>) = rest_ok s' w'" for s' w' q
    using core_ok_cong [of "w'\<lparr>mw_tx := q\<rparr>" w'] by (simp add: rest_ok_def)
  have start: "startTimer t (w\<lparr>mw_tx := q\<rparr>) = (startTimer t w)\<lparr>mw_tx := q\<rparr>" for t q
    by (simp add: startTimer_def makeTimeout_def timer_moveAssign_def)
  show ?thesis
    using timer assms(5)
    by (cases s)
      (simp_all add: MasterStart_construct_def sendMasterStart_def SendingToken_construct_def
        WaitClientPacketDoneState_construct_def QueryAddressState_construct_def
        sendAddressDiscovery_def WaitAddressReply_construct_def send start)
qed

lemma outcome_checked:
  assumes "checked w w' evs" and "cb_count CB_fsm_timeout w' = 0" and "cb_count CB_check_new_action w = 0"
  shows "outcome st_idle w' evs"
  using assms
  by (cases "doNothing (currentAction w')")
    (simp_all add: checked_def outcome_def rest_ok_def ready_ok_def doNothing_def)

lemma checked_cleanTimer:
  assumes "checked w w' evs" and "cb_count CB_check_new_action w = 0"
  shows "outcome st_idle (cleanTimer w') evs"
proof -
  have "core_ok {#} 0 w'" using assms(1) by (simp add: checked_def)
  note core = core_ok_cleanTimer [OF this]
  have "timers_ok w'" using \<open>core_ok {#} 0 w'\<close> by (simp add: core_ok_def)
  note c = cleanTimer_spec [OF this]
  show ?thesis using assms core c
    by (cases "doNothing (currentAction w')")
      (simp_all add: checked_def outcome_def rest_ok_def ready_ok_def doNothing_def)
qed

text \<open>A handler that reports and returns to \<open>idle\<close>, in a state whose destructor stops the timer.\<close>

lemma report_outcome:
  assumes "core_ok {#} 0 w" and "fitting (ac_action (currentAction w)) rv"
    and "cb_count CB_check_new_action w = 0" and "eventState s ev w = reportAndIdle rv w"
    and "destructState s = (\<lambda>w. Inr (cleanTimer w, []))"
  shows "\<exists>s' w' evs. masterEvent s ev w = Inr (s', w', evs) \<and> outcome s' w' evs"
proof -
  obtain w1 evs where r: "fsm_reportActionResult rv w = Inr (w1, evs)" "checked w w1 evs"
    using report_spec [OF assms(1,2)] by blast
  have "stateOf 0 = Some st_idle" using stateOf_stateId [of st_idle] by simp
  then have "masterEvent s ev w = Inr (st_idle, cleanTimer w1, evs)"
    using assms(4,5) r(1) by (simp add: masterEvent_def reportAndIdle_def)
  then show ?thesis using checked_cleanTimer [OF r(2) assms(3)] by blast
qed

text \<open>The machine when an event reaches it; a fired timer is no longer armed.\<close>

definition at_event :: "StateId \<Rightarrow> Event \<Rightarrow> MasterWorld \<Rightarrow> bool" where
  "at_event s ev w \<longleftrightarrow> core_ok {#} 0 w \<and> phase_ok s (ac_action (currentAction w)) \<and>
     cb_count CB_fsm_timeout w = (if s = st_idle \<or> ev = timer_timeout then 0 else 1) \<and>
     cb_count CB_check_new_action w = (if s = st_idle \<and> doNothing (currentAction w) then 1 else 0)"

lemma stateOf_numerals [simp]:
  "stateOf 0 = Some st_idle" "stateOf 1 = Some st_startMaster" "stateOf 2 = Some st_sendingToken"
  "stateOf 3 = Some st_waitClientPacketDone" "stateOf 4 = Some st_queryAddress" "stateOf 5 = Some st_waitAddressReply"
  by (simp_all add: stateOf_def)

lemma ignored_outcome:
  assumes "at_event s ev w" and "eventState s ev w = Inr (h, w, None, [])" and "ev \<noteq> timer_timeout \<or> s = st_idle"
  shows "\<exists>s' w' evs. masterEvent s ev w = Inr (s', w', evs) \<and> outcome s' w' evs"
  using assms by (auto simp: masterEvent_def outcome_def rest_ok_def at_event_def)

lemma rearmed_outcome:
  assumes "at_event s timer_timeout w" and "s \<noteq> st_idle"
    and "eventState s timer_timeout w = Inr (True, startTimer t w, None, [])"
  shows "\<exists>s' w' evs. masterEvent s timer_timeout w = Inr (s', w', evs) \<and> outcome s' w' evs"
proof -
  have "core_ok {#} 0 w" "cb_count CB_fsm_timeout w = 0" using assms(1) by (simp_all add: at_event_def)
  from core_ok_startTimer [OF this, of t] show ?thesis
    using assms by (simp add: masterEvent_def outcome_def rest_ok_def at_event_def)
qed

lemma moved_outcome:
  assumes "core_ok {#} 0 w1" and "phase_ok t (ac_action (currentAction w1))"
    and "cb_count CB_check_new_action w1 = 0" and "t \<noteq> st_idle"
    and "eventState s ev w = Inr (True, w1, Some (stateId t), [])"
    and "destructState s = (\<lambda>w. Inr (cleanTimer w, []))"
  shows "\<exists>s' w' evs. masterEvent s ev w = Inr (s', w', evs) \<and> outcome s' w' evs"
proof -
  have "timers_ok w1" using assms(1) by (simp add: core_ok_def)
  note c = cleanTimer_spec [OF this]
  have "rest_ok t (constructState t (cleanTimer w1))"
    using core_ok_cleanTimer [OF assms(1)] c assms(2-4) by (intro construct_ok) simp_all
  then show ?thesis using assms(5,6) by (simp add: masterEvent_def outcome_def)
qed

text \<open>The handler of \<open>WaitAddressReply\<close> reports from the destructor.\<close>

lemma replied_outcome:
  assumes "at_event st_waitAddressReply timer_timeout w" and "\<not> mw_rxBusy w"
  shows "\<exists>s' w' evs. masterEvent st_waitAddressReply timer_timeout w = Inr (s', w', evs) \<and> outcome s' w' evs"
proof -
  have core: "core_ok {#} 0 w" and q: "ac_action (currentAction w) = query_address"
    and chk: "cb_count CB_check_new_action w = 0"
    using assms(1) by (simp_all add: at_event_def)
  have "timers_ok w" using core by (simp add: core_ok_def)
  note c = cleanTimer_spec [OF this]
  have "fitting (ac_action (currentAction (cleanTimer w))) RV_address_query_done"
    using core_ok_cleanTimer [OF core] q by simp
  then obtain w1 evs where r: "fsm_reportActionResult RV_address_query_done (cleanTimer w) = Inr (w1, evs)"
    "checked (cleanTimer w) w1 evs"
    using report_spec core_ok_cleanTimer [OF core] by blast
  then have "cb_count CB_fsm_timeout w1 = 0" using c by (simp add: checked_def same_env_def)
  then have "outcome st_idle w1 evs" using outcome_checked [OF r(2)] c chk by simp
  moreover have "masterEvent st_waitAddressReply timer_timeout w = Inr (st_idle, w1, evs)"
    using assms(2) r(1) by (simp add: masterEvent_def WaitAddressReply_event_def WaitAddressReply_destruct_def)
  ultimately show ?thesis by blast
qed

lemma stalled_outcome:
  assumes "at_event st_sendingToken timer_timeout w"
  shows "masterEvent st_sendingToken timer_timeout w = Inr (st_idle, cleanTimer w, []) \<and> rest_ok st_idle (cleanTimer w)"
proof -
  have core: "core_ok {#} 0 w" using assms by (simp add: at_event_def)
  then have "timers_ok w" by (simp add: core_ok_def)
  note c = cleanTimer_spec [OF this]
  show ?thesis using assms core_ok_cleanTimer [OF core] c
    by (simp add: masterEvent_def SendingToken_event_def rest_ok_def at_event_def doNothing_def)
qed

lemma at_eventD:
  assumes "at_event s ev w"
  shows "core_ok {#} 0 w" and "phase_ok s (ac_action (currentAction w))"
    and "s \<noteq> st_idle \<Longrightarrow> cb_count CB_check_new_action w = 0"
  using assms by (simp_all add: at_event_def)

lemma startMaster_outcome:
  assumes "at_event st_startMaster ev w" and "ev \<noteq> timer_timeout"
  shows "\<exists>s' w' evs. masterEvent st_startMaster ev w = Inr (s', w', evs) \<and> outcome s' w' evs"
proof (cases "ev = rx_pkt_master_start_stop")
  case True
  then show ?thesis using at_eventD [OF assms(1)]
    by (intro report_outcome [of w RV_ok]) (simp_all add: MasterStart_event_def)
next
  case False
  then show ?thesis using assms(2) by (intro ignored_outcome [OF assms(1)])
    (auto simp: MasterStart_event_def split: Event.splits)
qed

lemma sendingToken_outcome:
  assumes "at_event st_sendingToken ev w"
  shows "\<exists>s' w' evs. masterEvent st_sendingToken ev w = Inr (s', w', evs) \<and> outcome s' w' evs"
proof -
  consider "ev = rx_pkt_grant_token" | "ev = timer_timeout" | "ev \<noteq> rx_pkt_grant_token" "ev \<noteq> timer_timeout" by blast
  then show ?thesis
  proof cases
    case 1
    then show ?thesis using at_eventD [OF assms]
      by (intro moved_outcome [of w st_waitClientPacketDone]) (simp_all add: SendingToken_event_def)
  next
    case 2
    then show ?thesis using stalled_outcome [of w] assms by (auto simp: outcome_def)
  next
    case 3
    then show ?thesis by (intro ignored_outcome [OF assms])
      (auto simp: SendingToken_event_def split: Event.splits)
  qed
qed

lemma waitClientPacketDone_outcome:
  assumes "at_event st_waitClientPacketDone ev w"
  shows "\<exists>s' w' evs. masterEvent st_waitClientPacketDone ev w = Inr (s', w', evs) \<and> outcome s' w' evs"
proof -
  have report: ?thesis if "eventState st_waitClientPacketDone ev w = reportAndIdle rv w"
    and "rv \<in> {RV_client_packet_started, RV_rx_token_no_packet, RV_token_timeout}" for rv
    using at_eventD [OF assms] that by (intro report_outcome [of w rv]) simp_all
  consider "ev = rx_pkt_client_packet" | "ev = rx_return_token" | "ev = timer_timeout" "mw_rxBusy w"
    | "ev = timer_timeout" "\<not> mw_rxBusy w"
    | "ev \<notin> {rx_pkt_client_packet, rx_return_token, timer_timeout}" by blast
  then show ?thesis
  proof cases
    case 3
    then show ?thesis using assms rearmed_outcome [of st_waitClientPacketDone w]
      by (simp add: WaitClientPacketDoneState_event_def)
  next
    case 5
    then show ?thesis by (intro ignored_outcome [OF assms])
      (auto simp: WaitClientPacketDoneState_event_def split: Event.splits)
  qed (rule report, simp add: WaitClientPacketDoneState_event_def, simp)+
qed

lemma queryAddress_outcome:
  assumes "at_event st_queryAddress ev w"
  shows "\<exists>s' w' evs. masterEvent st_queryAddress ev w = Inr (s', w', evs) \<and> outcome s' w' evs"
proof -
  consider aReq where "ev = rx_pkt_address_request aReq" | "ev = timer_timeout" "mw_rxBusy w"
    | "ev = timer_timeout" "\<not> mw_rxBusy w"
    | "ev \<noteq> timer_timeout" "\<And>aReq. ev \<noteq> rx_pkt_address_request aReq" by blast
  then show ?thesis
  proof cases
    case 1
    then show ?thesis using at_eventD [OF assms] receivedAddressRequest_spec [OF at_eventD(1) [OF assms] refl, of aReq]
      by (intro moved_outcome [of "receivedAddressRequest aReq w" st_waitAddressReply])
        (simp_all add: QueryAddressState_event_def cb_count_def)
  next
    case 2
    then show ?thesis using assms rearmed_outcome [of st_queryAddress w]
      by (simp add: QueryAddressState_event_def)
  next
    case 3
    then show ?thesis using at_eventD [OF assms]
      by (intro report_outcome [of w RV_address_query_done]) (simp_all add: QueryAddressState_event_def)
  next
    case 4
    then show ?thesis by (intro ignored_outcome [OF assms])
      (auto simp: QueryAddressState_event_def split: Event.splits)
  qed
qed

lemma waitAddressReply_outcome:
  assumes "at_event st_waitAddressReply ev w"
  shows "\<exists>s' w' evs. masterEvent st_waitAddressReply ev w = Inr (s', w', evs) \<and> outcome s' w' evs"
proof -
  consider "ev = timer_timeout" "mw_rxBusy w" | "ev = timer_timeout" "\<not> mw_rxBusy w" | "ev \<noteq> timer_timeout" by blast
  then show ?thesis
  proof cases
    case 1
    then show ?thesis using assms rearmed_outcome [of st_waitAddressReply w]
      by (simp add: WaitAddressReply_event_def)
  next
    case 2
    then show ?thesis using assms replied_outcome by simp
  next
    case 3
    then show ?thesis by (intro ignored_outcome [OF assms])
      (auto simp: WaitAddressReply_event_def split: Event.splits)
  qed
qed

lemma event_outcome:
  assumes "at_event s ev w" and "ev \<noteq> check_new_command" and "\<not> (s = st_startMaster \<and> ev = timer_timeout)"
  shows "\<exists>s' w' evs. masterEvent s ev w = Inr (s', w', evs) \<and> outcome s' w' evs"
proof (cases s)
  case st_idle
  then show ?thesis using assms(2) by (intro ignored_outcome [OF assms(1)])
    (auto simp: Idle_event_def split: Event.splits)
qed (use assms startMaster_outcome sendingToken_outcome waitClientPacketDone_outcome
      queryAddress_outcome waitAddressReply_outcome in auto)

section \<open>Starting an action\<close>

lemma core_ok_tx: "core_ok T n (w\<lparr>mw_tx := q\<rparr>) = core_ok T n w"
  by (rule core_ok_cong) simp_all

text \<open>The command starts a state: the timer of the state is the only thing armed.\<close>

lemma command_move:
  assumes "ready_ok w" and "decodeAction (currentAction w) w = Inr (w1, Some (stateId t), [])"
    and "w1 = w\<lparr>mw_tx := q\<rparr>" and "phase_ok t (ac_action (currentAction w))" and "t \<noteq> st_idle"
  shows "\<exists>s' w' evs. masterEvent st_idle check_new_command w = Inr (s', w', evs) \<and> outcome s' w' evs \<and>
    (evs \<noteq> [] \<longrightarrow> work w' < work w)"
proof -
  have core: "core_ok {#} 0 w" and cbs: "cb_count CB_fsm_timeout w = 0" "cb_count CB_check_new_action w = 0"
    using assms(1) by (simp_all add: ready_ok_def)
  have same: "currentAction w1 = currentAction w" "cb_count cb w1 = cb_count cb w" "core_ok {#} 0 w1" for cb
    using assms(3) core core_ok_tx by (simp_all add: currentAction_def cb_count_def)
  have "rest_ok t (constructState t w1)"
    using same cbs assms(4,5) by (intro construct_ok) simp_all
  moreover have "mf_currentAction (mw_fsm w) = currentAction w"
    using core by (simp add: core_ok_def current_ok_def)
  ultimately show ?thesis using assms(2)
    by (simp add: masterEvent_def Idle_event_def outcome_def)
qed

text \<open>The token of the node's own client, which has nothing to send, is taken back at once.\<close>

lemma command_own_idle:
  assumes "ready_ok w" and "ac_action (currentAction w) = send_token"
    and "ac_address (currentAction w) = mp_clientAddress w" and "mp_txQueueEmpty w"
  shows "\<exists>s' w' evs. masterEvent st_idle check_new_command w = Inr (s', w', evs) \<and> outcome s' w' evs \<and>
    (evs \<noteq> [] \<longrightarrow> work w' < work w)"
proof -
  have core: "core_ok {#} 0 w" and cbs: "cb_count CB_fsm_timeout w = 0" "cb_count CB_check_new_action w = 0"
    using assms(1) by (simp_all add: ready_ok_def)
  have cur: "mf_currentAction (mw_fsm w) = currentAction w"
    using core by (simp add: core_ok_def current_ok_def)
  obtain w1 evs where r: "fsm_reportActionResult RV_rx_token_no_packet w = Inr (w1, evs)" "checked w w1 evs"
    using report_spec [OF core] assms(2) by fastforce
  then have "cb_count CB_fsm_timeout w1 = 0" using cbs by (simp add: checked_def same_env_def)
  then have "outcome st_idle w1 evs" using outcome_checked [OF r(2)] cbs by simp
  moreover have "evs \<noteq> [] \<longrightarrow> work w1 < work w" using r(2) by (auto simp: checked_def split: if_splits)
  ultimately show ?thesis using assms(2-4) r(1) cur
    by (simp add: masterEvent_def Idle_event_def decodeAction_def Let_def)
qed

lemma command_outcome:
  assumes "ready_ok w"
  shows "\<exists>s' w' evs. masterEvent st_idle check_new_command w = Inr (s', w', evs) \<and> outcome s' w' evs \<and>
    (evs \<noteq> [] \<longrightarrow> work w' < work w)"
proof -
  note move = command_move [OF assms]
  show ?thesis
  proof (cases "ac_action (currentAction w)")
    case send_token
    consider "ac_address (currentAction w) \<noteq> mp_clientAddress w"
      | "ac_address (currentAction w) = mp_clientAddress w" "mp_txQueueEmpty w"
      | p ps where "ac_address (currentAction w) = mp_clientAddress w" "tq_txMsg (mw_tx w) = p # ps"
      by (cases "tq_txMsg (mw_tx w)") (auto simp: mp_txQueueEmpty_def txQueueEmpty_def)
    then show ?thesis
    proof cases
      case 1
      then show ?thesis using send_token
        by (intro move [of _ st_sendingToken]) (simp_all add: decodeAction_def sendToken_def Let_def)
    next
      case 2
      then show ?thesis using command_own_idle [OF assms send_token] by blast
    next
      case 3
      then show ?thesis using send_token
        by (intro move [of _ st_waitClientPacketDone])
          (simp_all add: decodeAction_def mp_sendClientPacket_def sendClientPacket_def
            mp_txQueueEmpty_def txQueueEmpty_def Let_def)
    qed
  next
    case query_address
    then show ?thesis by (intro move [of w st_queryAddress "mw_tx w"]) (simp_all add: decodeAction_def)
  next
    case send_master_start
    then show ?thesis by (intro move [of w st_startMaster "mw_tx w"]) (simp_all add: decodeAction_def)
  next
    case do_nothing
    then show ?thesis using assms by (simp add: ready_ok_def doNothing_def)
  qed
qed

section \<open>Inputs\<close>

definition master_inv :: "BusMaster \<Rightarrow> bool" where
  "master_inv m \<longleftrightarrow> (\<exists>s. flat_at masterSetup (stateId s) m \<and> vq_list (m_eventQueue m) = [] \<and> rest_ok s (m_world m))"

lemma settle_idle:
  assumes "flat_at masterSetup (stateId st_idle) m" and "vq_list (m_eventQueue m) = [check_new_command]"
    and "ready_ok (m_world m)"
  shows "\<exists>m'. processQueue masterDescription m = Some (Inr m') \<and> master_inv m'"
  using assms
proof (induction "work (m_world m)" arbitrary: m rule: less_induct)
  case less
  obtain s' w' evs where e: "masterEvent st_idle check_new_command (m_world m) = Inr (s', w', evs)"
    "outcome s' w' evs" "evs \<noteq> [] \<longrightarrow> work w' < work (m_world m)"
    using command_outcome [OF less.prems(3)] by blast
  then have "flat_event masterDescription (stateId st_idle) check_new_command (m_world m) = Inr (stateId s', w', evs)"
    by (simp add: masterEvent_flat del: stateId.simps)
  from mfsm.processQueue_step [OF less.prems(1,2) this]
  obtain m1 where m1: "processQueue masterDescription m = processQueue masterDescription m1"
    "flat_at masterSetup (stateId s') m1" "m_world m1 = w'" "vq_list (m_eventQueue m1) = evs" by auto
  show ?case
  proof (cases "evs = []")
    case True
    then have "rest_ok s' (m_world m1)" using e(2) m1(3) by (simp add: outcome_def)
    then show ?thesis using m1 True mfsm.processQueue_empty [OF m1(2)] by (auto simp: master_inv_def)
  next
    case False
    then have "s' = st_idle" "evs = [check_new_command]" "ready_ok w'" using e(2) by (auto simp: outcome_def)
    then show ?thesis using less.hyps [of m1] m1 e(3) False by simp
  qed
qed

lemma settle:
  assumes "flat_at masterSetup (stateId s) m" and "vq_list (m_eventQueue m) = evs" and "outcome s (m_world m) evs"
  shows "\<exists>m'. processQueue masterDescription m = Some (Inr m') \<and> master_inv m'"
proof (cases "evs = []")
  case True
  then have "rest_ok s (m_world m)" using assms(3) by (simp add: outcome_def)
  then show ?thesis using assms True mfsm.processQueue_empty [OF assms(1)] by (auto simp: master_inv_def)
next
  case False
  then have "s = st_idle" "evs = [check_new_command]" "ready_ok (m_world m)"
    using assms(3) by (auto simp: outcome_def)
  then show ?thesis using settle_idle assms(1,2) by blast
qed

lemma post_ok:
  assumes "flat_at masterSetup (stateId s) m" and "vq_list (m_eventQueue m) = []"
    and "at_event s ev (m_world m)" and "ev \<noteq> check_new_command" and "\<not> (s = st_startMaster \<and> ev = timer_timeout)"
  shows "\<exists>m'. postEvent masterDescription ev m = Some (Inr m') \<and> master_inv m'"
proof -
  obtain m1 where m1: "postEvent masterDescription ev m = processQueue masterDescription m1"
    "flat_at masterSetup (stateId s) m1" "m_world m1 = m_world m" "vq_list (m_eventQueue m1) = [ev]"
    using mfsm.postEvent_idle [OF assms(1,2), of ev] by blast
  obtain s' w' evs where e: "masterEvent s ev (m_world m1) = Inr (s', w', evs)" "outcome s' w' evs"
    using event_outcome [OF assms(3-5)] m1(3) by auto
  then have "flat_event masterDescription (stateId s) ev (m_world m1) = Inr (stateId s', w', evs)"
    by (simp add: masterEvent_flat)
  from mfsm.processQueue_step [OF m1(2,4) this]
  obtain m2 where m2: "processQueue masterDescription m1 = processQueue masterDescription m2"
    "flat_at masterSetup (stateId s') m2" "m_world m2 = w'" "vq_list (m_eventQueue m2) = evs" by auto
  then show ?thesis using settle [OF m2(2,4)] e(2) m1(1) by simp
qed

lemma post_received:
  assumes "master_inv m" and "ev \<notin> {check_new_command, timer_timeout}"
  shows "\<exists>m'. postEvent masterDescription ev m = Some (Inr m') \<and> master_inv m'"
proof -
  obtain s where "flat_at masterSetup (stateId s) m" "vq_list (m_eventQueue m) = []" "rest_ok s (m_world m)"
    using assms(1) by (auto simp: master_inv_def)
  then show ?thesis using assms(2) by (intro post_ok [of s]) (auto simp: at_event_def rest_ok_def)
qed

lemma packet_ok:
  assumes "master_inv m"
  shows "\<exists>m'. masterPacketReceived type packet m = Some (Inr m') \<and> master_inv m'"
proof (cases type)
  case None
  then show ?thesis using assms by (simp add: masterPacketReceived_def)
next
  case (Some mt)
  then show ?thesis using assms post_received [OF assms]
    by (cases mt) (simp_all add: masterPacketReceived_def toHeader_def)
qed

text \<open>A timer that fires has left the loop.\<close>

lemma core_ok_fired:
  assumes "core_ok {#} 0 w" and "(i, cb) \<in> ts_callbacks (mw_ts w)" and "w' = w\<lparr>mw_ts := td_cancel i (mw_ts w)\<rparr>"
  shows "core_ok {#} (if cb = CB_query_address then 1 else 0) w' \<and> currentAction w' = currentAction w \<and>
    cb_count cb' w' + (if cb' = cb then 1 else 0) = cb_count cb' w"
proof -
  have inv: "ts_inv (mw_ts w)" using assms(1) by (simp add: core_ok_def timers_ok_def)
  have cbs: "cb_count cb' w' + (if cb' = cb then 1 else 0) = cb_count cb' w" for cb'
    using cb_count_cancel [OF inv assms(2)] assms(3) by simp
  have cur: "currentAction w' = currentAction w" by (simp add: assms(3) currentAction_def)
  then have flight: "inFlight w' = inFlight w" by (simp add: inFlight_def assms(3))
  have "queries w' + (if cb = CB_query_address then 1 else 0) = queries w"
    using cbs [of CB_query_address] flight by (auto simp: queries_def)
  moreover have "tokens w' = tokens w" "tableAddresses w' = tableAddresses w" "mw_dh w' = mw_dh w"
    using flight by (simp_all add: tokens_def tableAddresses_def assms(3))
  ultimately have "books_ok {#} (if cb = CB_query_address then 1 else 0) w'"
    using assms(1) by (simp add: core_ok_def books_ok_def)
  moreover have "timers_ok w'"
  proof -
    have "set (ts_pending (td_cancel i (mw_ts w))) \<subseteq> set (ts_pending (mw_ts w))"
      "ts_nextId (td_cancel i (mw_ts w)) = ts_nextId (mw_ts w)" by (auto simp: td_cancel_def)
    then show ?thesis using assms(1) by (auto simp: assms(3) core_ok_def timers_ok_def)
  qed
  moreover have "sched_ok w' \<and> current_ok w'"
    using assms(1) by (simp add: assms(3) core_ok_def sched_ok_def current_ok_def currentAction_def)
  ultimately show ?thesis using cbs cur by (simp add: core_ok_def)
qed

lemma query_fired:
  assumes "core_ok {#} 1 w"
  shows "core_ok {#} 0 (postActionNow makeQueryAddressAction w)"
proof -
  let ?a = "makeQueryAddressAction" and ?w' = "postActionNow makeQueryAddressAction w"
  have a: "\<not> doNothing ?a" "ac_action ?a = query_address"
    by (simp_all add: makeQueryAddressAction_def mkAction_def doNothing_def)
  have "sched_ok w" using assms by (simp add: core_ok_def)
  note post = postActionNow_spec [OF this a(1)]
  have "tokens ?w' = tokens w" "queries ?w' = Suc (queries w)" "tableAddresses ?w' = tableAddresses w"
    using post(2) a by (simp_all add: tokens_def queries_def tableAddresses_def cb_count_def)
  then have "books_ok {#} 0 ?w'" using assms by (simp add: core_ok_def books_ok_def)
  moreover have "timers_ok ?w' \<and> current_ok ?w'"
    using assms by (simp add: core_ok_def timers_ok_def current_ok_def)
  ultimately show ?thesis using post(1) by (simp add: core_ok_def)
qed

lemma timerFired_none: "fst (td_cb i (mw_ts (m_world m))) = None \<Longrightarrow> timerFired i m = Some (Inr m)"
  by (auto simp: timerFired_def split: prod.splits)

lemma flat_at_world [simp]: "flat_at tbl i (m\<lparr>m_world := w\<rparr>) = flat_at tbl i m"
  by (simp add: flat_at_def)

lemma runCheckNewAction_ok:
  assumes "flat_at masterSetup (stateId st_idle) m" and "vq_list (m_eventQueue m) = []"
    and "core_ok {#} 0 (m_world m)" and "doNothing (currentAction (m_world m))"
    and "cb_count CB_fsm_timeout (m_world m) = 0" and "cb_count CB_check_new_action (m_world m) = 0"
  shows "\<exists>m'. runCheckNewAction m = Some (Inr m') \<and> master_inv m'"
proof -
  obtain w' evs where c: "checkNewAction (m_world m) = Inr (w', evs)" "checked (m_world m) w' evs"
    using checkNewAction_spec [OF assms(3,4)] by blast
  then have "cb_count CB_fsm_timeout w' = 0" using assms(5) by (simp add: checked_def same_env_def)
  then have out: "outcome st_idle w' evs" using outcome_checked [OF c(2)] assms(6) by simp
  let ?m = "m\<lparr>m_world := w'\<rparr>"
  have flat: "flat_at masterSetup (stateId st_idle) ?m" "vq_list (m_eventQueue ?m) = []"
    using assms(1,2) by simp_all
  show ?thesis
  proof (cases "evs = []")
    case True
    then have "master_inv ?m" using flat out unfolding master_inv_def
      by (intro exI [of _ st_idle]) (simp add: outcome_def)
    then show ?thesis using c(1) True by (simp add: runCheckNewAction_def)
  next
    case False
    then have evs: "evs = [check_new_command]" "ready_ok w'" using out by (auto simp: outcome_def)
    obtain m1 where "postEvent masterDescription check_new_command ?m = processQueue masterDescription m1"
      "flat_at masterSetup (stateId st_idle) m1" "m_world m1 = w'" "vq_list (m_eventQueue m1) = [check_new_command]"
      using mfsm.postEvent_idle [OF flat] by auto
    then obtain m' where "postEvent masterDescription check_new_command ?m = Some (Inr m')" "master_inv m'"
      using settle_idle [of m1] evs(2) by auto
    then show ?thesis using c(1) evs(1) by (simp add: runCheckNewAction_def)
  qed
qed

lemma stateId_inject [simp]: "stateId a = stateId b \<longleftrightarrow> a = b"
  by (metis option.inject stateOf_stateId)

lemma inState_flat: "flat_at masterSetup (stateId s) m \<Longrightarrow> inState t m \<longleftrightarrow> t = s"
  by (auto simp: inState_def flat_at_def masterStateInfo_def)

lemma fsm_timeout_ok:
  assumes "flat_at masterSetup (stateId s) m" and "vq_list (m_eventQueue m) = []"
    and "at_event s timer_timeout (m_world m)"
  shows "if s = st_startMaster then timerCallback CB_fsm_timeout m = Some (Inl Assert_Failed)
    else \<exists>m'. timerCallback CB_fsm_timeout m = Some (Inr m') \<and> master_inv m'"
proof (cases "s = st_startMaster")
  case False
  then show ?thesis using post_ok [OF assms(1,2), of timer_timeout] assms(3) by simp
next
  case True
  have "ac_hasReportCB (mf_currentAction (mw_fsm (m_world m)))"
    using assms(3) True by (auto simp: at_event_def core_ok_def current_ok_def doNothing_def)
  then have "fd_event masterDescription (stateId s) timer_timeout (m_world m) = Inl Assert_Failed"
    using True by (simp add: masterDescription_def MasterStart_event_def reportAndIdle_def
        fsm_reportActionResult_def ah_reportActionResult_def)
  from mfsm.postEvent_err [OF assms(1,2) this] show ?thesis using True by simp
qed

lemma query_timeout_ok:
  assumes "flat_at masterSetup (stateId s) m" and "vq_list (m_eventQueue m) = []" and "rest_ok s w"
    and "core_ok {#} 1 (m_world m)" and "currentAction (m_world m) = currentAction w"
    and "\<And>cb. cb \<noteq> CB_query_address \<Longrightarrow> cb_count cb (m_world m) = cb_count cb w"
  shows "\<exists>m'. timerCallback CB_query_address m = Some (Inr m') \<and> master_inv m'"
proof -
  let ?w2 = "postActionNow makeQueryAddressAction (m_world m)"
  have "cb_count CB_fsm_timeout ?w2 = cb_count CB_fsm_timeout w"
    "cb_count CB_check_new_action ?w2 = cb_count CB_check_new_action w"
    using assms(6) [of CB_fsm_timeout] assms(6) [of CB_check_new_action] by (simp_all add: cb_count_def)
  then have "rest_ok s ?w2" using assms(3,5) query_fired [OF assms(4)] by (simp add: rest_ok_def)
  then have "master_inv (m\<lparr>m_world := ?w2\<rparr>)" using assms(1,2) unfolding master_inv_def by auto
  then show ?thesis by simp
qed

lemma timer_ok:
  assumes "flat_at masterSetup (stateId s) m" and "vq_list (m_eventQueue m) = []" and "rest_ok s (m_world m)"
  shows "if s = st_startMaster \<and> (i, CB_fsm_timeout) \<in> ts_callbacks (mw_ts (m_world m))
    then timerFired i m = Some (Inl Assert_Failed)
    else \<exists>m'. timerFired i m = Some (Inr m') \<and> master_inv m'"
proof (cases "fst (td_cb i (mw_ts (m_world m)))")
  case None
  have "master_inv m" using assms unfolding master_inv_def by blast
  moreover have "(i, cb) \<notin> ts_callbacks (mw_ts (m_world m))" for cb
    using None by (auto simp: td_cb_def ts_callbacks_def find_None_iff split: option.splits)
  ultimately show ?thesis using timerFired_none [OF None] by simp
next
  case (Some cb)
  let ?w = "m_world m" and ?w' = "(m_world m)\<lparr>mw_ts := td_cancel i (mw_ts (m_world m))\<rparr>"
  let ?m = "m\<lparr>m_world := ?w'\<rparr>"
  have core: "core_ok {#} 0 ?w" using assms(3) by (simp add: rest_ok_def)
  then have "ts_inv (mw_ts ?w)" by (simp add: core_ok_def timers_ok_def)
  then have cb: "(i, cb) \<in> ts_callbacks (mw_ts ?w)" "td_cb i (mw_ts ?w) = (Some cb, td_cancel i (mw_ts ?w))"
    using Some td_cb_Some [of "mw_ts ?w" i cb "snd (td_cb i (mw_ts ?w))"] by (auto simp: prod_eq_iff)
  then have fire: "timerFired i m = timerCallback cb ?m" by (simp add: timerFired_def)
  note fired = core_ok_fired [OF core cb(1) refl]
  have count: "cb_count cb' ?w' + (if cb' = cb then 1 else 0) = cb_count cb' ?w" for cb'
    using fired by blast
  have only: "(i, CB_fsm_timeout) \<in> ts_callbacks (mw_ts ?w) \<longleftrightarrow> cb = CB_fsm_timeout"
    using ts_callbacks_unique [OF \<open>ts_inv (mw_ts ?w)\<close>] cb(1) by blast
  have flat: "flat_at masterSetup (stateId s) ?m" "vq_list (m_eventQueue ?m) = []" using assms by simp_all
  show ?thesis
  proof (cases cb)
    case CB_fsm_timeout
    have s: "s \<noteq> st_idle" using count [of CB_fsm_timeout] CB_fsm_timeout assms(3) by (auto simp: rest_ok_def)
    then have "at_event s timer_timeout (m_world ?m)"
      using fired count [of CB_fsm_timeout] count [of CB_check_new_action] assms(3) CB_fsm_timeout
      by (simp add: at_event_def rest_ok_def)
    from fsm_timeout_ok [OF flat this] show ?thesis using fire CB_fsm_timeout only by (simp split: if_splits)
  next
    case CB_check_new_action
    then have s: "s = st_idle" "doNothing (currentAction ?w)"
      using count [of CB_check_new_action] assms(3) by (auto simp: rest_ok_def split: if_splits)
    have "\<exists>m'. runCheckNewAction ?m = Some (Inr m') \<and> master_inv m'"
      using flat fired s CB_check_new_action assms(3) count [of CB_fsm_timeout] count [of CB_check_new_action]
      by (intro runCheckNewAction_ok) (simp_all add: rest_ok_def)
    then show ?thesis using fire CB_check_new_action only by simp
  next
    case CB_query_address
    have "cb' \<noteq> CB_query_address \<Longrightarrow> cb_count cb' (m_world ?m) = cb_count cb' ?w" for cb'
      using count [of cb'] CB_query_address by simp
    then show ?thesis
      using query_timeout_ok [OF flat assms(3)] fired fire CB_query_address only by simp
  qed
qed

section \<open>All inputs\<close>

lemma rest_ok_cong:
  assumes "mw_ts w' = mw_ts w" "mw_ah w' = mw_ah w" "mw_dh w' = mw_dh w" "mw_fsm w' = mw_fsm w"
  shows "rest_ok s w' = rest_ok s w"
  using core_ok_cong [OF assms] by (simp add: rest_ok_def)

lemma rest_ok_advance:
  assumes "rest_ok s w" and "0 \<le> dt"
  shows "rest_ok s (w\<lparr>mw_ts := ts_advance dt (mw_ts w)\<rparr>)"
proof -
  let ?w = "w\<lparr>mw_ts := ts_advance dt (mw_ts w)\<rparr>"
  have core: "core_ok {#} 0 w" using assms(1) by (simp add: rest_ok_def)
  have cbs: "cb_count cb ?w = cb_count cb w" for cb by (simp add: cb_count_def ts_advance_def)
  have cur: "currentAction ?w = currentAction w" by (simp add: currentAction_def)
  have "books_ok {#} 0 ?w" using core cbs books_ok_cong [of ?w w] by (simp add: core_ok_def inFlight_def cur)
  moreover have "timers_ok ?w" using core assms(2) by (auto simp: core_ok_def timers_ok_def ts_advance_def ts_inv_def)
  moreover have "sched_ok ?w" using core assms(2) by (fastforce simp: core_ok_def sched_ok_def)
  moreover have "current_ok ?w" using core by (simp add: core_ok_def current_ok_def cur)
  ultimately show ?thesis using assms(1) cbs cur by (simp add: rest_ok_def core_ok_def)
qed

text \<open>Every input is processed to the end; the only failure is the timeout of \<open>startMaster\<close>.\<close>

lemma step_ok:
  assumes "master_inv m"
  shows "(\<exists>m'. masterStep inp m = Some (Inr m') \<and> master_inv m') \<or>
    (masterStep inp m = Some (Inl Assert_Failed) \<and> inState st_startMaster m \<and>
     (\<exists>i. inp = Timer_Fires i \<and> (i, CB_fsm_timeout) \<in> ts_callbacks (mw_ts (m_world m))))"
proof -
  obtain s where s: "flat_at masterSetup (stateId s) m" "vq_list (m_eventQueue m) = []" "rest_ok s (m_world m)"
    using assms by (auto simp: master_inv_def)
  have keep: "master_inv (m\<lparr>m_world := w\<rparr>)" if "rest_ok s w" for w
    using s that unfolding master_inv_def by auto
  show ?thesis
  proof (cases inp)
    case (Rx_Packet type packet)
    then show ?thesis using packet_ok [OF assms] by simp
  next
    case (Timer_Fires i)
    then show ?thesis using timer_ok [OF s, of i] inState_flat [OF s(1)] by (auto split: if_splits)
  next
    case (Time_Passes dt)
    then show ?thesis using keep rest_ok_advance [OF s(3), of "\<bar>dt\<bar>"] by simp
  next
    case (Client_Changes q)
    then show ?thesis using keep s(3) rest_ok_cong [of "(m_world m)\<lparr>mw_tx := q\<rparr>" "m_world m"] by simp
  next
    case (Rx_Busy b)
    then show ?thesis using keep s(3) rest_ok_cong [of "(m_world m)\<lparr>mw_rxBusy := b\<rparr>" "m_world m"] by simp
  next
    case Exit_Master
    then show ?thesis using keep s(3) rest_ok_cong [of "sendMasterStop (m_world m)" "m_world m"]
      by (simp add: exitMaster_def sendMasterStop_def)
  qed
qed

section \<open>Construction\<close>

lemma addStaticLine_spec:
  assumes "sched_ok w"
  shows "sched_ok (addStaticLine uninit i w)"
    and "inFlight (addStaticLine uninit i w) =
      add_mset ((makeSendTokenAction (toLocalAddress_int i))\<lparr>ac_hasReportCB := True\<rparr>) (inFlight w)"
    and "dh_table (mw_dh (addStaticLine uninit i w)) = dh_table (mw_dh w) @
      [mkAddressLine (uninit (toLocalAddress_int i)) (toLocalAddress_int i)]"
    and "dh_freeAddresses (mw_dh (addStaticLine uninit i w)) = dh_freeAddresses (mw_dh w)"
    and "mw_ts (addStaticLine uninit i w) = mw_ts w" "mw_fsm (addStaticLine uninit i w) = mw_fsm w"
    and "currentAction (addStaticLine uninit i w) = currentAction w"
proof -
  let ?a = "makeSendTokenAction (toLocalAddress_int i)"
  let ?w = "w\<lparr>mw_dh := (mw_dh w)\<lparr>dh_table := dh_table (mw_dh w) @
      [mkAddressLine (uninit (toLocalAddress_int i)) (toLocalAddress_int i)]\<rparr>\<rparr>"
  have a: "\<not> doNothing ?a" by (simp add: makeSendTokenAction_def mkAction_def doNothing_def)
  have "sched_ok ?w" "inFlight ?w = inFlight w"
    using assms by (simp_all add: sched_ok_def inFlight_def currentAction_def)
  with postActionNow_spec [OF this(1) a] show "sched_ok (addStaticLine uninit i w)"
    and "inFlight (addStaticLine uninit i w) = add_mset (?a\<lparr>ac_hasReportCB := True\<rparr>) (inFlight w)"
    by (simp_all add: addStaticLine_def)
qed (simp_all add: addStaticLine_def currentAction_def postActionNow_def)

lemma addStaticLines_spec:
  assumes "sched_ok w" and "w' = fold (addStaticLine uninit) is w"
  shows "sched_ok w' \<and> tokens w' = mset (map toLocalAddress_int is) + tokens w \<and>
    size (filter_mset (\<lambda>a. ac_action a = query_address) (inFlight w')) =
      size (filter_mset (\<lambda>a. ac_action a = query_address) (inFlight w)) \<and>
    dh_table (mw_dh w') = dh_table (mw_dh w) @
      map (\<lambda>i. mkAddressLine (uninit (toLocalAddress_int i)) (toLocalAddress_int i)) is \<and>
    dh_freeAddresses (mw_dh w') = dh_freeAddresses (mw_dh w) \<and>
    mw_ts w' = mw_ts w \<and> mw_fsm w' = mw_fsm w \<and> currentAction w' = currentAction w"
  using assms
proof (induction "is" arbitrary: w)
  case Nil
  then show ?case by simp
next
  case (Cons i "is")
  note one = addStaticLine_spec [OF Cons.prems(1), of uninit i]
  show ?case using Cons.IH [OF one(1)] Cons.prems(2) one
    by (simp add: tokens_def makeSendTokenAction_def mkAction_def)
qed

text \<open>The objects before the first check for work: with the static rows, and complete.\<close>

definition staticWorld :: "(LocalAddress \<Rightarrow> UniqueId) \<Rightarrow> time \<Rightarrow> TxQueue \<Rightarrow> bool \<Rightarrow> MasterWorld" where
  "staticWorld uninit now tx busy =
     fold (addStaticLine uninit) [staticLowAddress .. staticHighAddress]
       (postActionNow makeMasterStartAction (mkMasterWorld (mkTimeService now) tx busy))"

definition startWorld :: "(LocalAddress \<Rightarrow> UniqueId) \<Rightarrow> time \<Rightarrow> TxQueue \<Rightarrow> bool \<Rightarrow> MasterWorld" where
  "startWorld uninit now tx busy =
     dh_start uninit (postActionNow makeMasterStartAction (mkMasterWorld (mkTimeService now) tx busy))"

lemma staticWorld_spec:
  assumes "w = staticWorld uninit now tx busy"
  shows "sched_ok w" and "tokens w = mset (map toLocalAddress_int [staticLowAddress .. staticHighAddress])"
    and "size (filter_mset (\<lambda>a. ac_action a = query_address) (inFlight w)) = 0"
    and "dh_table (mw_dh w) = map (\<lambda>i. mkAddressLine (uninit (toLocalAddress_int i)) (toLocalAddress_int i))
           [staticLowAddress .. staticHighAddress]"
    and "dh_freeAddresses (mw_dh w) = []" and "mw_ts w = mkTimeService now" and "mf_timer (mw_fsm w) = None"
    and "currentAction w = makeDoNothingAction" and "mf_currentAction (mw_fsm w) = makeDoNothingAction"
proof -
  let ?w0 = "mkMasterWorld (mkTimeService now) tx busy"
  let ?w1 = "postActionNow makeMasterStartAction ?w0"
  have init: "sched_ok ?w0" "inFlight ?w0 = {#}" "currentAction ?w0 = makeDoNothingAction"
    by (simp_all add: sched_ok_def inFlight_def currentAction_def mkMasterWorld_def mkActionHandler_def
        doNothing_def makeDoNothingAction_def mkAction_def) (simp add: mkMasterScheduler_def)
  have a: "\<not> doNothing makeMasterStartAction" by (simp add: makeMasterStartAction_def mkAction_def doNothing_def)
  note s1 = postActionNow_spec [OF init(1) a]
  have t1: "tokens ?w1 = {#}" "size (filter_mset (\<lambda>a. ac_action a = query_address) (inFlight ?w1)) = 0"
    using s1(2) init(2) by (simp_all add: tokens_def makeMasterStartAction_def mkAction_def)
  note s2 = addStaticLines_spec [OF s1(1) assms [unfolded staticWorld_def]]
  show "sched_ok w" and "tokens w = mset (map toLocalAddress_int [staticLowAddress .. staticHighAddress])"
    and "size (filter_mset (\<lambda>a. ac_action a = query_address) (inFlight w)) = 0"
    using s2 t1 by simp_all
  show "dh_table (mw_dh w) = map (\<lambda>i. mkAddressLine (uninit (toLocalAddress_int i)) (toLocalAddress_int i))
           [staticLowAddress .. staticHighAddress]" "dh_freeAddresses (mw_dh w) = []"
    using s2 by (simp_all add: mkMasterWorld_def mkDynamicHandler_def)
  show "mw_ts w = mkTimeService now" "mf_timer (mw_fsm w) = None" "currentAction w = makeDoNothingAction"
    "mf_currentAction (mw_fsm w) = makeDoNothingAction"
    using s2 init(3) by (simp_all add: mkMasterWorld_def mkMasterFSM_def)
qed

lemma startWorld_ok:
  assumes "1 \<le> now" and "w' = startWorld uninit now tx busy"
  shows "core_ok {#} 0 w' \<and> doNothing (currentAction w') \<and> cb_count cb w' = 0"
proof -
  let ?r = "[staticLowAddress .. staticHighAddress]" and ?d = "[dynamicLowAddress .. dynamicHighAddress]"
  define w2 where "w2 = staticWorld uninit now tx busy"
  note s2 = staticWorld_spec [OF w2_def]
  define w3 where "w3 = w2\<lparr>mw_dh := (mw_dh w2)\<lparr>dh_freeAddresses := map toLocalAddress_int (rev ?d)\<rparr>\<rparr>"
  have idle: "doNothing makeDoNothingAction" by (simp add: makeDoNothingAction_def mkAction_def doNothing_def)
  have same: "currentAction w3 = currentAction w2" "mw_ts w3 = mw_ts w2" "mw_fsm w3 = mw_fsm w2"
    "dh_table (mw_dh w3) = dh_table (mw_dh w2)" "mw_ah w3 = mw_ah w2"
    by (simp_all add: w3_def currentAction_def)
  then have flight: "inFlight w3 = inFlight w2" by (simp add: inFlight_def)
  have cbs: "cb_count cb w3 = 0" for cb using same(2) s2(6) by (simp add: cb_count_def mkTimeService_def)
  have "tokens w3 = mset (map toLocalAddress_int ?r)" "queries w3 = 0"
    using flight s2(2,3) cbs by (simp_all add: tokens_def queries_def)
  moreover have rows: "filter al_isDynamic (dh_table (mw_dh w3)) = []"
    "filter (\<lambda>l. \<not> al_isDynamic l) (dh_table (mw_dh w3)) = dh_table (mw_dh w3)"
    "map al_address (dh_table (mw_dh w3)) = map toLocalAddress_int ?r"
    by (simp_all add: same(4) s2(4) mkAddressLine_def filter_empty_conv filter_id_conv)
  moreover have "tableAddresses w3 = mset (map toLocalAddress_int ?r)"
    unfolding tableAddresses_def rows(3) ..
  moreover have "mset (map toLocalAddress_int ?r) + mset (dh_freeAddresses (mw_dh w3)) = mset allAddresses"
    by (simp add: w3_def allAddresses_def)
  ultimately have "books_ok {#} 1 w3" by (simp add: books_ok_def uids_ok_def)
  moreover have "sched_ok w3" using s2(1) same by (simp add: sched_ok_def)
  moreover have "timers_ok w3" using assms(1) same s2(6,7) by (simp add: timers_ok_def) (simp add: mkTimeService_def)
  moreover have "current_ok w3" using same s2(8,9) idle by (simp add: current_ok_def)
  ultimately have "core_ok {#} 1 w3" by (simp add: core_ok_def)
  moreover have "w' = postActionNow makeQueryAddressAction w3"
    using s2(5) unfolding assms(2) startWorld_def dh_start_def Let_def w3_def w2_def staticWorld_def
    by (simp add: mkMasterWorld_def mkDynamicHandler_def)
  ultimately show ?thesis using query_fired [of w3] same s2(8) idle cbs by (simp add: cb_count_def)
qed

lemma mkMaster_ok:
  assumes "1 \<le> now"
  shows "\<exists>m. mkMaster uninit now tx busy = Some (Inr m) \<and> master_inv m"
proof -
  define w where "w = startWorld uninit now tx busy"
  note ok = startWorld_ok [OF assms w_def]
  have "fd_construct masterDescription (stateId st_idle) w = Inr (w, None)" by (simp add: masterDescription_def)
  from mfsm.setStartState_flat [OF findState_stateId _ this]
  obtain m where m: "setStartState masterDescription (stateId st_idle) (mkFsmBase masterSetup w) = Some (Inr m)"
    "flat_at masterSetup (stateId st_idle) m" "m_world m = w" "vq_list (m_eventQueue m) = []"
    by (auto simp: masterSetup_def)
  have "\<exists>m'. runCheckNewAction m = Some (Inr m') \<and> master_inv m'"
    using m ok by (intro runCheckNewAction_ok) simp_all
  then show ?thesis using m(1)
    by (simp add: mkMaster_def masterSetupResult_eq w_def startWorld_def Let_def)
qed

lemma reachable_inv: "reachable m \<Longrightarrow> master_inv m"
proof (induction rule: reachable.induct)
  case (start now uninit tx busy m)
  then show ?case using mkMaster_ok [OF start(1), of uninit tx busy] by auto
next
  case (step m inp m')
  then show ?case using step_ok [OF step.IH, of inp] by auto
qed

section \<open>The stalled machine\<close>

text \<open>In \<open>idle\<close> every event but \<open>check_new_command\<close> is dropped.\<close>

lemma idle_ignores:
  assumes "flat_at masterSetup (stateId st_idle) m" and "vq_list (m_eventQueue m) = []" and "ev \<noteq> check_new_command"
  shows "\<exists>m'. postEvent masterDescription ev m = Some (Inr m') \<and> m_world m' = m_world m \<and>
    flat_at masterSetup (stateId st_idle) m'"
proof -
  obtain m1 where m1: "postEvent masterDescription ev m = processQueue masterDescription m1"
    "flat_at masterSetup (stateId st_idle) m1" "m_world m1 = m_world m" "vq_list (m_eventQueue m1) = [ev]"
    using mfsm.postEvent_idle [OF assms(1,2), of ev] by blast
  have "masterEvent st_idle ev (m_world m1) = Inr (st_idle, m_world m1, [])"
    using assms(3) by (auto simp: masterEvent_def Idle_event_def split: Event.splits)
  then have "flat_event masterDescription (stateId st_idle) ev (m_world m1) = Inr (stateId st_idle, m_world m1, [])"
    by (simp add: masterEvent_flat del: stateId.simps)
  from mfsm.processQueue_step [OF m1(2,4) this]
  obtain m2 where m2: "processQueue masterDescription m1 = processQueue masterDescription m2"
    "flat_at masterSetup (stateId st_idle) m2" "m_world m2 = m_world m1" "vq_list (m_eventQueue m2) = []" by auto
  then show ?thesis using m1 mfsm.processQueue_empty [OF m2(2,4)] by auto
qed

lemma stalled_timer:
  assumes "flat_at masterSetup (stateId st_idle) m" and "rest_ok st_idle (m_world m)"
    and "\<not> doNothing (currentAction (m_world m))"
  shows "\<exists>m'. timerFired i m = Some (Inr m') \<and> flat_at masterSetup (stateId st_idle) m' \<and>
    currentAction (m_world m') = currentAction (m_world m) \<and> mw_tx (m_world m') = mw_tx (m_world m)"
proof (cases "fst (td_cb i (mw_ts (m_world m)))")
  case None
  then show ?thesis using assms(1) timerFired_none by blast
next
  case (Some cb)
  let ?ts = "mw_ts (m_world m)"
  have "ts_inv ?ts" using assms(2) by (simp add: rest_ok_def core_ok_def timers_ok_def)
  then have cb: "(i, cb) \<in> ts_callbacks ?ts" "td_cb i ?ts = (Some cb, td_cancel i ?ts)"
    using Some td_cb_Some [of ?ts i cb "snd (td_cb i ?ts)"] by (auto simp: prod_eq_iff)
  have "cb_count cb (m_world m) \<noteq> 0"
    using cb(1) by (auto simp: cb_count_def ts_callbacks_def filter_empty_conv)
  then have "cb = CB_query_address" using assms(2,3) by (cases cb) (auto simp: rest_ok_def)
  then have "timerFired i m = Some (Inr (m\<lparr>m_world := postActionNow makeQueryAddressAction
      ((m_world m)\<lparr>mw_ts := td_cancel i ?ts\<rparr>)\<rparr>))"
    using cb(2) by (simp add: timerFired_def)
  then show ?thesis using assms(1) by (simp add: currentAction_def postActionNow_def)
qed

text \<open>Whatever happens, a stalled master stays stalled and sends nothing of its own accord.\<close>

lemma stalled_step:
  assumes "flat_at masterSetup (stateId st_idle) m" and "vq_list (m_eventQueue m) = []"
    and "rest_ok st_idle (m_world m)" and "\<not> doNothing (currentAction (m_world m))"
  shows "\<exists>m'. masterStep inp m = Some (Inr m') \<and> flat_at masterSetup (stateId st_idle) m' \<and>
    currentAction (m_world m') = currentAction (m_world m) \<and>
    ((\<exists>q. inp = Client_Changes q) \<or> inp = Exit_Master \<or> mw_tx (m_world m') = mw_tx (m_world m))"
proof (cases inp)
  case (Rx_Packet type packet)
  note ign = idle_ignores [OF assms(1,2)]
  show ?thesis
  proof (cases type)
    case None
    then show ?thesis using Rx_Packet assms(1) by (simp add: masterPacketReceived_def)
  next
    case (Some mt)
    then show ?thesis using Rx_Packet assms(1) ign [of rx_pkt_grant_token] ign [of rx_return_token]
        ign [of rx_pkt_client_packet] ign [of rx_pkt_master_start_stop] ign [of "rx_pkt_address_request (layout_AddressRequest packet)"]
      by (cases mt) (auto simp: masterPacketReceived_def toHeader_def)
  qed
next
  case (Timer_Fires i)
  then show ?thesis using stalled_timer [OF assms(1,3,4), of i] by auto
qed (use assms(1) in \<open>simp_all add: exitMaster_def sendMasterStop_def currentAction_def\<close>)

lemma lost_token_step:
  assumes "flat_at masterSetup (stateId st_sendingToken) m" and "vq_list (m_eventQueue m) = []"
    and "rest_ok st_sendingToken (m_world m)" and "(i, CB_fsm_timeout) \<in> ts_callbacks (mw_ts (m_world m))"
  shows "\<exists>m'. timerFired i m = Some (Inr m') \<and> flat_at masterSetup (stateId st_idle) m' \<and>
    \<not> doNothing (currentAction (m_world m')) \<and> mw_tx (m_world m') = mw_tx (m_world m)"
proof -
  let ?w = "m_world m" and ?w' = "(m_world m)\<lparr>mw_ts := td_cancel i (mw_ts (m_world m))\<rparr>"
  let ?m = "m\<lparr>m_world := ?w'\<rparr>"
  have core: "core_ok {#} 0 ?w" and inv: "ts_inv (mw_ts ?w)"
    using assms(3) by (auto simp: rest_ok_def core_ok_def timers_ok_def)
  have "td_active i (mw_ts ?w)" using assms(4) by (force simp: td_active_def ts_callbacks_def)
  then obtain cb where cb: "td_cb i (mw_ts ?w) = (Some cb, td_cancel i (mw_ts ?w))" using td_cb_active by blast
  then have "cb = CB_fsm_timeout" using td_cb_Some(1) [OF inv cb] ts_callbacks_unique [OF inv _ assms(4)] by blast
  then have fire: "timerFired i m = postEvent masterDescription timer_timeout ?m" using cb by (simp add: timerFired_def)
  note fired = core_ok_fired [OF core assms(4) refl]
  have at: "at_event st_sendingToken timer_timeout ?w'"
    using fired [of CB_fsm_timeout] fired [of CB_check_new_action] assms(3) by (simp add: at_event_def rest_ok_def)
  obtain m1 where m1: "postEvent masterDescription timer_timeout ?m = processQueue masterDescription m1"
    "flat_at masterSetup (stateId st_sendingToken) m1" "m_world m1 = ?w'" "vq_list (m_eventQueue m1) = [timer_timeout]"
    using mfsm.postEvent_idle [of "stateId st_sendingToken" ?m timer_timeout] assms(1,2) by auto
  have "flat_event masterDescription (stateId st_sendingToken) timer_timeout (m_world m1) = Inr (stateId st_idle, cleanTimer ?w', [])"
    using stalled_outcome [OF at] m1(3) by (simp add: masterEvent_flat del: stateId.simps)
  from mfsm.processQueue_step [OF m1(2,4) this]
  obtain m2 where m2: "processQueue masterDescription m1 = processQueue masterDescription m2"
    "flat_at masterSetup (stateId st_idle) m2" "m_world m2 = cleanTimer ?w'" "vq_list (m_eventQueue m2) = []" by auto
  have "currentAction (m_world m2) = currentAction ?w'" "mw_tx (m_world m2) = mw_tx ?w"
    using core_ok_cleanTimer [of "{#}" 0 ?w'] cleanTimer_spec(6) [of ?w'] at m2(3) by (auto simp: at_event_def core_ok_def)
  then show ?thesis using fire m1(1) m2 mfsm.processQueue_empty [OF m2(2,4)] at
    by (auto simp: at_event_def doNothing_def)
qed

end
