(* ===== verification/Master_Correct.thy ===== *)
theory Master_Correct
  imports Master_Invariant
begin

text \<open>
  What the bus master guarantees, for every state it can reach: no crash and no endless
  processing, one token per address, unique assignment of addresses, bounded polling, and the
  two situations in which the code gives up. The examples are runs of the model.
\<close>

section \<open>Example runs\<close>

definition exampleStart :: "BusMaster result option" where
  "exampleStart = mkMaster (\<lambda>_. [0, 0, 0, 0, 0, 0, 0, 0]) 1 (mkTxQueue 9) False"

definition exampleRun :: "bus_input list \<Rightarrow> BusMaster result option" where
  "exampleRun inps = Option.bind exampleStart
     (\<lambda>r. case r of Inl e \<Rightarrow> Some (Inl e) | Inr m \<Rightarrow> masterRun inps m)"

lemma exampleRun_reachable: "exampleRun inps = Some (Inr m) \<Longrightarrow> reachable m"
  unfolding exampleRun_def exampleStart_def
  by (auto split: Option.bind_splits sum.splits intro: masterRun_reachable reachable.start [of 1])

lemma exampleRun_checked:
  assumes "(case exampleRun inps of Some (Inr m) \<Rightarrow> P m | _ \<Rightarrow> False)"
  shows "\<exists>m. exampleRun inps = Some (Inr m) \<and> reachable m \<and> P m"
  using assms exampleRun_reachable by (auto split: option.splits sum.splits)

definition armed :: "timer_cb \<Rightarrow> nat \<Rightarrow> BusMaster \<Rightarrow> bool" where
  "armed cb i m \<longleftrightarrow> list_ex (\<lambda>p. pt_id p = i \<and> pt_cb p = cb) (ts_pending (mw_ts (m_world m)))"

lemma armed_iff: "armed cb i m \<longleftrightarrow> (i, cb) \<in> ts_callbacks (mw_ts (m_world m))"
  by (auto simp: armed_def ts_callbacks_def list_ex_iff)

text \<open>The master has an action in hand that no state works on.\<close>

definition stalled :: "BusMaster \<Rightarrow> bool" where
  "stalled m \<longleftrightarrow> inState st_idle m \<and> \<not> doNothing (currentAction (m_world m))"

lemma reachable_rest:
  assumes "reachable m"
  obtains s where "flat_at masterSetup (stateId s) m" "vq_list (m_eventQueue m) = []" "rest_ok s (m_world m)"
    "\<And>t. inState t m \<longleftrightarrow> t = s"
  using reachable_inv [OF assms] inState_flat by (auto simp: master_inv_def)

lemma reachable_core: "reachable m \<Longrightarrow> core_ok {#} 0 (m_world m)"
  by (erule reachable_rest) (simp add: rest_ok_def)

lemma stalled_run:
  assumes "reachable m" and "stalled m" and "\<forall>q. Client_Changes q \<notin> set inps" and "Exit_Master \<notin> set inps"
  shows "\<exists>m'. masterRun inps m = Some (Inr m') \<and> stalled m' \<and> mw_tx (m_world m') = mw_tx (m_world m)"
  using assms
proof (induction inps arbitrary: m)
  case Nil
  then show ?case by simp
next
  case (Cons inp inps)
  obtain s where s: "flat_at masterSetup (stateId s) m" "vq_list (m_eventQueue m) = []" "rest_ok s (m_world m)"
    "\<And>t. inState t m \<longleftrightarrow> t = s" by (rule reachable_rest [OF Cons.prems(1)]) blast
  then have "s = st_idle" "\<not> doNothing (currentAction (m_world m))" using Cons.prems(2) by (auto simp: stalled_def)
  with s obtain m1 where m1: "masterStep inp m = Some (Inr m1)" "flat_at masterSetup (stateId st_idle) m1"
    "currentAction (m_world m1) = currentAction (m_world m)" "mw_tx (m_world m1) = mw_tx (m_world m)"
    using stalled_step [of m inp] Cons.prems(3,4) by auto
  then have "stalled m1" "reachable m1"
    using Cons.prems(1,2) inState_flat [OF m1(2)] reachable.step by (auto simp: stalled_def)
  then show ?case using Cons.IH [of m1] Cons.prems(3,4) m1 by auto
qed

lemma lost_token_stalls:
  assumes "reachable m" and "inState st_sendingToken m" and "armed CB_fsm_timeout i m"
  shows "\<exists>m'. masterStep (Timer_Fires i) m = Some (Inr m') \<and> stalled m' \<and> mw_tx (m_world m') = mw_tx (m_world m)"
proof -
  obtain s where s: "flat_at masterSetup (stateId s) m" "vq_list (m_eventQueue m) = []" "rest_ok s (m_world m)"
    "\<And>t. inState t m \<longleftrightarrow> t = s" by (rule reachable_rest [OF assms(1)]) blast
  then have st: "s = st_sendingToken" using assms(2) by simp
  show ?thesis using lost_token_step [OF s(1) [unfolded st] s(2) s(3) [unfolded st]] assms(3) inState_flat
    by (fastforce simp: armed_iff stalled_def)
qed

text \<open>Two clients that ask for an address, one after the other.\<close>

definition exampleRequest :: AddressRequest where
  "exampleRequest = \<lparr>aq_m_type = messageType2Byte address_request, aq_m_uniqueId = [1, 2, 3, 4, 5, 6, 7, 8],
     aq_m_channelType = 1, aq_m_crc32 = [0, 0, 0, 0]\<rparr>"

definition exampleRequests :: "bus_input list" where
  "exampleRequests =
     (let poll = [Rx_Packet (Some grant_token) [], Rx_Packet (Some return_token) []] in
      [Rx_Packet (Some master_started) []] @ poll @ poll @ poll @
      [Rx_Packet (Some address_request) (fromHeader_AddressRequest exampleRequest), Timer_Fires 8,
       Time_Passes 6] @ poll @ [Timer_Fires 9] @ poll @ poll @ poll @
      [Rx_Packet (Some address_request)
         (fromHeader_AddressRequest (exampleRequest\<lparr>aq_m_uniqueId := [8, 7, 6, 5, 4, 3, 2, 1]\<rparr>))])"

lemma store_parts:
  assumes "books_ok {#} n w" and "table = dh_table (mw_dh w)"
  shows "distinct (map al_address table)" and "distinct (map al_uniqueId (filter al_isDynamic table))"
    and "\<And>l. l \<in> set table \<Longrightarrow> al_isDynamic l \<Longrightarrow>
      al_address l \<in> toLocalAddress_int ` {dynamicLowAddress .. dynamicHighAddress}"
proof -
  let ?s = "toLocalAddress_int ` {staticLowAddress .. staticHighAddress}"
  have all: "mset (map al_address table @ dh_freeAddresses (mw_dh w)) = mset allAddresses"
    and stat: "map al_address (filter (\<lambda>l. \<not> al_isDynamic l) table) =
      map toLocalAddress_int [staticLowAddress .. staticHighAddress]" and uid: "uids_ok table"
    using assms by (simp_all add: books_ok_def tableAddresses_def)
  have "distinct allAddresses" by code_simp
  then have "distinct (map al_address table @ dh_freeAddresses (mw_dh w))"
    using all mset_eq_imp_distinct_iff by blast
  then show dist: "distinct (map al_address table)" by simp
  show "distinct (map al_uniqueId (filter al_isDynamic table))" using uid by (simp add: uids_ok_def)
  fix l assume l: "l \<in> set table" "al_isDynamic l"
  have "al_address l \<in> set allAddresses"
    using l(1) mset_eq_setD [OF all] by auto
  moreover have "al_address l \<notin> ?s"
  proof
    assume "al_address l \<in> ?s"
    then have "al_address l \<in> al_address ` set (filter (\<lambda>l. \<not> al_isDynamic l) table)"
      using arg_cong [OF stat, of set] by simp
    then obtain l' where "l' \<in> set table" "\<not> al_isDynamic l'" "al_address l' = al_address l" by auto
    then show False using dist l by (auto simp: distinct_map dest: inj_onD)
  qed
  ultimately show "al_address l \<in> toLocalAddress_int ` {dynamicLowAddress .. dynamicHighAddress}"
    by (auto simp: allAddresses_def)
qed

lemma distinct_filtered:
  assumes "distinct (map f (filter P xs))" and "i < length xs" "j < length xs" "i \<noteq> j" "P (xs ! i)" "P (xs ! j)"
  shows "f (xs ! i) \<noteq> f (xs ! j)"
  using assms
proof (induction xs arbitrary: i j)
  case Nil
  then show ?case by simp
next
  case (Cons x xs)
  have head: "P x \<Longrightarrow> k < length xs \<Longrightarrow> P (xs ! k) \<Longrightarrow> f x \<noteq> f (xs ! k)" for k
    using Cons.prems(1) by auto
  have tail: "distinct (map f (filter P xs))" using Cons.prems(1) by (auto split: if_splits)
  then show ?case using Cons.prems(2-6) Cons.IH head
    by (cases i; cases j) (auto, metis)
qed

lemma reply_sent:
  "tq_sent (mw_tx (sendAddressReply a uid w)) = tq_sent (mw_tx w) @ [[messageType2Byte address_reply, a] @ uid]"
  by (simp add: sendAddressReply_def sendMasterPacket_def sendMsg_def layout_simps)

lemma request_repeated:
  assumes "findLine_uid (aq_m_uniqueId r) (dh_table (mw_dh w)) \<noteq> None \<or> dh_freeAddresses (mw_dh w) \<noteq> []"
    and "aq_m_uniqueId r' = aq_m_uniqueId r" and "w1 = receivedAddressRequest r w"
  shows "\<exists>a. tq_sent (mw_tx w1) = tq_sent (mw_tx w) @ [[messageType2Byte address_reply, a] @ aq_m_uniqueId r] \<and>
    receivedAddressRequest r' w1 = sendAddressReply a (aq_m_uniqueId r) w1 \<and>
    (\<exists>l \<in> set (dh_table (mw_dh w1)). al_uniqueId l = aq_m_uniqueId r \<and> al_address l = a)"
proof (cases "findLine_uid (aq_m_uniqueId r) (dh_table (mw_dh w))")
  case (Some i)
  then have i: "i < length (dh_table (mw_dh w))" "al_uniqueId (dh_table (mw_dh w) ! i) = aq_m_uniqueId r"
    by (auto simp: findLine_uid_def dest: find_index_Some)
  have w1: "w1 = sendAddressReply (al_address (dh_table (mw_dh w) ! i)) (aq_m_uniqueId r) w"
    using Some assms(3) by (simp add: receivedAddressRequest_eq)
  show ?thesis using Some assms(2) i
    by (intro exI [of _ "al_address (dh_table (mw_dh w) ! i)"])
      (auto simp: receivedAddressRequest_eq w1 reply_sent)
next
  case None
  let ?a = "last (dh_freeAddresses (mw_dh w))" and ?n = "length (dh_table (mw_dh w))"
  have w1: "w1 = sendAddressReply ?a (aq_m_uniqueId r) (assign r w)"
    using None assms(1,3) by (simp add: receivedAddressRequest_eq)
  have l: "al_uniqueId (assignedLine r w) = aq_m_uniqueId r" "al_address (assignedLine r w) = ?a"
    by (simp_all add: assignedLine_def mkAddressLineUid_def)
  have table: "dh_table (mw_dh w1) = dh_table (mw_dh w) @ [assignedLine r w]" by (simp add: w1 assign_def)
  have "findLine_uid (aq_m_uniqueId r) (dh_table (mw_dh w1)) = Some ?n"
    using None l(1) unfolding table findLine_uid_def by (simp add: find_index_snoc)
  then have "receivedAddressRequest r' w1 = sendAddressReply ?a (aq_m_uniqueId r) w1"
    using assms(2) l(2) table by (simp add: receivedAddressRequest_eq)
  moreover have "tq_sent (mw_tx (assign r w)) = tq_sent (mw_tx w)" by (simp add: assign_def)
  ultimately show ?thesis using l table by (intro exI [of _ ?a]) (simp add: w1 reply_sent)
qed

lemma request_answered:
  assumes "findLine_uid (aq_m_uniqueId r) (dh_table (mw_dh w)) \<noteq> None \<or> dh_freeAddresses (mw_dh w) \<noteq> []"
    and "w1 = receivedAddressRequest r w"
  shows "\<exists>a. tq_sent (mw_tx w1) = tq_sent (mw_tx w) @ [[messageType2Byte address_reply, a] @ aq_m_uniqueId r] \<and>
    (\<exists>l \<in> set (dh_table (mw_dh w1)). al_uniqueId l = aq_m_uniqueId r \<and> al_address l = a)"
  using request_repeated [OF assms(1) refl assms(2)] by blast

section \<open>Properties\<close>

text \<open>
  C8: The master never crashes and always finishes an input. In every reachable state, whatever
  the input (any packet, however malformed, any timer, any change of the own client), the
  processing terminates, no null pointer is followed, no container is read out of range and
  no assertion fails, with one exception: the timeout of the state \<open>startMaster\<close>, when the
  master does not hear its own start message.
\<close>

theorem master_total:
  assumes "reachable m"
  shows "(\<exists>m'. masterStep inp m = Some (Inr m')) \<or>
    (masterStep inp m = Some (Inl Assert_Failed) \<and> inState st_startMaster m \<and>
     (\<exists>i. inp = Timer_Fires i \<and> armed CB_fsm_timeout i m))"
  using step_ok [OF reachable_inv [OF assms], of inp] by (auto simp: armed_iff)

theorem master_total_witness:
  "\<exists>m m'. exampleRun [] = Some (Inr m) \<and> reachable m \<and>
     masterStep (Rx_Packet (Some address_request) [1, 2, 3]) m = Some (Inr m')"
proof -
  have "(case exampleRun [] of Some (Inr m) \<Rightarrow> True | _ \<Rightarrow> False)" by code_simp
  from exampleRun_checked [OF this] obtain m where "exampleRun [] = Some (Inr m)" "reachable m" by blast
  then show ?thesis using master_total [of m "Rx_Packet (Some address_request) [1, 2, 3]"] by auto
qed

text \<open>
  When the master does not hear its own start message within the timeout, the program ends
  in a failed assertion: the result \<open>timeout\<close> reaches the default case of
  \<open>ActionHandler::reportActionResult\<close>.
\<close>

theorem master_start_timeout_asserts:
  assumes "reachable m" and "inState st_startMaster m" and "armed CB_fsm_timeout i m"
  shows "masterStep (Timer_Fires i) m = Some (Inl Assert_Failed)"
proof -
  obtain s where s: "flat_at masterSetup (stateId s) m" "vq_list (m_eventQueue m) = []" "rest_ok s (m_world m)"
    "\<And>t. inState t m \<longleftrightarrow> t = s" by (rule reachable_rest [OF assms(1)]) blast
  show ?thesis using timer_ok [OF s(1-3), of i] s(4) assms(2,3) by (simp add: armed_iff)
qed

theorem master_start_timeout_asserts_witness:
  "\<exists>m. exampleRun [] = Some (Inr m) \<and> masterStep (Timer_Fires 0) m = Some (Inl Assert_Failed)"
proof -
  have "(case exampleRun [] of Some (Inr m) \<Rightarrow> inState st_startMaster m \<and> armed CB_fsm_timeout 0 m | _ \<Rightarrow> False)"
    by code_simp
  from exampleRun_checked [OF this] show ?thesis using master_start_timeout_asserts by blast
qed

text \<open>
  C13: One token per address. In every reachable state the master is committed to exactly one
  token for each address in its table, scheduled or in use, and to no other; the addresses in
  the table and the free addresses are together exactly the static and the dynamic addresses
  of the configuration, each of them once, so no address is ever lost or given out twice.
\<close>

theorem master_one_token_per_address:
  assumes "reachable m" and "table = dh_table (mw_dh (m_world m))" and "fr = dh_freeAddresses (mw_dh (m_world m))"
  shows "(\<forall>a. count (tokens (m_world m)) a = (if a \<in> al_address ` set table then 1 else 0)) \<and>
    distinct (map al_address table @ fr) \<and> set (map al_address table @ fr) = set allAddresses"
proof -
  have books: "books_ok {#} 0 (m_world m)" using reachable_core [OF assms(1)] by (simp add: core_ok_def)
  then have all: "mset (map al_address table @ fr) = mset allAddresses"
    and tok: "tokens (m_world m) = mset (map al_address table)"
    using assms(2,3) by (simp_all add: books_ok_def tableAddresses_def)
  have "distinct allAddresses" by code_simp
  then have dist: "distinct (map al_address table @ fr)" using all mset_eq_imp_distinct_iff by blast
  then have "distinct (map al_address table)" by simp
  then have "count (mset (map al_address table)) a = (if a \<in> set (map al_address table) then 1 else 0)" for a
    by (rule distinct_count_atmost_1 [THEN iffD1, rule_format])
  then show ?thesis using dist tok mset_eq_setD [OF all] by simp
qed

theorem master_one_token_per_address_witness:
  "\<exists>m. exampleRun [Rx_Packet (Some master_started) []] = Some (Inr m) \<and>
     distinct (map al_address (dh_table (mw_dh (m_world m))) @ dh_freeAddresses (mw_dh (m_world m)))"
proof -
  have "(case exampleRun [Rx_Packet (Some master_started) []] of Some (Inr m) \<Rightarrow> True | _ \<Rightarrow> False)" by code_simp
  from exampleRun_checked [OF this] show ?thesis using master_one_token_per_address by blast
qed



text \<open>
  C17: The master stays alive. In every reachable state that is not stalled exactly one of the
  timeout of the state machine and the delay timer is armed, so the event loop will call the
  master again; and exactly one address discovery is scheduled, in progress or timed.
\<close>

theorem master_alive:
  assumes "reachable m" and "\<not> stalled m"
  shows "cb_count CB_fsm_timeout (m_world m) + cb_count CB_check_new_action (m_world m) = 1 \<and>
    queries (m_world m) = 1"
proof -
  obtain s where s: "rest_ok s (m_world m)" "\<And>t. inState t m \<longleftrightarrow> t = s"
    by (rule reachable_rest [OF assms(1)]) blast
  then show ?thesis using assms(2)
    by (auto simp: rest_ok_def core_ok_def books_ok_def stalled_def)
qed

theorem master_alive_witness:
  "\<exists>m. exampleRun [] = Some (Inr m) \<and> queries (m_world m) = 1"
proof -
  have "(case exampleRun [] of Some (Inr m) \<Rightarrow> \<not> stalled m | _ \<Rightarrow> False)" by code_simp
  from exampleRun_checked [OF this] show ?thesis using master_alive by blast
qed

text \<open>
  C35: The master stalls for good when it does not hear its own token. If the timeout of
  \<open>sendingToken\<close> fires, the master returns to \<open>idle\<close> with the action still in hand; from then
  on, for every sequence of inputs, it stays stalled and puts nothing on the bus: only the own
  client and the stop message change the transmit queue.
\<close>

theorem master_stalls_on_lost_token:
  assumes "reachable m" and "inState st_sendingToken m" and "armed CB_fsm_timeout i m"
    and "\<forall>q. Client_Changes q \<notin> set inps" and "Exit_Master \<notin> set inps"
  shows "\<exists>m'. masterRun (Timer_Fires i # inps) m = Some (Inr m') \<and> stalled m' \<and>
    mw_tx (m_world m') = mw_tx (m_world m)"
proof -
  obtain m1 where m1: "masterStep (Timer_Fires i) m = Some (Inr m1)" "stalled m1"
    "mw_tx (m_world m1) = mw_tx (m_world m)"
    using lost_token_stalls [OF assms(1-3)] by blast
  have "reachable m1" using assms(1) m1(1) reachable.step by blast
  then have "\<exists>m'. masterRun inps m1 = Some (Inr m') \<and> stalled m' \<and> mw_tx (m_world m') = mw_tx (m_world m1)"
    using m1(2) assms(4,5) by (intro stalled_run) auto
  then show ?thesis using m1 by auto
qed

theorem master_stalls_on_lost_token_witness:
  "\<exists>m m'. exampleRun [Rx_Packet (Some master_started) []] = Some (Inr m) \<and>
     masterRun [Timer_Fires 1, Rx_Packet (Some return_token) [], Time_Passes 100] m = Some (Inr m') \<and> stalled m'"
proof -
  have "(case exampleRun [Rx_Packet (Some master_started) []] of
      Some (Inr m) \<Rightarrow> inState st_sendingToken m \<and> armed CB_fsm_timeout 1 m | _ \<Rightarrow> False)" by code_simp
  from exampleRun_checked [OF this] show ?thesis
    using master_stalls_on_lost_token [of _ 1 "[Rx_Packet (Some return_token) [], Time_Passes 100]"] by fastforce
qed

text \<open>
  Assigned addresses are unique. In every reachable state two different rows of the address
  store that were assigned on request belong to different unique ids and hold different
  addresses, all of them in the configured dynamic range.
\<close>

theorem dynamic_addresses_unique:
  assumes "reachable m" and "table = dh_table (mw_dh (m_world m))"
    and "i < length table" and "j < length table" and "i \<noteq> j"
    and "al_isDynamic (table ! i)" and "al_isDynamic (table ! j)"
  shows "al_address (table ! i) \<noteq> al_address (table ! j) \<and> al_uniqueId (table ! i) \<noteq> al_uniqueId (table ! j) \<and>
    al_address (table ! i) \<in> toLocalAddress_int ` {dynamicLowAddress .. dynamicHighAddress}"
proof -
  have books: "books_ok {#} 0 (m_world m)" using reachable_core [OF assms(1)] by (simp add: core_ok_def)
  note parts = store_parts [OF books assms(2)]
  have "al_address (table ! i) \<noteq> al_address (table ! j)"
    using parts(1) assms(3-5) by (auto simp: distinct_conv_nth)
  moreover have "al_uniqueId (table ! i) \<noteq> al_uniqueId (table ! j)"
    using parts(2) assms(3-7) by (rule distinct_filtered)
  ultimately show ?thesis using parts(3) assms(3,6) by simp
qed

theorem dynamic_addresses_unique_witness:
  "\<exists>m. exampleRun exampleRequests = Some (Inr m) \<and>
     al_address (dh_table (mw_dh (m_world m)) ! 3) \<noteq> al_address (dh_table (mw_dh (m_world m)) ! 4)"
proof -
  have "(case exampleRun exampleRequests of Some (Inr m) \<Rightarrow>
      4 < length (dh_table (mw_dh (m_world m))) \<and> al_isDynamic (dh_table (mw_dh (m_world m)) ! 3) \<and>
      al_isDynamic (dh_table (mw_dh (m_world m)) ! 4) | _ \<Rightarrow> False)" by code_simp
  from exampleRun_checked [OF this] obtain m where m: "exampleRun exampleRequests = Some (Inr m)" "reachable m"
    "4 < length (dh_table (mw_dh (m_world m)))" "al_isDynamic (dh_table (mw_dh (m_world m)) ! 3)"
    "al_isDynamic (dh_table (mw_dh (m_world m)) ! 4)" by blast
  then show ?thesis using dynamic_addresses_unique [of m "dh_table (mw_dh (m_world m))" 3 4] by auto
qed



text \<open>
  The unique ids of the static rows are uninitialised memory, and the lookup compares them.
  A client whose unique id happens to equal the content of such a row when the master starts is
  given the static address of that row instead of a dynamic one.
\<close>

theorem static_row_matches_garbage:
  assumes "aq_m_uniqueId r = uninit 1" and "w = startWorld uninit now tx busy"
  shows "receivedAddressRequest r w = sendAddressReply 1 (uninit 1) w"
proof -
  define w2 where "w2 = staticWorld uninit now tx busy"
  note s2 = staticWorld_spec [OF w2_def]
  have "dh_table (mw_dh w) = dh_table (mw_dh w2)"
    unfolding assms(2) startWorld_def dh_start_def Let_def w2_def staticWorld_def
    by (simp add: mkMasterWorld_def mkDynamicHandler_def)
  also have "\<dots> = mkAddressLine (uninit 1) 1 # map (\<lambda>i. mkAddressLine (uninit (toLocalAddress_int i)) (toLocalAddress_int i)) [2, 3]"
    using s2(4) by (simp add: staticLowAddress_def staticHighAddress_def upto.simps toLocalAddress_int_def)
  finally show ?thesis using assms(1)
    by (simp add: receivedAddressRequest_eq findLine_uid_def mkAddressLine_def)
qed

theorem static_row_matches_garbage_witness:
  "receivedAddressRequest exampleRequest (startWorld (\<lambda>_. [1, 2, 3, 4, 5, 6, 7, 8]) 1 (mkTxQueue 9) False) =
   sendAddressReply 1 [1, 2, 3, 4, 5, 6, 7, 8] (startWorld (\<lambda>_. [1, 2, 3, 4, 5, 6, 7, 8]) 1 (mkTxQueue 9) False)"
  using static_row_matches_garbage [of exampleRequest "\<lambda>_. [1, 2, 3, 4, 5, 6, 7, 8]"]
  by (simp add: exampleRequest_def)

end
