(* ===== verification/Master_Messages.thy ===== *)
theory Master_Messages
  imports Master_Correct
begin

text \<open>
  What the bus master says, and when. Whenever the master has finished an action and looks for the
  next one it ends in a state that fits the one message it handed to the transmit queue:
  it waits for what it just sent. The lemmas follow the inputs of \<open>Bus_Master\<close>.
\<close>

section \<open>Messages of the master\<close>

definition grantMsg :: "LocalAddress \<Rightarrow> byte_vec" where
  "grantMsg a = fromHeader_GrantToken (mkGrantToken a)"

definition startedMsg :: byte_vec where
  "startedMsg = fromHeader_MasterStarted \<lparr>ms_m_type = messageType2Byte master_started\<rparr>"

definition discoveryMsg :: byte_vec where
  "discoveryMsg = fromHeader_AddressDiscovery
     \<lparr>ad_m_type = messageType2Byte address_discovery, ad_m_randomDelay = 0, ad_m_randomHoldOff = 0\<rparr>"

definition replyMsg :: "LocalAddress \<Rightarrow> UniqueId \<Rightarrow> byte_vec" where
  "replyMsg a uid = fromHeader_AddressReply
     \<lparr>ar_m_type = messageType2Byte address_reply, ar_m_assigned = a, ar_m_uniqueId = uid\<rparr>"

lemma master_sends:
  "mw_tx (sendToken a w) = sendMsg (grantMsg a) (mw_tx w)"
  "mw_tx (sendMasterStart w) = sendMsg startedMsg (mw_tx w)"
  "mw_tx (sendAddressDiscovery w) = sendMsg discoveryMsg (mw_tx w)"
  "mw_tx (sendAddressReply a uid w) = sendMsg (replyMsg a uid) (mw_tx w)"
  by (simp_all add: sendToken_def sendMasterStart_def sendAddressDiscovery_def sendAddressReply_def
      sendMasterPacket_def grantMsg_def startedMsg_def discoveryMsg_def replyMsg_def)

text \<open>The state \<open>s\<close> after the search for the next action that began with the transmit queue \<open>q\<close>.\<close>

fun speaks :: "StateId \<Rightarrow> MasterWorld \<Rightarrow> TxQueue \<Rightarrow> bool" where
  "speaks st_idle w q = (doNothing (currentAction w) \<and> mw_tx w = q)"
| "speaks st_startMaster w q = (mw_tx w = sendMsg startedMsg q)"
| "speaks st_sendingToken w q =
     (ac_address (currentAction w) \<noteq> clientAddress q \<and> mw_tx w = sendMsg (grantMsg (ac_address (currentAction w))) q)"
| "speaks st_waitClientPacketDone w q =
     (\<exists>p ps. tq_txMsg q = p # ps \<and> mw_tx w = (sendMsg p q)\<lparr>tq_txMsg := ps\<rparr>)"
| "speaks st_queryAddress w q = (mw_tx w = sendMsg discoveryMsg q)"
| "speaks st_waitAddressReply w q = False"

definition at_rest :: "StateId \<Rightarrow> BusMaster \<Rightarrow> bool" where
  "at_rest s m \<longleftrightarrow> flat_at masterSetup (stateId s) m \<and> vq_list (m_eventQueue m) = [] \<and> rest_ok s (m_world m)"

lemma timer_tx [simp]:
  "mw_tx (startTimer t w) = mw_tx w" "currentAction (startTimer t w) = currentAction w"
  "mw_tx (cleanTimer w) = mw_tx w" "currentAction (cleanTimer w) = currentAction w"
  by (simp_all add: startTimer_def cleanTimer_def makeTimeout_def timer_moveAssign_def timer_cancel_def
      currentAction_def split: option.splits)

lemma send_currentAction [simp]:
  "currentAction (sendMasterStart w) = currentAction w" "currentAction (sendAddressDiscovery w) = currentAction w"
  "currentAction (sendToken a w) = currentAction w" "currentAction (w\<lparr>mw_tx := q\<rparr>) = currentAction w"
  by (simp_all add: currentAction_def sendMasterStart_def sendAddressDiscovery_def sendToken_def)

section \<open>What an input keeps of the books\<close>

text \<open>The address, the unique id and the kind of the rows of the address store.\<close>

definition rows :: "MasterWorld \<Rightarrow> (LocalAddress \<times> UniqueId \<times> bool) set" where
  "rows w = (\<lambda>l. (al_address l, al_uniqueId l, al_isDynamic l)) ` set (dh_table (mw_dh w))"

text \<open>The announcements of the start that are planned.\<close>

definition starts :: "MasterWorld \<Rightarrow> nat" where
  "starts w = size (filter_mset (\<lambda>a. ac_action a = send_master_start) (inFlight w))"

text \<open>No further start is planned, no row appears, and only rows with an address in \<open>A\<close> disappear.\<close>

definition keeps :: "LocalAddress set \<Rightarrow> MasterWorld \<Rightarrow> MasterWorld \<Rightarrow> bool" where
  "keeps A w w' \<longleftrightarrow>
     starts w' \<le> starts w \<and> rows w' \<subseteq> rows w \<and> (\<forall>r \<in> rows w. fst r \<notin> A \<longrightarrow> r \<in> rows w')"

lemma starts_postActionNow:
  assumes "sched_ok w" and "ac_action a \<notin> {do_nothing, send_master_start}"
  shows "starts (postActionNow a w) = starts w"
  using postActionNow_spec(2) [OF assms(1), of a] assms(2) by (simp add: starts_def doNothing_def)

lemma keeps_trans: "keeps A w w' \<Longrightarrow> keeps A w' w'' \<Longrightarrow> keeps A w w''"
  by (auto simp: keeps_def)

lemma keeps_mono: "keeps A w w' \<Longrightarrow> A \<subseteq> B \<Longrightarrow> keeps B w w'"
  by (auto simp: keeps_def)

lemma keeps_same: "inFlight w' = inFlight w \<Longrightarrow> dh_table (mw_dh w') = dh_table (mw_dh w) \<Longrightarrow> keeps A w w'"
  by (auto simp: keeps_def rows_def starts_def)

lemma keeps_env: "mw_ah w' = mw_ah w \<Longrightarrow> mw_dh w' = mw_dh w \<Longrightarrow> keeps A w w'"
  by (rule keeps_same) (simp_all add: inFlight_def currentAction_def)

lemma timer_frame [simp]:
  "mw_ah (startTimer t w) = mw_ah w" "mw_dh (startTimer t w) = mw_dh w"
  "mw_ah (cleanTimer w) = mw_ah w" "mw_dh (cleanTimer w) = mw_dh w"
  by (simp_all add: startTimer_def cleanTimer_def makeTimeout_def timer_moveAssign_def timer_cancel_def
      split: option.splits)

lemma construct_frame [simp]: "mw_ah (constructState s w) = mw_ah w" "mw_dh (constructState s w) = mw_dh w"
  by (cases s; simp add: MasterStart_construct_def SendingToken_construct_def WaitClientPacketDoneState_construct_def
      QueryAddressState_construct_def WaitAddressReply_construct_def sendMasterStart_def sendAddressDiscovery_def)+

lemma keeps_checkNewAction:
  assumes "core_ok {#} 0 w" and "doNothing (currentAction w)" and "checkNewAction w = Inr (w', evs)"
  shows "keeps A w w'"
proof -
  let ?s = "ah_scheduler (mw_ah w)"
  obtain b s where wk: "workToDo (ts_now (mw_ts w)) ?s = (b, s)" by fastforce
  have inv: "sched_inv ?s" using assms(1) by (simp add: core_ok_def sched_ok_def)
  note spec = workToDo_spec [OF inv wk]
  have dh: "mw_dh w' = mw_dh w" using checkNewAction_spec [OF assms(1,2)] assms(3) by auto
  show ?thesis
  proof (cases "vq_list (ms_ready s)")
    case Nil
    then have "sched_actions (ah_scheduler (mw_ah w')) = sched_actions ?s" "currentAction w' = currentAction w"
      using assms(2,3) wk spec(4,5)
      by (auto simp: checkNewAction_def currentAction_def makeTimeoutAbs_def timer_moveAssign_def Let_def split: if_splits)
    then show ?thesis using dh by (intro keeps_same) (simp_all add: inFlight_def)
  next
    case (Cons a as)
    note pop = ms_pop_spec [OF spec(1) Cons]
    have "ah_scheduler (mw_ah w') = ms_pop s" "currentAction w' = a"
      using assms(2,3) wk spec(4) Cons pop(1)
      by (auto simp: checkNewAction_def currentAction_def startAction_def Let_def split: if_splits)
    moreover have "\<not> doNothing a"
      using assms(1) pop(4) spec(5) by (auto simp: core_ok_def sched_ok_def)
    ultimately show ?thesis using dh pop(4) spec(5) assms(2) by (intro keeps_same) (simp_all add: inFlight_def)
  qed
qed

lemma setState_row [simp]:
  "al_address (setState st l) = al_address l" "al_uniqueId (setState st l) = al_uniqueId l"
  "al_isDynamic (setState st l) = al_isDynamic l"
  by (simp_all add: setState_def Let_def)

lemma rows_update:
  assumes "i < length xs" and "f y = f (xs ! i)"
  shows "f ` set (xs[i := y]) = f ` set xs"
proof -
  have "map f (xs[i := y]) = map f xs" using assms by (simp add: map_update list_update_same_conv)
  then have "set (map f (xs[i := y])) = set (map f xs)" by simp
  then show ?thesis by simp
qed

lemma keeps_updateAddressLine:
  assumes "updateAddressLine addr st w = Inr w'"
  shows "keeps (if st = active \<or> st = idle then {} else {addr}) w w'"
proof -
  let ?t = "dh_table (mw_dh w)" and ?f = "\<lambda>l. (al_address l, al_uniqueId l, al_isDynamic l)"
  obtain i where find: "findLine_addr addr ?t = Some i"
    using assms by (auto simp: updateAddressLine_def split: option.splits)
  then have i: "i < length ?t" "al_address (?t ! i) = addr"
    by (auto simp: findLine_addr_def dest: find_index_Some)
  let ?line = "setState st (?t ! i)"
  show ?thesis
  proof (cases "removeDynamic ?line")
    case True
    then have st: "st = badClient \<or> st = free" by (auto simp: removeDynamic_def setState_def Let_def split: if_splits)
    have w': "w' = w\<lparr>mw_dh := (mw_dh w)\<lparr>dh_freeAddresses := dh_freeAddresses (mw_dh w) @ [addr], dh_table := removeLine i ?t\<rparr>\<rparr>"
      using assms find True i(2) by (simp add: updateAddressLine_def Let_def)
    have "?t = take i ?t @ ?t ! i # drop (Suc i) ?t" using i(1) by (rule id_take_nth_drop)
    then have "set ?t = insert (?t ! i) (set (removeLine i ?t))"
      by (metis removeLine_def list.simps(15) set_append Un_insert_right)
    then show ?thesis using i(2) st unfolding keeps_def rows_def w'
      by (auto simp: starts_def inFlight_def currentAction_def)
  next
    case False
    have w': "w' = postAction (makeSendTokenAction addr) (nextTime (al_state ?line) (ts_now (mw_ts w)))
        (w\<lparr>mw_dh := (mw_dh w)\<lparr>dh_table := ?t[i := ?line]\<rparr>\<rparr>)"
      using assms find False by (simp add: updateAddressLine_def Let_def)
    have "?f ` set (?t[i := ?line]) = ?f ` set ?t" using i(1) by (intro rows_update) simp_all
    then have "rows w' = rows w" by (simp add: rows_def w')
    moreover have "starts w' = starts w"
      by (simp add: w' starts_def inFlight_def postAction_def currentAction_def makeSendTokenAction_def mkAction_def)
    ultimately show ?thesis by (auto simp: keeps_def)
  qed
qed

text \<open>Only a token that nobody answered costs a row.\<close>

lemma keeps_report:
  assumes "core_ok {#} 0 w" and "fitting (ac_action (currentAction w)) rv" and "fsm_reportActionResult rv w = Inr (w', evs)"
  shows "keeps (if rv = RV_token_timeout then {ac_address (currentAction w)} else {}) w w' \<and>
    starts w' + (if ac_action (currentAction w) = send_master_start then 1 else 0) \<le> starts w"
proof -
  have busy: "\<not> doNothing (currentAction w)" using assms(2) by (auto simp: doNothing_def)
  let ?a = "currentAction w" and ?A = "if rv = RV_token_timeout then {ac_address (currentAction w)} else {}"
  define w1 where "w1 = w\<lparr>mw_fsm := (mw_fsm w)\<lparr>mf_currentAction := makeDoNothingAction\<rparr>,
      mw_ah := (mw_ah w)\<lparr>ah_currentAction := makeDoNothingAction\<rparr>\<rparr>"
  define T where "T = (if ac_action ?a = send_token then {#ac_address ?a#} else {#})"
  define n :: nat where "n = (if ac_action ?a = query_address then 1 else 0)"
  note w1 = clear_current [OF assms(1) busy w1_def T_def n_def]
  have "inFlight w = add_mset ?a (inFlight w1)"
    using w1 busy by (simp add: inFlight_def) (simp add: w1_def currentAction_def)
  then have s1: "starts w = starts w1 + (if ac_action ?a = send_master_start then 1 else 0)" by (simp add: starts_def)
  then have k1: "keeps ?A w w1" by (simp add: keeps_def rows_def w1_def)
  have cb: "ac_hasReportCB (mf_currentAction (mw_fsm w))"
    using assms(1) busy by (auto simp: core_ok_def current_ok_def)
  note report = assms(3) [unfolded fsm_reportActionResult_def ah_reportActionResult_def]
  have "\<exists>w2. checkNewAction w2 = Inr (w', evs) \<and> core_ok {#} 0 w2 \<and> doNothing (currentAction w2) \<and> keeps ?A w1 w2"
  proof (cases "ac_action ?a")
    case send_token
    then have core: "core_ok {#ac_address ?a#} 0 w1" using w1 by (simp add: T_def n_def)
    define st where "st = (case rv of RV_client_packet_started \<Rightarrow> active | RV_rx_token_no_packet \<Rightarrow> idle | _ \<Rightarrow> badClient)"
    obtain w2 where w2: "updateAddressLine (ac_address ?a) st w1 = Inr w2" "core_ok {#} 0 w2"
      "currentAction w2 = currentAction w1"
      using updateAddressLine_spec [OF core, of st] by blast
    have "checkNewAction w2 = Inr (w', evs)"
      using report cb w2(1) send_token assms(2) by (auto simp: st_def w1_def currentAction_def Let_def)
    moreover have "keeps ?A w1 w2"
      using keeps_updateAddressLine [OF w2(1)] send_token assms(2) by (auto simp: st_def split: if_splits)
    ultimately show ?thesis using w2 w1 by auto
  next
    case query_address
    then have core: "core_ok {#} (Suc 0) w1" using w1 by (simp add: T_def n_def)
    have "checkNewAction (addressDiscoveryIsDone w1) = Inr (w', evs)"
      using report cb query_address assms(2) by (auto simp: w1_def currentAction_def Let_def)
    moreover have "keeps ?A w1 (addressDiscoveryIsDone w1)"
      by (rule keeps_same) (simp_all add: addressDiscoveryIsDone_def makeTimeoutAbs_def inFlight_def currentAction_def Let_def)
    ultimately show ?thesis using addressDiscoveryIsDone_spec [OF core] w1 by auto
  next
    case send_master_start
    then have "checkNewAction w1 = Inr (w', evs)"
      using report cb assms(2) by (auto simp: w1_def currentAction_def Let_def)
    then show ?thesis using w1 send_master_start keeps_same [of w1 w1] by (auto simp: T_def n_def)
  next
    case do_nothing
    then show ?thesis using busy by (simp add: doNothing_def)
  qed
  then have k2: "keeps ?A w1 w'" using keeps_checkNewAction keeps_trans by meson
  then have "starts w' \<le> starts w1" by (simp add: keeps_def)
  then show ?thesis using keeps_trans [OF k1 k2] s1 by simp
qed

text \<open>An input, met with the objects in \<open>w\<close>, that ends in the search for the next action.\<close>

definition settled :: "LocalAddress set \<Rightarrow> BusMaster result option \<Rightarrow> MasterWorld \<Rightarrow> bool" where
  "settled A r w \<longleftrightarrow>
     (\<exists>m s. r = Some (Inr m) \<and> at_rest s m \<and> speaks s (m_world m) (mw_tx w) \<and> keeps A w (m_world m))"

lemma settled_trans:
  assumes "settled {} r w'" and "keeps A w w'" and "mw_tx w' = mw_tx w"
  shows "settled A r w"
  using assms keeps_trans [of A w w'] keeps_mono [of "{}" w' _ A] by (auto simp: settled_def)

section \<open>Starting an action\<close>

lemma command_own_tx:
  assumes "ready_ok w" and "ac_action (currentAction w) = send_token"
    and "fsm_reportActionResult RV_rx_token_no_packet w = Inr (w', evs)"
  shows "mw_tx w' = mw_tx w \<and> keeps {} w w' \<and> (evs = [] \<longrightarrow> doNothing (currentAction w'))"
proof -
  have "checked w w' evs"
    using report_spec [of w RV_rx_token_no_packet] assms by (auto simp: ready_ok_def)
  moreover have "keeps {} w w'"
    using keeps_report [of w RV_rx_token_no_packet w' evs] assms by (simp add: ready_ok_def)
  ultimately show ?thesis by (auto simp: checked_def same_env_def split: if_splits)
qed

lemma command_speaks:
  assumes "ready_ok w" and "masterEvent st_idle check_new_command w = Inr (s', w', evs)"
  shows "(if evs = [] then speaks s' w' (mw_tx w) else mw_tx w' = mw_tx w) \<and> keeps {} w w'"
proof -
  have cur: "mf_currentAction (mw_fsm w) = currentAction w"
    using assms(1) by (simp add: ready_ok_def core_ok_def current_ok_def)
  have ev: "rbind (decodeAction (currentAction w) w) (\<lambda>(w1, req, evs1). case Option.bind req stateOf of
      None \<Rightarrow> Inr (st_idle, w1, evs1) | Some t \<Rightarrow> Inr (t, constructState t w1, evs1)) = Inr (s', w', evs)"
    using assms(2) cur by (cases "decodeAction (currentAction w) w")
      (auto simp: masterEvent_def Idle_event_def split: option.splits)
  note ev = ev [unfolded decodeAction_def]
  show ?thesis
  proof (cases "ac_action (currentAction w)")
    case do_nothing
    then show ?thesis using assms(1) by (simp add: ready_ok_def doNothing_def)
  next
    case send_token
    show ?thesis
    proof (cases "ac_address (currentAction w) = mp_clientAddress w")
      case False
      then show ?thesis using ev send_token
        by (auto simp: Let_def master_sends SendingToken_construct_def mp_clientAddress_def intro!: keeps_env)
          (simp_all add: sendToken_def)
    next
      case own: True
      show ?thesis
      proof (cases "tq_txMsg (mw_tx w)")
        case Nil
        then obtain w1 evs1 where r: "fsm_reportActionResult RV_rx_token_no_packet w = Inr (w1, evs1)"
          "s' = st_idle" "w' = w1" "evs = evs1"
          using ev own send_token by (auto simp: Let_def mp_txQueueEmpty_def txQueueEmpty_def rbind_eq_Inr)
        then show ?thesis using command_own_tx [OF assms(1) send_token r(1)] by auto
      next
        case (Cons p ps)
        then show ?thesis using ev own send_token
          by (auto simp: Let_def mp_txQueueEmpty_def txQueueEmpty_def mp_sendClientPacket_def sendClientPacket_def
              WaitClientPacketDoneState_construct_def intro!: keeps_env)
      qed
    qed
  next
    case query_address
    then show ?thesis using ev by (auto simp: QueryAddressState_construct_def master_sends intro!: keeps_env)
        (simp_all add: sendAddressDiscovery_def)
  next
    case send_master_start
    then show ?thesis using ev by (auto simp: MasterStart_construct_def master_sends intro!: keeps_env)
        (simp_all add: sendMasterStart_def)
  qed
qed

lemma settle_idle_speaks:
  assumes "flat_at masterSetup (stateId st_idle) m" and "vq_list (m_eventQueue m) = [check_new_command]"
    and "ready_ok (m_world m)"
  shows "settled {} (processQueue masterDescription m) (m_world m)"
  using assms
proof (induction "work (m_world m)" arbitrary: m rule: less_induct)
  case less
  obtain s' w' evs where e: "masterEvent st_idle check_new_command (m_world m) = Inr (s', w', evs)"
    "outcome s' w' evs" "evs \<noteq> [] \<longrightarrow> work w' < work (m_world m)"
    using command_outcome [OF less.prems(3)] by blast
  note sp = command_speaks [OF less.prems(3) e(1)]
  have "flat_event masterDescription (stateId st_idle) check_new_command (m_world m) = Inr (stateId s', w', evs)"
    using e(1) by (simp add: masterEvent_flat del: stateId.simps)
  from mfsm.processQueue_step [OF less.prems(1,2) this]
  obtain m1 where m1: "processQueue masterDescription m = processQueue masterDescription m1"
    "flat_at masterSetup (stateId s') m1" "m_world m1 = w'" "vq_list (m_eventQueue m1) = evs" by auto
  show ?case
  proof (cases "evs = []")
    case True
    then have "rest_ok s' (m_world m1)" using e(2) m1(3) by (simp add: outcome_def)
    then show ?thesis using m1 True sp mfsm.processQueue_empty [OF m1(2)] by (auto simp: settled_def at_rest_def)
  next
    case False
    then have "s' = st_idle" "evs = [check_new_command]" "ready_ok w'" using e(2) by (auto simp: outcome_def)
    then show ?thesis using less.hyps [of m1] m1 e(3) sp False settled_trans by simp
  qed
qed

section \<open>Inputs\<close>

text \<open>An event that takes the machine back to \<open>idle\<close> without sending anything.\<close>

lemma post_speaks:
  assumes "flat_at masterSetup (stateId s) m" and "vq_list (m_eventQueue m) = []"
    and "masterEvent s ev (m_world m) = Inr (st_idle, w', evs)" and "outcome st_idle w' evs"
    and "evs = [] \<longrightarrow> doNothing (currentAction w')"
  shows "settled {} (postEvent masterDescription ev m) w'"
proof -
  obtain m1 where m1: "postEvent masterDescription ev m = processQueue masterDescription m1"
    "flat_at masterSetup (stateId s) m1" "m_world m1 = m_world m" "vq_list (m_eventQueue m1) = [ev]"
    using mfsm.postEvent_idle [OF assms(1,2), of ev] by blast
  have "flat_event masterDescription (stateId s) ev (m_world m1) = Inr (stateId st_idle, w', evs)"
    using assms(3) m1(3) by (simp add: masterEvent_flat)
  from mfsm.processQueue_step [OF m1(2,4) this]
  obtain m2 where m2: "processQueue masterDescription m1 = processQueue masterDescription m2"
    "flat_at masterSetup (stateId st_idle) m2" "m_world m2 = w'" "vq_list (m_eventQueue m2) = evs" by auto
  show ?thesis
  proof (cases "evs = []")
    case True
    then have "at_rest st_idle m2" "speaks st_idle (m_world m2) (mw_tx w')"
      using m2 assms(4,5) by (auto simp: at_rest_def outcome_def)
    then show ?thesis using m1(1) m2 True mfsm.processQueue_empty [OF m2(2)] by (auto simp: settled_def keeps_same)
  next
    case False
    then have "evs = [check_new_command]" "ready_ok w'" using assms(4) by (auto simp: outcome_def)
    then show ?thesis using settle_idle_speaks [OF m2(2)] m1(1) m2 by simp
  qed
qed

lemma report_settled:
  assumes "flat_at masterSetup (stateId s) m" and "vq_list (m_eventQueue m) = []"
    and "at_event s ev (m_world m)" and "s \<noteq> st_idle" and "fitting (ac_action (currentAction (m_world m))) rv"
    and "eventState s ev (m_world m) = reportAndIdle rv (m_world m)"
    and "destructState s = (\<lambda>w. Inr (cleanTimer w, []))"
  shows "\<exists>w1. settled {} (postEvent masterDescription ev m) w1 \<and> mw_tx w1 = mw_tx (m_world m) \<and>
    keeps (if rv = RV_token_timeout then {ac_address (currentAction (m_world m))} else {}) (m_world m) w1 \<and>
    starts w1 + (if ac_action (currentAction (m_world m)) = send_master_start then 1 else 0) \<le> starts (m_world m)"
proof -
  note at = at_eventD [OF assms(3)]
  obtain w1 evs where r: "fsm_reportActionResult rv (m_world m) = Inr (w1, evs)" "checked (m_world m) w1 evs"
    using report_spec [OF at(1) assms(5)] by blast
  have step: "masterEvent s ev (m_world m) = Inr (st_idle, cleanTimer w1, evs)"
    using assms(6,7) r(1) by (simp add: masterEvent_def reportAndIdle_def)
  have out: "outcome st_idle (cleanTimer w1) evs" using checked_cleanTimer [OF r(2)] at(3) assms(4) by simp
  have "settled {} (postEvent masterDescription ev m) (cleanTimer w1)"
    using r(2) by (intro post_speaks [OF assms(1,2) step out]) (auto simp: checked_def split: if_splits)
  moreover have "mw_tx (cleanTimer w1) = mw_tx (m_world m)" using r(2) by (simp add: checked_def same_env_def)
  moreover have "keeps A w1 (cleanTimer w1)" for A by (rule keeps_env) simp_all
  moreover have "starts (cleanTimer w1) = starts w1" by (simp add: starts_def inFlight_def)
  ultimately show ?thesis using keeps_report [OF at(1) assms(5) r(1)] keeps_trans
    by (intro exI [of _ "cleanTimer w1"]) auto
qed

lemma report_speaks:
  assumes "flat_at masterSetup (stateId s) m" and "vq_list (m_eventQueue m) = []"
    and "at_event s ev (m_world m)" and "s \<noteq> st_idle" and "fitting (ac_action (currentAction (m_world m))) rv"
    and "eventState s ev (m_world m) = reportAndIdle rv (m_world m)"
    and "destructState s = (\<lambda>w. Inr (cleanTimer w, []))"
  shows "settled (if rv = RV_token_timeout then {ac_address (currentAction (m_world m))} else {})
    (postEvent masterDescription ev m) (m_world m)"
  using report_settled [OF assms] settled_trans by blast

text \<open>An event that takes the machine to another state, or leaves it where it is.\<close>

lemma post_moves:
  assumes "flat_at masterSetup (stateId s) m" and "vq_list (m_eventQueue m) = []"
    and "masterEvent s ev (m_world m) = Inr (s', w', [])" and "rest_ok s' w'"
  shows "\<exists>m'. postEvent masterDescription ev m = Some (Inr m') \<and> at_rest s' m' \<and> m_world m' = w'"
proof -
  obtain m1 where m1: "postEvent masterDescription ev m = processQueue masterDescription m1"
    "flat_at masterSetup (stateId s) m1" "m_world m1 = m_world m" "vq_list (m_eventQueue m1) = [ev]"
    using mfsm.postEvent_idle [OF assms(1,2), of ev] by blast
  have "flat_event masterDescription (stateId s) ev (m_world m1) = Inr (stateId s', w', [])"
    using assms(3) m1(3) by (simp add: masterEvent_flat)
  from mfsm.processQueue_step [OF m1(2,4) this]
  obtain m2 where m2: "processQueue masterDescription m1 = processQueue masterDescription m2"
    "flat_at masterSetup (stateId s') m2" "m_world m2 = w'" "vq_list (m_eventQueue m2) = []" by auto
  then show ?thesis using m1(1) assms(4) mfsm.processQueue_empty [OF m2(2,4)] by (auto simp: at_rest_def)
qed

lemma at_rest_event:
  assumes "at_rest s m" and "ev \<noteq> timer_timeout"
  shows "flat_at masterSetup (stateId s) m" "vq_list (m_eventQueue m) = []" "at_event s ev (m_world m)"
  using assms by (simp_all add: at_rest_def at_event_def rest_ok_def)

lemma hear_started:
  assumes "at_rest st_startMaster m"
  shows "\<exists>m' s. masterPacketReceived (Some master_started) bb m = Some (Inr m') \<and> at_rest s m' \<and>
    speaks s (m_world m') (mw_tx (m_world m)) \<and> keeps {} (m_world m) (m_world m') \<and>
    Suc (starts (m_world m')) \<le> starts (m_world m)"
proof -
  have ev: "rx_pkt_master_start_stop \<noteq> timer_timeout" by simp
  note at = at_rest_event [OF assms ev]
  have cmd: "ac_action (currentAction (m_world m)) = send_master_start" using at_eventD(2) [OF at(3)] by simp
  obtain w1 where w1: "settled {} (postEvent masterDescription rx_pkt_master_start_stop m) w1"
    "mw_tx w1 = mw_tx (m_world m)" "keeps {} (m_world m) w1" "Suc (starts w1) \<le> starts (m_world m)"
    using report_settled [OF at, of RV_ok] cmd by (auto simp: MasterStart_event_def)
  then obtain m' s where m': "postEvent masterDescription rx_pkt_master_start_stop m = Some (Inr m')" "at_rest s m'"
    "speaks s (m_world m') (mw_tx (m_world m))" "keeps {} w1 (m_world m')" by (auto simp: settled_def)
  then have "starts (m_world m') \<le> starts w1" by (simp add: keeps_def)
  then show ?thesis using m' w1(3,4) keeps_trans by (auto simp: masterPacketReceived_def)
qed

text \<open>The answer to a token: a packet, a MAC update or the returned token.\<close>

lemma hear_answer:
  assumes "at_rest st_waitClientPacketDone m" and "mt \<in> {send_packet, mac_update, return_token}"
  shows "settled {} (masterPacketReceived (Some mt) bb m) (m_world m)"
proof -
  have "settled {} (postEvent masterDescription ev m) (m_world m)"
    if "ev = rx_pkt_client_packet \<and> rv = RV_client_packet_started \<or> ev = rx_return_token \<and> rv = RV_rx_token_no_packet" for ev rv
  proof -
    have ev: "ev \<noteq> timer_timeout" using that by auto
    note at = at_rest_event [OF assms(1) ev]
    show ?thesis using that at_eventD(2) [OF at(3)]
      using report_speaks [OF at, of rv] by (auto simp: WaitClientPacketDoneState_event_def)
  qed
  then show ?thesis using assms(2) by (auto simp: masterPacketReceived_def)
qed

lemma hear_grant:
  assumes "at_rest st_sendingToken m"
  shows "\<exists>m'. masterPacketReceived (Some grant_token) bb m = Some (Inr m') \<and> at_rest st_waitClientPacketDone m' \<and>
    mw_tx (m_world m') = mw_tx (m_world m) \<and> currentAction (m_world m') = currentAction (m_world m) \<and>
    keeps {} (m_world m) (m_world m')"
proof -
  let ?w = "m_world m" and ?w' = "startTimer masterTokenClientTimeout (cleanTimer (m_world m))"
  have ev: "rx_pkt_grant_token \<noteq> timer_timeout" by simp
  note at = at_rest_event [OF assms ev]
  have step: "masterEvent st_sendingToken rx_pkt_grant_token ?w = Inr (st_waitClientPacketDone, ?w', [])"
    by (simp add: masterEvent_def SendingToken_event_def WaitClientPacketDoneState_construct_def)
  then have rest: "rest_ok st_waitClientPacketDone ?w'"
    using sendingToken_outcome [OF at(3)] by (auto simp: outcome_def)
  obtain m' where "postEvent masterDescription rx_pkt_grant_token m = Some (Inr m')"
    "at_rest st_waitClientPacketDone m'" "m_world m' = ?w'"
    using post_moves [OF at(1,2) step rest] by blast
  then show ?thesis by (simp add: masterPacketReceived_def keeps_env)
qed

lemma hear_request:
  assumes "at_rest st_queryAddress m" and "sizeofHeader address_request \<le> length bb"
  shows "\<exists>m'. masterPacketReceived (Some address_request) bb m = Some (Inr m') \<and> at_rest st_waitAddressReply m' \<and>
    mw_tx (m_world m') = mw_tx (receivedAddressRequest (layout_AddressRequest bb) (m_world m)) \<and>
    keeps {} (receivedAddressRequest (layout_AddressRequest bb) (m_world m)) (m_world m')"
proof -
  let ?r = "layout_AddressRequest bb" and ?w1 = "receivedAddressRequest (layout_AddressRequest bb) (m_world m)"
  let ?w' = "startTimer masterTokenClientTimeout (cleanTimer ?w1)"
  have ev: "rx_pkt_address_request ?r \<noteq> timer_timeout" by simp
  note at = at_rest_event [OF assms(1) ev]
  have step: "masterEvent st_queryAddress (rx_pkt_address_request ?r) (m_world m) = Inr (st_waitAddressReply, ?w', [])"
    by (simp add: masterEvent_def QueryAddressState_event_def WaitAddressReply_construct_def)
  then have rest: "rest_ok st_waitAddressReply ?w'"
    using queryAddress_outcome [OF at(3)] by (auto simp: outcome_def)
  obtain m' where "postEvent masterDescription (rx_pkt_address_request ?r) m = Some (Inr m')"
    "at_rest st_waitAddressReply m'" "m_world m' = ?w'"
    using post_moves [OF at(1,2) step rest] by blast
  then show ?thesis using assms(2) by (simp add: masterPacketReceived_def toHeader_def keeps_env)
qed

section \<open>Timers\<close>

lemma run_check_speaks:
  assumes "flat_at masterSetup (stateId st_idle) m" and "vq_list (m_eventQueue m) = []"
    and "core_ok {#} 0 (m_world m)" and "doNothing (currentAction (m_world m))"
    and "cb_count CB_fsm_timeout (m_world m) = 0" and "cb_count CB_check_new_action (m_world m) = 0"
  shows "settled {} (runCheckNewAction m) (m_world m)"
proof -
  obtain w' evs where c: "checkNewAction (m_world m) = Inr (w', evs)" "checked (m_world m) w' evs"
    using checkNewAction_spec [OF assms(3,4)] by blast
  then have tx: "cb_count CB_fsm_timeout w' = 0" "mw_tx w' = mw_tx (m_world m)"
    using assms(5) by (simp_all add: checked_def same_env_def)
  then have out: "outcome st_idle w' evs" using outcome_checked [OF c(2)] assms(6) by simp
  have keep: "keeps {} (m_world m) w'" by (rule keeps_checkNewAction [OF assms(3,4) c(1)])
  let ?m = "m\<lparr>m_world := w'\<rparr>"
  have flat: "flat_at masterSetup (stateId st_idle) ?m" "vq_list (m_eventQueue ?m) = []"
    using assms(1,2) by simp_all
  show ?thesis
  proof (cases "evs = []")
    case True
    then have "at_rest st_idle ?m" "speaks st_idle (m_world ?m) (mw_tx (m_world m))"
      using flat out tx c(2) by (auto simp: at_rest_def outcome_def checked_def split: if_splits)
    then show ?thesis using c(1) True keep by (auto simp: runCheckNewAction_def settled_def)
  next
    case False
    then have evs: "evs = [check_new_command]" "ready_ok w'" using out by (auto simp: outcome_def)
    obtain m1 where m1: "postEvent masterDescription check_new_command ?m = processQueue masterDescription m1"
      "flat_at masterSetup (stateId st_idle) m1" "m_world m1 = w'" "vq_list (m_eventQueue m1) = [check_new_command]"
      using mfsm.postEvent_idle [OF flat] by auto
    then have "settled {} (postEvent masterDescription check_new_command ?m) (m_world m)"
      using settle_idle_speaks [of m1] evs(2) tx keep settled_trans by simp
    then show ?thesis using c(1) evs(1) by (auto simp: runCheckNewAction_def settled_def)
  qed
qed

text \<open>The timeout of a state that waits for others: it waits on while a packet is on its way, and
  otherwise looks for the next action.\<close>

lemma timeout_speaks:
  assumes "flat_at masterSetup (stateId s) m" and "vq_list (m_eventQueue m) = []"
    and "at_event s timer_timeout (m_world m)" and "s \<in> {st_waitClientPacketDone, st_queryAddress, st_waitAddressReply}"
  shows "settled (if s = st_waitClientPacketDone then {ac_address (currentAction (m_world m))} else {})
      (postEvent masterDescription timer_timeout m) (m_world m) \<or>
    (\<exists>m'. postEvent masterDescription timer_timeout m = Some (Inr m') \<and> at_rest s m' \<and>
       m_world m' = startTimer masterTokenClientTimeout (m_world m))"
proof (cases "mw_rxBusy (m_world m)")
  case True
  let ?w' = "startTimer masterTokenClientTimeout (m_world m)"
  have ev: "eventState s timer_timeout (m_world m) = Inr (True, ?w', None, [])"
    using True assms(4) by (auto simp: WaitClientPacketDoneState_event_def QueryAddressState_event_def
        WaitAddressReply_event_def)
  then have step: "masterEvent s timer_timeout (m_world m) = Inr (s, ?w', [])" by (simp add: masterEvent_def)
  have "s \<noteq> st_idle" using assms(4) by auto
  then have "rest_ok s ?w'" using rearmed_outcome [OF assms(3) _ ev] step by (auto simp: outcome_def)
  then show ?thesis using post_moves [OF assms(1,2) step] by blast
next
  case False
  note at = at_eventD [OF assms(3)]
  consider "s = st_waitClientPacketDone" | "s = st_queryAddress" | "s = st_waitAddressReply" using assms(4) by blast
  then show ?thesis
  proof cases
    case 1
    then show ?thesis using at False report_speaks [OF assms(1-3), of RV_token_timeout]
      by (simp add: WaitClientPacketDoneState_event_def)
  next
    case 2
    then show ?thesis using at False report_speaks [OF assms(1-3), of RV_address_query_done]
      by (simp add: QueryAddressState_event_def)
  next
    case 3
    let ?w = "cleanTimer (m_world m)"
    have core: "core_ok {#} 0 ?w" using core_ok_cleanTimer [OF at(1)] by simp
    have "fitting (ac_action (currentAction ?w)) RV_address_query_done" using at(2) 3 by simp
    then obtain w1 evs where r: "fsm_reportActionResult RV_address_query_done ?w = Inr (w1, evs)" "checked ?w w1 evs"
      using report_spec [OF core] by blast
    have step: "masterEvent s timer_timeout (m_world m) = Inr (st_idle, w1, evs)"
      using 3 False r(1) by (simp add: masterEvent_def WaitAddressReply_event_def WaitAddressReply_destruct_def)
    have "timers_ok (m_world m)" using at(1) by (simp add: core_ok_def)
    note c = cleanTimer_spec [OF this]
    have "cb_count CB_fsm_timeout w1 = 0" "cb_count CB_check_new_action ?w = 0"
      using r(2) c at(3) 3 by (simp_all add: checked_def same_env_def)
    then have out: "outcome st_idle w1 evs" using outcome_checked [OF r(2)] by simp
    have "settled {} (postEvent masterDescription timer_timeout m) w1"
      using r(2) by (intro post_speaks [OF assms(1,2) step out]) (auto simp: checked_def split: if_splits)
    moreover have "keeps {} (m_world m) ?w" by (rule keeps_env) simp_all
    moreover have "keeps {} ?w w1"
      using keeps_report [OF core _ r(1)] at(2) 3 by simp
    ultimately have "settled {} (postEvent masterDescription timer_timeout m) (m_world m)"
      using settled_trans keeps_trans r(2) by (auto simp: checked_def same_env_def)
    then show ?thesis using 3 by simp
  qed
qed

lemma timer_speaks:
  assumes "at_rest s m" and "s \<notin> {st_startMaster, st_sendingToken}" and "s = st_idle \<longrightarrow> doNothing (currentAction (m_world m))"
  shows "settled (if s = st_waitClientPacketDone then {ac_address (currentAction (m_world m))} else {})
      (timerFired i m) (m_world m) \<or>
    (\<exists>m'. timerFired i m = Some (Inr m') \<and> at_rest s m' \<and> mw_tx (m_world m') = mw_tx (m_world m) \<and>
       currentAction (m_world m') = currentAction (m_world m) \<and> keeps {} (m_world m) (m_world m'))"
proof (cases "fst (td_cb i (mw_ts (m_world m)))")
  case None
  then show ?thesis using timerFired_none [OF None] assms(1) by (simp add: keeps_same)
next
  case (Some cb)
  let ?w = "m_world m" and ?w' = "(m_world m)\<lparr>mw_ts := td_cancel i (mw_ts (m_world m))\<rparr>"
  let ?m = "m\<lparr>m_world := ?w'\<rparr>"
  have rest: "rest_ok s ?w" and core: "core_ok {#} 0 ?w"
    using assms(1) by (simp_all add: at_rest_def rest_ok_def)
  then have "ts_inv (mw_ts ?w)" by (simp add: core_ok_def timers_ok_def)
  then have cb: "(i, cb) \<in> ts_callbacks (mw_ts ?w)" "td_cb i (mw_ts ?w) = (Some cb, td_cancel i (mw_ts ?w))"
    using Some td_cb_Some [of "mw_ts ?w" i cb "snd (td_cb i (mw_ts ?w))"] by (auto simp: prod_eq_iff)
  then have fire: "timerFired i m = timerCallback cb ?m" by (simp add: timerFired_def)
  note fired = core_ok_fired [OF core cb(1) refl]
  have count: "cb_count cb' ?w' + (if cb' = cb then 1 else 0) = cb_count cb' ?w" for cb'
    using fired by blast
  have flat: "flat_at masterSetup (stateId s) ?m" "vq_list (m_eventQueue ?m) = []"
    using assms(1) by (simp_all add: at_rest_def)
  show ?thesis
  proof (cases cb)
    case CB_fsm_timeout
    have s: "s \<noteq> st_idle" using count [of CB_fsm_timeout] CB_fsm_timeout rest by (auto simp: rest_ok_def)
    then have at: "at_event s timer_timeout (m_world ?m)"
      using fired count [of CB_fsm_timeout] count [of CB_check_new_action] rest CB_fsm_timeout
      by (simp add: at_event_def rest_ok_def)
    have "s \<in> {st_waitClientPacketDone, st_queryAddress, st_waitAddressReply}"
      using s assms(2) by (cases s) simp_all
    moreover have "currentAction ?w' = currentAction ?w" by (simp add: currentAction_def)
    moreover have "keeps {} ?w (startTimer t ?w')" for t by (rule keeps_env) simp_all
    moreover have "settled A r ?w' = settled A r ?w" for A r
      by (simp add: settled_def keeps_def rows_def starts_def inFlight_def currentAction_def)
    ultimately show ?thesis using timeout_speaks [OF flat at] fire CB_fsm_timeout by auto
  next
    case CB_check_new_action
    then have s: "s = st_idle" "doNothing (currentAction ?w)"
      using count [of CB_check_new_action] rest by (auto simp: rest_ok_def split: if_splits)
    have "settled {} (runCheckNewAction ?m) ?w'"
      using run_check_speaks [of ?m] flat fired s CB_check_new_action rest count [of CB_fsm_timeout] count [of CB_check_new_action]
      by (simp add: rest_ok_def)
    then have "settled {} (runCheckNewAction ?m) ?w" by (rule settled_trans) (simp_all add: keeps_env)
    then show ?thesis using fire CB_check_new_action s(1) by simp
  next
    case CB_query_address
    let ?m2 = "?m\<lparr>m_world := postActionNow makeQueryAddressAction ?w'\<rparr>"
    have "cb_count CB_fsm_timeout (m_world ?m2) = cb_count CB_fsm_timeout ?w"
      "cb_count CB_check_new_action (m_world ?m2) = cb_count CB_check_new_action ?w"
      using count [of CB_fsm_timeout] count [of CB_check_new_action] CB_query_address by (simp_all add: cb_count_def)
    then have "rest_ok s (m_world ?m2)"
      using rest query_fired [of ?w'] fired CB_query_address by (simp add: rest_ok_def)
    moreover have "currentAction (m_world ?m2) = currentAction ?w" by (simp add: currentAction_def postActionNow_def)
    moreover have "starts (m_world ?m2) = starts ?w'"
      using starts_postActionNow [of ?w' makeQueryAddressAction] fired
      by (simp add: core_ok_def makeQueryAddressAction_def mkAction_def)
    then have "keeps {} ?w (m_world ?m2)"
      by (simp add: keeps_def rows_def) (simp add: starts_def inFlight_def currentAction_def)
    ultimately show ?thesis using flat fire CB_query_address by (simp add: at_rest_def)
  qed
qed

section \<open>Start\<close>

lemma addStaticLines_tx: "mw_tx (fold (addStaticLine uninit) is w) = mw_tx w"
  by (induction "is" arbitrary: w) (simp_all add: addStaticLine_def)

lemma addStaticLines_ready:
  assumes "vq_inv (ms_ready (ah_scheduler (mw_ah w)))" and "vq_list (ms_ready (ah_scheduler (mw_ah w))) = a # as"
  shows "\<exists>bs. vq_list (ms_ready (ah_scheduler (mw_ah (fold (addStaticLine uninit) is w)))) = a # bs \<and>
    vq_inv (ms_ready (ah_scheduler (mw_ah (fold (addStaticLine uninit) is w)))) \<and>
    starts (fold (addStaticLine uninit) is w) = starts w"
  using assms
proof (induction "is" arbitrary: w as)
  case (Cons i "is")
  let ?w = "addStaticLine uninit i w"
  have "vq_list (ms_ready (ah_scheduler (mw_ah ?w))) = a # as @ [(makeSendTokenAction (toLocalAddress_int i))\<lparr>ac_hasReportCB := True\<rparr>]"
    "vq_inv (ms_ready (ah_scheduler (mw_ah ?w)))" "starts ?w = starts w"
    using Cons.prems by (simp_all add: addStaticLine_def postActionNow_def addActionNow_def starts_def inFlight_def
        currentAction_def sched_actions_def makeSendTokenAction_def mkAction_def)
  then show ?case using Cons.IH [of ?w] by simp
qed simp

lemma startWorld_facts:
  fixes uninit now tx busy
  defines "w \<equiv> startWorld uninit now tx busy"
  shows "mw_tx w = tx" and "starts w = 1" and "rows w = (\<lambda>i. (toLocalAddress_int i, uninit (toLocalAddress_int i), False)) `
      {staticLowAddress .. staticHighAddress}"
    and "\<exists>as. vq_list (ms_ready (ah_scheduler (mw_ah w))) = makeMasterStartAction\<lparr>ac_hasReportCB := True\<rparr> # as"
proof -
  let ?w0 = "mkMasterWorld (mkTimeService now) tx busy" and ?a = "makeMasterStartAction\<lparr>ac_hasReportCB := True\<rparr>"
  let ?w1 = "postActionNow makeMasterStartAction ?w0"
  define w2 where "w2 = staticWorld uninit now tx busy"
  have w: "w = postActionNow makeQueryAddressAction (w2\<lparr>mw_dh := (mw_dh w2)\<lparr>dh_freeAddresses := dh_freeAddresses (mw_dh w2) @
      map toLocalAddress_int (rev [dynamicLowAddress .. dynamicHighAddress])\<rparr>\<rparr>)"
    by (simp add: w_def w2_def startWorld_def staticWorld_def dh_start_def Let_def mkMasterWorld_def mkDynamicHandler_def)
  have "vq_inv (ms_ready (ah_scheduler (mw_ah ?w1)))" "vq_list (ms_ready (ah_scheduler (mw_ah ?w1))) = [?a]" "starts ?w1 = 1"
    by (simp_all add: postActionNow_def mkMasterWorld_def mkActionHandler_def addActionNow_def starts_def inFlight_def
        currentAction_def doNothing_def makeDoNothingAction_def makeMasterStartAction_def mkAction_def mkMasterScheduler_def
        sched_actions_def)
  from addStaticLines_ready [OF this(1,2), of uninit "[staticLowAddress .. staticHighAddress]"] this(3)
  obtain bs where w2: "vq_list (ms_ready (ah_scheduler (mw_ah w2))) = ?a # bs" "vq_inv (ms_ready (ah_scheduler (mw_ah w2)))"
    "starts w2 = 1" by (auto simp: w2_def staticWorld_def)
  show "\<exists>as. vq_list (ms_ready (ah_scheduler (mw_ah w))) = ?a # as"
    using w2 by (simp add: w postActionNow_def addActionNow_def)
  have dh: "sched_ok (w2\<lparr>mw_dh := d\<rparr>) = sched_ok w2" "starts (w2\<lparr>mw_dh := d\<rparr>) = starts w2" for d
    by (simp_all add: sched_ok_def starts_def inFlight_def currentAction_def)
  have "sched_ok w2" by (rule staticWorld_spec(1) [OF w2_def])
  then show "starts w = 1" using w2(3) unfolding w
    by (subst starts_postActionNow) (simp_all add: dh makeQueryAddressAction_def mkAction_def)
  show "mw_tx w = tx" by (simp add: w w2_def staticWorld_def addStaticLines_tx) (simp add: mkMasterWorld_def)
  show "rows w = (\<lambda>i. (toLocalAddress_int i, uninit (toLocalAddress_int i), False)) ` {staticLowAddress .. staticHighAddress}"
    using staticWorld_spec(4) [OF w2_def] by (simp add: rows_def w mkAddressLine_def image_image)
qed

lemma mkMaster_speaks:
  assumes "1 \<le> now"
  shows "\<exists>m. mkMaster uninit now tx busy = Some (Inr m) \<and> at_rest st_startMaster m \<and>
    mw_tx (m_world m) = sendMsg startedMsg tx \<and> starts (m_world m) \<le> 1 \<and>
    rows (m_world m) = (\<lambda>i. (toLocalAddress_int i, uninit (toLocalAddress_int i), False)) ` {staticLowAddress .. staticHighAddress}"
proof -
  define w where "w = startWorld uninit now tx busy"
  note ok = startWorld_ok [OF assms w_def] and facts = startWorld_facts [of uninit now tx busy, folded w_def]
  have "fd_construct masterDescription (stateId st_idle) w = Inr (w, None)" by (simp add: masterDescription_def)
  from mfsm.setStartState_flat [OF findState_stateId _ this]
  obtain m where m: "setStartState masterDescription (stateId st_idle) (mkFsmBase masterSetup w) = Some (Inr m)"
    "flat_at masterSetup (stateId st_idle) m" "m_world m = w" "vq_list (m_eventQueue m) = []"
    by (auto simp: masterSetup_def)
  obtain as where front: "vq_list (ms_ready (ah_scheduler (mw_ah w))) = makeMasterStartAction\<lparr>ac_hasReportCB := True\<rparr> # as"
    using facts(4) by blast
  obtain b s where wk: "workToDo (ts_now (mw_ts w)) (ah_scheduler (mw_ah w)) = (b, s)" by fastforce
  have inv: "sched_inv (ah_scheduler (mw_ah w))" using ok by (simp add: core_ok_def sched_ok_def)
  note spec = workToDo_spec [OF inv wk]
  obtain w' evs where c: "checkNewAction w = Inr (w', evs)" "checked w w' evs"
    using checkNewAction_spec ok by blast
  have cur: "currentAction w' = makeMasterStartAction\<lparr>ac_hasReportCB := True\<rparr>"
    using c(1) wk spec(2,4) front ok ms_pop_spec(1) [OF spec(1)]
    by (auto simp: checkNewAction_def currentAction_def startAction_def Let_def split: if_splits)
  then have evs: "evs = [check_new_command]" and busy: "\<not> doNothing (currentAction w')" "mw_tx w' = mw_tx w"
    using c(2) by (auto simp: checked_def same_env_def doNothing_def makeMasterStartAction_def mkAction_def split: if_splits)
  have keep: "keeps {} w w'" using keeps_checkNewAction ok c(1) by blast
  have ready: "ready_ok w'"
    using outcome_checked [OF c(2)] c(2) ok evs by (auto simp: outcome_def checked_def same_env_def)
  let ?w = "MasterStart_construct w'"
  have "mf_currentAction (mw_fsm w') = currentAction w'" using ready by (simp add: ready_ok_def core_ok_def current_ok_def)
  then have step: "masterEvent st_idle check_new_command w' = Inr (st_startMaster, ?w, [])"
    using cur by (simp add: masterEvent_def Idle_event_def decodeAction_def makeMasterStartAction_def mkAction_def)
  then have rest: "rest_ok st_startMaster ?w" using command_outcome [OF ready] by (auto simp: outcome_def)
  obtain m' where m': "postEvent masterDescription check_new_command (m\<lparr>m_world := w'\<rparr>) = Some (Inr m')"
    "at_rest st_startMaster m'" "m_world m' = ?w"
    using post_moves [of st_idle "m\<lparr>m_world := w'\<rparr>" check_new_command, OF _ _ _ rest] m step by auto
  have "mkMaster uninit now tx busy = Some (Inr m')"
    using m(1,3) c(1) evs m'(1) by (simp add: mkMaster_def masterSetupResult_eq w_def startWorld_def runCheckNewAction_def Let_def)
  moreover have "keeps {} w' ?w" by (rule keeps_env) (simp_all add: MasterStart_construct_def sendMasterStart_def)
  then have k: "keeps {} w ?w" using keep keeps_trans by blast
  ultimately show ?thesis using m' busy(2) facts(1-3)
    by (auto simp: keeps_def MasterStart_construct_def master_sends)
qed

end
