(* ===== verification/Tap_Protocol.thy ===== *)
theory Tap_Protocol
  imports Tx_Queue Address_Cache
begin

text \<open>
  Ethernet frames between a tap device and the bus (\<open>src/src/drivers/tap/TapProtocol.{h,cpp}\<close>).
  The structures laid over the bytes are offsets: four bytes of the tap header, the destination
  and the source MAC address, the type, and for ARP the protocol type and the operation.

  What \<open>read\<close> returned is an argument: \<open>None\<close> for -1, else the bytes. A field that lies beyond the
  bytes read is the error \<open>Out_Of_Bounds\<close>. What \<open>write\<close> returns is an argument too. \<open>m_txIf\<close> is
  the transmit queue, or a null pointer.
\<close>

section \<open>Layout\<close>

definition tapBufSize :: nat where "tapBufSize = 1600"

text \<open>A field of \<open>n\<close> bytes at offset \<open>off\<close>.\<close>

definition field :: "nat \<Rightarrow> nat \<Rightarrow> byte_vec \<Rightarrow> byte_vec result" where
  "field off n bs = (if off + n \<le> length bs then Inr (take n (drop off bs)) else Inl Out_Of_Bounds)"

definition ether_destMAC :: "byte_vec \<Rightarrow> MacAddr result" where "ether_destMAC bs = field 4 6 bs"
definition ether_srcMAC :: "byte_vec \<Rightarrow> MacAddr result" where "ether_srcMAC bs = field 10 6 bs"
definition ether_type :: "byte_vec \<Rightarrow> byte_vec result" where "ether_type bs = field 16 2 bs"
definition arp_ptype :: "byte_vec \<Rightarrow> byte_vec result" where "arp_ptype bs = field 20 2 bs"
definition arp_oper :: "byte_vec \<Rightarrow> byte_vec result" where "arp_oper bs = field 24 2 bs"

section \<open>From the host to the bus\<close>

definition checkArp :: "byte_vec \<Rightarrow> TxQueue option \<Rightarrow> TxQueue option result" where
  "checkArp tap tx =
     (case tx of
        None \<Rightarrow> Inr None
      | Some q \<Rightarrow>
          rbind (ether_type tap) (\<lambda>ty.
            if ty = [0x08, 0x06]
            then rbind (arp_ptype tap) (\<lambda>ptype.
                 if ptype = [0x08, 0x00]
                 then rbind (arp_oper tap) (\<lambda>oper.
                      if oper = [0x00, 0x02] \<or> oper = [0x00, 0x01]
                      then rbind (ether_srcMAC tap) (\<lambda>mac. Inr (Some (msgHostTx_sendMacUpdate mac q)))
                      else Inr (Some q))
                 else Inr (Some q))
            else Inr (Some q)))"

definition tap_doRead ::
    "byte_vec option \<Rightarrow> AddressCache \<Rightarrow> TxQueue option \<Rightarrow> (AddressCache \<times> TxQueue option) result" where
  "tap_doRead readRes cache tx =
     (case readRes of
        None \<Rightarrow> Inl Length_Error
      | Some rx \<Rightarrow>
          (case tx of
             None \<Rightarrow> Inl Null_Deref
           | Some q \<Rightarrow>
               rbind (ether_srcMAC rx) (\<lambda>srcMAC.
               let cache' = updateMyMAC (clientAddress q) srcMAC cache in
               rbind (ether_destMAC rx) (\<lambda>destMAC.
               let destAddr = getLocalAddress destMAC cache' in
               if destAddr = null_addr then Inr (cache', Some q)
               else rbind (checkArp rx (Some q)) (\<lambda>tx'.
                    Inr (cache', map_option (msgHostTx_sendPacket rx destAddr tap_format) tx'))))))"

section \<open>From the bus to the host\<close>

text \<open>The result is the cache and what was written to the device, if anything.\<close>

definition tap_packetReceived ::
    "(byte_vec \<Rightarrow> int) \<Rightarrow> byte_vec \<Rightarrow> LocalAddress \<Rightarrow> LocalAddress \<Rightarrow> AddressCache option \<Rightarrow>
     (AddressCache option \<times> byte_vec option) result" where
  "tap_packetReceived write data srcAddr destAddr cache =
     (case cache of
        None \<Rightarrow> Inr (None, None)
      | Some c \<Rightarrow>
          rbind (if srcAddr \<noteq> broadcast \<and> \<not> fst (getMac srcAddr c)
                 then rbind (ether_srcMAC data) (\<lambda>mac. Inr (ca_setAddress srcAddr mac c))
                 else Inr c)
            (\<lambda>c'. let srcMac = getMac srcAddr c'; destMac = getMac destAddr c' in
               if \<not> fst srcMac \<or> \<not> fst destMac then Inr (Some c', None)
               else if write data \<noteq> int (length data) then Inl (Runtime_Error ''Unexpected write length'')
               else Inr (Some c', Some data)))"

section \<open>Facts\<close>

lemma field_Inr: "off + n \<le> length bs \<Longrightarrow> field off n bs = Inr (take n (drop off bs))"
  by (simp add: field_def)

lemmas tap_fields = ether_destMAC_def ether_srcMAC_def ether_type_def arp_ptype_def arp_oper_def field_def

lemma checkArp_ok:
  assumes "26 \<le> length tap"
  shows "checkArp tap (Some q) = Inr (Some q) \<or>
    checkArp tap (Some q) = Inr (Some (msgHostTx_sendMacUpdate (take 6 (drop 10 tap)) q))"
  using assms by (auto simp: checkArp_def tap_fields)

section \<open>Properties\<close>

text \<open>
  A frame read from the tap device that is long enough to hold the headers is passed on
  unchanged: for a node with an address and a destination the cache knows, the last packet put
  on the transmit queue carries exactly the frame, to the local address of the destination MAC
  address. At most one MAC update precedes it.
\<close>

theorem tap_frame_forwarded:
  assumes "26 \<le> length rx" and "clientAddress q \<noteq> null_addr"
    and "c = updateMyMAC (clientAddress q) (take 6 (drop 10 rx)) cache"
    and "dest = getLocalAddress (take 6 (drop 4 rx)) c" and "dest \<noteq> null_addr"
  shows "\<exists>q' pre. tap_doRead (Some rx) cache (Some q) = Inr (c, Some q') \<and> length pre \<le> 1 \<and>
    tq_txMsg q' = tq_txMsg q @ pre @
      [[messageType2Byte send_packet, channelType2Byte tap_format, dest, clientAddress q] @ rx]"
proof -
  have send: "clientAddress p \<noteq> null_addr \<Longrightarrow> tq_txMsg (msgHostTx_sendPacket rx dest tap_format p) =
      tq_txMsg p @ [[messageType2Byte send_packet, channelType2Byte tap_format, dest, clientAddress p] @ rx]" for p
    by (simp add: msgHostTx_sendPacket_def sendPacket_def oa_valid_def clientAddress_def layout_simps Let_def)
  have mac: "\<exists>m. tq_txMsg (msgHostTx_sendMacUpdate mac q) = tq_txMsg q @ [m]" for mac
    using assms(2) by (simp add: msgHostTx_sendMacUpdate_def oa_valid_def clientAddress_def Let_def)
  have read: "tap_doRead (Some rx) cache (Some q) = rbind (checkArp rx (Some q)) (\<lambda>tx'.
      Inr (c, map_option (msgHostTx_sendPacket rx dest tap_format) tx'))"
    using assms by (simp add: tap_doRead_def ether_srcMAC_def ether_destMAC_def field_def Let_def)
  from checkArp_ok [OF assms(1), of q] show ?thesis
  proof
    assume "checkArp rx (Some q) = Inr (Some q)"
    then show ?thesis using read send [OF assms(2)] by auto
  next
    let ?q = "msgHostTx_sendMacUpdate (take 6 (drop 10 rx)) q"
    assume "checkArp rx (Some q) = Inr (Some ?q)"
    moreover obtain m where "tq_txMsg ?q = tq_txMsg q @ [m]" using mac by blast
    ultimately show ?thesis using read send [of ?q] assms(2) by (intro exI [of _ "msgHostTx_sendPacket rx dest tap_format ?q"] exI [of _ "[m]"]) simp
  qed
qed

theorem tap_frame_forwarded_witness:
  "\<exists>q' pre. tap_doRead (Some (replicate 10 0xff @ replicate 20 7)) (mkAddressCache []) (Some (mkTxQueue 2)) =
      Inr (updateMyMAC 2 (replicate 6 7) (mkAddressCache []), Some q') \<and> length pre \<le> 1 \<and>
     tq_txMsg q' = pre @ [[messageType2Byte send_packet, channelType2Byte tap_format, broadcast, 2] @
       replicate 10 0xff @ replicate 20 7]"
proof -
  let ?rx = "replicate 10 0xff @ replicate 20 (7 :: byte)"
  have own: "clientAddress (mkTxQueue 2) = 2" by (simp add: clientAddress_def mkTxQueue_def mkOwnAddress_def)
  have "getLocalAddress (take 6 (drop 4 ?rx)) (updateMyMAC 2 (take 6 (drop 10 ?rx)) (mkAddressCache [])) = broadcast"
    "take 6 (drop 10 ?rx) = replicate 6 7" "26 \<le> length ?rx" by (simp_all add: getLocalAddress_def broadcastMac_def)
  then show ?thesis
    using tap_frame_forwarded [of ?rx "mkTxQueue 2" _ "mkAddressCache []", OF _ _ refl refl] own
    by (simp add: null_addr_def broadcast_def) (simp add: mkTxQueue_def)
qed

text \<open>
  What \<open>doRead\<close> does with a short read: when \<open>read\<close> fails the buffer is resized to a negative
  length, and when it returns fewer than sixteen bytes (as at the end of standard input) the MAC
  addresses are taken from beyond the bytes read.
\<close>

theorem tap_short_read:
  assumes "length rx < 16"
  shows "tap_doRead (Some rx) cache (Some q) = Inl Out_Of_Bounds \<and> tap_doRead None cache (Some q) = Inl Length_Error"
  using assms by (simp add: tap_doRead_def ether_srcMAC_def field_def)

theorem tap_short_read_witness:
  "tap_doRead (Some []) (mkAddressCache []) (Some (mkTxQueue 2)) = Inl Out_Of_Bounds"
  using tap_short_read [of "[]" "mkAddressCache []" "mkTxQueue 2"] by simp

text \<open>
  Frames from the bus. When the device takes the frame, it is written unchanged exactly if
  the MAC address of the destination is in the cache; the MAC address of a sender that was not
  known is learned from the frame. In particular a frame to the node's own address is dropped
  until a MAC update for that address was received, although \<open>updateMyMAC\<close> knows the own MAC
  address.
\<close>

theorem tap_frame_written:
  assumes "16 \<le> length data" and "\<And>d. write d = int (length d)" and "src \<noteq> broadcast" and "cache_inv c"
  shows "\<exists>c'. tap_packetReceived write data src dest (Some c) =
      Inr (Some c', if dest = broadcast \<or> dest = src \<or> cache_map c dest \<noteq> None then Some data else None) \<and>
    getMac src c' = (True, case cache_map c src of None \<Rightarrow> take 6 (drop 10 data) | Some m \<Rightarrow> m)"
proof -
  let ?mac = "take 6 (drop 10 data)"
  let ?c = "if cache_map c src = None then ca_setAddress src ?mac c else c"
  have inv: "cache_inv ?c" using assms(4) cache.inv_set by simp
  have view: "cache_map ?c = (if cache_map c src = None then (cache_map c)(src \<mapsto> ?mac) else cache_map c)"
    using assms(3,4) cache.view_set by simp
  have get: "getMac a c = (case cache_map c a of None \<Rightarrow> (False, illegalMac) | Some m \<Rightarrow> (True, m))"
    "getMac a ?c = (case cache_map ?c a of None \<Rightarrow> (False, illegalMac) | Some m \<Rightarrow> (True, m))"
    if "a \<noteq> broadcast" for a
    using that assms(4) inv cache.get_view by blast+
  have src: "getMac src ?c = (True, case cache_map c src of None \<Rightarrow> ?mac | Some m \<Rightarrow> m)"
    using get(2) [OF assms(3)] view by (auto split: option.splits)
  have dest: "fst (getMac dest ?c) = (dest = broadcast \<or> dest = src \<or> cache_map c dest \<noteq> None)"
  proof (cases "dest = broadcast")
    case True
    then show ?thesis by (simp add: getMac_def)
  next
    case False
    then show ?thesis using get(2) [OF False] view by (auto split: option.splits)
  qed
  have learn: "(if src \<noteq> broadcast \<and> \<not> fst (getMac src c)
       then rbind (ether_srcMAC data) (\<lambda>mac. Inr (ca_setAddress src mac c)) else Inr c) = Inr ?c"
    using get(1) [OF assms(3)] assms(1,3) by (auto simp: ether_srcMAC_def field_def split: option.splits)
  have "tap_packetReceived write data src dest (Some c) =
      Inr (Some ?c, if dest = broadcast \<or> dest = src \<or> cache_map c dest \<noteq> None then Some data else None)"
    unfolding tap_packetReceived_def option.case learn using src dest assms(2) by (auto simp: Let_def)
  then show ?thesis using src by blast
qed

theorem tap_frame_written_witness:
  "\<exists>c'. tap_packetReceived (\<lambda>d. int (length d)) (replicate 20 7) 3 2
      (Some (updateMyMAC 2 [1, 2, 3, 4, 5, 6] (mkAddressCache []))) = Inr (Some c', None)"
proof -
  let ?c = "updateMyMAC 2 [1, 2, 3, 4, 5, 6] (mkAddressCache [])"
  have "cache_inv ?c" "cache_map ?c 2 = None"
    by (simp_all add: updateMyMAC_def mkAddressCache_def cache_inv_def cache_map_def)
  then show ?thesis
    using tap_frame_written [of "replicate 20 7" "\<lambda>d. int (length d)" 3 ?c 2] by (auto simp: broadcast_def)
qed

end
