(* ===== verification/Tun_Protocol.thy ===== *)
theory Tun_Protocol
  imports Tx_Queue
begin

text \<open>
  IP packets between a tun device and the bus (\<open>src/src/drivers/tun/TunProtocol.{h,cpp}\<close> and the
  copy of the same reader in \<open>src/src/drivers/tun/SocatTunHostDriver.cpp\<close>). A packet starts with
  four bytes of tun header and the twenty bytes of the IPv4 header; its length is taken from the
  header and the local address is the last byte of the destination IP address.

  What \<open>read\<close> returned is an argument (\<open>None\<close> for -1), and so are the return value of \<open>write\<close> and
  the content of the uninitialised buffer on the stack of \<open>doRead2\<close>.
\<close>

definition tunHeaderLen :: nat where "tunHeaderLen = 4 + 20"
definition tunBuffLen :: nat where "tunBuffLen = 2048"

text \<open>\<open>Ipv4Header::getLength\<close> and the last byte of \<open>m_destAddr\<close>, in the bytes of a \<open>TunIpv4Header\<close>.\<close>

definition ipv4Length :: "byte_vec \<Rightarrow> nat" where
  "ipv4Length bs = unat (bs ! 6) * 0x100 + unat (bs ! 7)"

definition ipv4LastDest :: "byte_vec \<Rightarrow> byte" where
  "ipv4LastDest bs = bs ! 23"

section \<open>Reading a packet in two steps\<close>

datatype ReadType = rt_header | rt_data

record TunProtocol =
  tp_readHeader :: byte_vec
  tp_rxTunPacket :: byte_vec
  tp_readType :: ReadType
  tp_tx :: "TxQueue option"

definition mkTunProtocol :: "byte_vec \<Rightarrow> TunProtocol" where
  "mkTunProtocol uninit = \<lparr>tp_readHeader = uninit, tp_rxTunPacket = [], tp_readType = rt_header, tp_tx = None\<rparr>"

definition tp_setTx :: "TxQueue option \<Rightarrow> TunProtocol \<Rightarrow> TunProtocol" where
  "tp_setTx tx t = t\<lparr>tp_tx := tx\<rparr>"

text \<open>How many bytes the next \<open>read\<close> of \<open>doRead\<close> asks for.\<close>

definition tun_wanted :: "TunProtocol \<Rightarrow> nat" where
  "tun_wanted t = (case tp_readType t of
     rt_header \<Rightarrow> tunHeaderLen | rt_data \<Rightarrow> length (tp_rxTunPacket t) - tunHeaderLen)"

definition tun_doRead :: "byte_vec option \<Rightarrow> TunProtocol \<Rightarrow> TunProtocol result" where
  "tun_doRead readRes t =
     (case tp_readType t of
        rt_header \<Rightarrow>
          (case readRes of
             None \<Rightarrow> Inl (Runtime_Error ''Unexpected read length'')
           | Some bs \<Rightarrow>
               if length bs \<noteq> tunHeaderLen then Inl (Runtime_Error ''Unexpected read length'')
               else (let pkt = vec_resize (ipv4Length bs + 4) (tp_rxTunPacket t) in
                     if length pkt < tunHeaderLen then Inl Out_Of_Bounds
                     else Inr (t\<lparr>tp_readHeader := bs, tp_rxTunPacket := bs @ drop tunHeaderLen pkt,
                                tp_readType := rt_data\<rparr>)))
      | rt_data \<Rightarrow>
          (let readMaxLen = length (tp_rxTunPacket t) - tunHeaderLen;
               destAddr = toLocalAddress_byte (ipv4LastDest (tp_rxTunPacket t)) in
           case readRes of
             None \<Rightarrow> Inl (Runtime_Error ''Unexpected read length'')
           | Some bs \<Rightarrow>
               if length bs \<noteq> readMaxLen then Inl (Runtime_Error ''Unexpected read length'')
               else (let pkt = take tunHeaderLen (tp_rxTunPacket t) @ bs in
                     Inr (t\<lparr>tp_rxTunPacket := pkt, tp_readType := rt_header,
                            tp_tx := map_option (msgHostTx_sendPacket pkt destAddr tun_format) (tp_tx t)\<rparr>))))"

section \<open>Reading a packet at once\<close>

definition tun_doRead2 :: "byte_vec \<Rightarrow> byte_vec option \<Rightarrow> TxQueue option \<Rightarrow> TxQueue option result" where
  "tun_doRead2 uninit readRes tx =
     (case readRes of
        None \<Rightarrow> Inl (Runtime_Error ''Unexpected read length'')
      | Some bs \<Rightarrow>
          (let readBuf = bs @ drop (length bs) uninit in
           if length bs < tunHeaderLen then Inl (Runtime_Error ''Unexpected read length'')
           else (let n = ipv4Length readBuf + 4;
                     destAddr = toLocalAddress_byte (ipv4LastDest readBuf) in
                 case tx of
                   None \<Rightarrow> Inr None
                 | Some q \<Rightarrow>
                     if tunBuffLen < n then Inl Out_Of_Bounds
                     else Inr (Some (msgHostTx_sendPacket (take n readBuf) destAddr tun_format q)))))"

definition tun_packetReceivedFromNet :: "(byte_vec \<Rightarrow> int) \<Rightarrow> byte_vec \<Rightarrow> byte_vec result" where
  "tun_packetReceivedFromNet write data =
     (if write data \<noteq> int (length data) then Inl (Runtime_Error ''Unexpected write length'') else Inr data)"

section \<open>Properties\<close>

text \<open>
  Reading in two steps reassembles a packet. From a reader that waits for a header, the two
  reads of a well formed packet (the header, then as many bytes as its length field announces)
  put exactly that packet on the transmit queue, for the local address in the last byte of the
  destination IP address, and the reader waits for the next header.
\<close>

theorem tun_two_step_read:
  assumes "tp_readType t = rt_header" and "tp_tx t = Some q" and "clientAddress q \<noteq> null_addr"
    and "length hdr = tunHeaderLen" and "ipv4Length hdr + 4 = length (hdr @ body)"
  shows "\<exists>t1 t2 q'. tun_doRead (Some hdr) t = Inr t1 \<and> tun_wanted t1 = length body \<and>
    tun_doRead (Some body) t1 = Inr t2 \<and> tp_readType t2 = rt_header \<and> tp_tx t2 = Some q' \<and>
    tq_txMsg q' = tq_txMsg q @
      [[messageType2Byte send_packet, channelType2Byte tun_format, hdr ! 23, clientAddress q] @ hdr @ body]"
proof -
  let ?pkt = "vec_resize (ipv4Length hdr + 4) (tp_rxTunPacket t)"
  let ?t1 = "t\<lparr>tp_readHeader := hdr, tp_rxTunPacket := hdr @ drop tunHeaderLen ?pkt, tp_readType := rt_data\<rparr>"
  have len: "length ?pkt = length hdr + length body" using assms(5) by simp
  have first: "tun_doRead (Some hdr) t = Inr ?t1"
    using assms(1,4) len by (simp add: tun_doRead_def Let_def)
  have wanted: "length (tp_rxTunPacket ?t1) - tunHeaderLen = length body"
    "take tunHeaderLen (tp_rxTunPacket ?t1) = hdr" using assms(4) len by simp_all
  have dest: "ipv4LastDest (tp_rxTunPacket ?t1) = hdr ! 23"
    using assms(4) by (simp add: ipv4LastDest_def tunHeaderLen_def nth_append)
  let ?q = "msgHostTx_sendPacket (hdr @ body) (hdr ! 23) tun_format q"
  let ?t2 = "?t1\<lparr>tp_rxTunPacket := hdr @ body, tp_readType := rt_header, tp_tx := Some ?q\<rparr>"
  have "tun_doRead (Some body) ?t1 = Inr ?t2"
    using wanted dest assms(2) by (simp add: tun_doRead_def Let_def toLocalAddress_byte_def)
  moreover have "tq_txMsg ?q = tq_txMsg q @
      [[messageType2Byte send_packet, channelType2Byte tun_format, hdr ! 23, clientAddress q] @ hdr @ body]"
    using assms(3) by (simp add: msgHostTx_sendPacket_def sendPacket_def oa_valid_def clientAddress_def layout_simps Let_def)
  moreover have "tun_wanted ?t1 = length body" using wanted(1) by (simp add: tun_wanted_def)
  ultimately show ?thesis using first
    by (intro exI [of _ ?t1] exI [of _ ?t2] exI [of _ ?q]) simp
qed

definition exampleTunHeader :: byte_vec where
  "exampleTunHeader = [0, 0, 8, 0, 0x45, 0, 0, 22] @ replicate 15 0 @ [5]"

theorem tun_two_step_read_witness:
  "\<exists>t1 t2 q'. tun_doRead (Some exampleTunHeader) (tp_setTx (Some (mkTxQueue 2)) (mkTunProtocol [])) = Inr t1 \<and>
     tun_doRead (Some [8, 9]) t1 = Inr t2 \<and> tp_tx t2 = Some q' \<and>
     tq_txMsg q' = [[messageType2Byte send_packet, channelType2Byte tun_format, 5, 2] @ exampleTunHeader @ [8, 9]]"
proof -
  have h: "length exampleTunHeader = tunHeaderLen" "ipv4Length exampleTunHeader + 4 = length (exampleTunHeader @ [8, 9])"
    "exampleTunHeader ! 23 = 5" by (code_simp)+
  have q: "clientAddress (mkTxQueue 2) = 2" "tq_txMsg (mkTxQueue 2) = []"
    by (simp_all add: clientAddress_def mkTxQueue_def mkOwnAddress_def)
  have t: "tp_readType (tp_setTx (Some (mkTxQueue 2)) (mkTunProtocol [])) = rt_header"
    "tp_tx (tp_setTx (Some (mkTxQueue 2)) (mkTunProtocol [])) = Some (mkTxQueue 2)"
    by (simp_all add: tp_setTx_def mkTunProtocol_def)
  have "clientAddress (mkTxQueue 2) \<noteq> null_addr" using q by (simp add: null_addr_def)
  from tun_two_step_read [OF t this h(1,2)] show ?thesis unfolding q h by auto
qed

text \<open>
  C36: Reading at once trusts the length field. For a read of at least a header, \<open>doRead2\<close> sends
  exactly the bytes read when the length field is right; when the field announces more than was
  read, the packet ends with uninitialised bytes of the stack buffer, and when it announces more
  than the buffer holds, the packet is taken from beyond the buffer.
\<close>

theorem tun_single_read_trusts_length:
  assumes "tunHeaderLen \<le> length bs" and "length bs \<le> tunBuffLen" and "length uninit = tunBuffLen"
    and "n = ipv4Length bs + 4" and "clientAddress q \<noteq> null_addr"
    and "hdr = [messageType2Byte send_packet, channelType2Byte tun_format, bs ! 23, clientAddress q]"
  shows "if tunBuffLen < n then tun_doRead2 uninit (Some bs) (Some q) = Inl Out_Of_Bounds
    else \<exists>q'. tun_doRead2 uninit (Some bs) (Some q) = Inr (Some q') \<and>
      tq_txMsg q' = tq_txMsg q @ [hdr @ take n bs @ take (n - length bs) (drop (length bs) uninit)]"
proof -
  let ?buf = "bs @ drop (length bs) uninit"
  have "ipv4Length ?buf = ipv4Length bs" "ipv4LastDest ?buf = bs ! 23"
    using assms(1) by (simp_all add: ipv4Length_def ipv4LastDest_def tunHeaderLen_def nth_append)
  then show ?thesis using assms
    by (simp add: tun_doRead2_def toLocalAddress_byte_def msgHostTx_sendPacket_def sendPacket_def oa_valid_def
        clientAddress_def layout_simps Let_def)
qed

theorem tun_single_read_trusts_length_witness:
  "\<exists>q'. tun_doRead2 (replicate 2048 0xaa) (Some exampleTunHeader) (Some (mkTxQueue 2)) = Inr (Some q') \<and>
     tq_txMsg q' = [[messageType2Byte send_packet, channelType2Byte tun_format, 5, 2] @ exampleTunHeader @ [0xaa, 0xaa]]"
proof -
  have h: "tunHeaderLen \<le> length exampleTunHeader" "length exampleTunHeader \<le> tunBuffLen"
    "ipv4Length exampleTunHeader + 4 = 26" "exampleTunHeader ! 23 = 5" "length exampleTunHeader = 24" by code_simp+
  have q: "clientAddress (mkTxQueue 2) = 2" "tq_txMsg (mkTxQueue 2) = []"
    by (simp_all add: clientAddress_def mkTxQueue_def mkOwnAddress_def)
  have "take 2 (drop 24 (replicate 2048 0xaa)) = [0xaa, 0xaa :: byte]" by (simp add: numeral_2_eq_2)
  then show ?thesis
    using tun_single_read_trusts_length [OF h(1,2) _ refl _ refl, of "replicate 2048 0xaa" "mkTxQueue 2"] h q
    by (simp add: tunBuffLen_def null_addr_def)
qed

end
