(* ===== verification/Host_Drivers.thy ===== *)
theory Host_Drivers
  imports Tap_Protocol Tun_Protocol
begin

text \<open>
  The drivers on the host side: the owner of a file descriptor (\<open>src/src/hal/PosixFd.{h,cpp}\<close>), the
  tun/tap device (\<open>src/src/drivers/tap/TunTapDriver.cpp\<close>), the drivers of a network interface
  (\<open>TapHostDriver\<close>, \<open>TunHostDriver\<close>), the drivers for socat (\<open>SocatTapHostDriver\<close>,
  \<open>SocatTunHostDriver\<close>), for a pseudo terminal (\<open>PtyRawHostDriver\<close>) and for standard input and
  output (\<open>StdioRawHostDriver\<close>).

  The results of system calls are arguments. Calls that have no result the code looks at
  (\<open>close\<close>, \<open>system\<close>, the \<open>write\<close> of the raw drivers) are collected in the state.
\<close>

section \<open>File descriptors\<close>

text \<open>\<open>fd_posixIf\<close>: the owner has an interface to close its descriptor with (the pointer is not null; every owner of the
  program has one). \<open>fd_closed\<close> collects the calls of \<open>close\<close>.\<close>

record PosixFd =
  fd_fd :: int
  fd_posixIf :: bool
  fd_closed :: "int list"

definition mkPosixFd :: PosixFd where
  "mkPosixFd = \<lparr>fd_fd = -1, fd_posixIf = True, fd_closed = []\<rparr>"

definition makeFd :: "int \<Rightarrow> PosixFd" where
  "makeFd fd = \<lparr>fd_fd = fd, fd_posixIf = True, fd_closed = []\<rparr>"

definition fd_valid :: "PosixFd \<Rightarrow> bool" where
  "fd_valid p \<longleftrightarrow> 0 \<le> fd_fd p"

definition fd_set :: "int \<Rightarrow> PosixFd \<Rightarrow> PosixFd" where
  "fd_set fd p = (if 0 \<le> fd_fd p \<and> fd_posixIf p then p\<lparr>fd_closed := fd_closed p @ [fd_fd p]\<rparr> else p)\<lparr>fd_fd := fd\<rparr>"

definition fd_close :: "PosixFd \<Rightarrow> PosixFd" where
  "fd_close p = fd_set (-1) p"

text \<open>The move constructor (the new owner, and what it leaves of the old one) and the destructor.\<close>

definition fd_move :: "PosixFd \<Rightarrow> PosixFd \<times> PosixFd" where
  "fd_move fd = (\<lparr>fd_fd = fd_fd fd, fd_posixIf = fd_posixIf fd, fd_closed = []\<rparr>, fd\<lparr>fd_fd := -1\<rparr>)"

definition fd_destroy :: "PosixFd \<Rightarrow> PosixFd" where
  "fd_destroy p = fd_set (-1) p"

section \<open>The tun/tap device\<close>

datatype IfType = if_tun | if_tap

fun ifType_toString :: "IfType \<Rightarrow> string" where
  "ifType_toString if_tap = ''tap''"
| "ifType_toString if_tun = ''tun''"

definition ifNameSize :: nat where "ifNameSize = 16"
definition iff_up :: "16 word" where "iff_up = 1"
definition iff_tun :: "16 word" where "iff_tun = 1"
definition iff_tap :: "16 word" where "iff_tap = 2"

text \<open>
  \<open>openRes\<close> is what \<open>open\<close> of the device returned, \<open>tunsetiff\<close> the result of the ioctl with the name
  it leaves in the request. The results are the descriptor or error code, the name of the device
  and the descriptors closed.
\<close>

definition tuntap_alloc ::
    "int \<Rightarrow> (string \<Rightarrow> 16 word \<Rightarrow> int \<times> string) \<Rightarrow> string \<Rightarrow> IfType \<Rightarrow> int \<times> string \<times> int list" where
  "tuntap_alloc openRes tunsetiff dev type =
     (if openRes < 0 then (-1, dev, [])
      else (let flags = (if type = if_tap then iff_tap else iff_tun);
                (err, name) = tunsetiff (take ifNameSize dev) flags in
            if err < 0 then (err, dev, [openRes]) else (openRes, name, [])))"

text \<open>The requests that change the owner of a device and make it stay. The numbers of the user and of
  the group are what the system's tables gave for the names, if they are known.\<close>

datatype tun_ioctl = TUNSETOWNER nat | TUNSETGROUP nat | TUNSETPERSIST nat

definition setUserGroup :: "int \<Rightarrow> nat option \<Rightarrow> nat option \<Rightarrow> tun_ioctl list result" where
  "setUserGroup fd pwEntry grpEntry =
     (if fd < 0 then Inl Assert_Failed
      else Inr ((case pwEntry of None \<Rightarrow> [] | Some uid \<Rightarrow> [TUNSETOWNER uid]) @
                (case grpEntry of None \<Rightarrow> [] | Some gid \<Rightarrow> [TUNSETGROUP gid])))"

definition persist :: "bool \<Rightarrow> tun_ioctl list" where
  "persist p = [TUNSETPERSIST (if p then 1 else 0)]"

text \<open>
  \<open>socketOk\<close>, \<open>getFlags\<close> and \<open>setFlags\<close> are the answers of the system; the result is the value
  given to \<open>SIOCSIFFLAGS\<close>, if it was called.
\<close>

record IfSystem =
  is_socketOk :: bool
  is_getFlags :: "string \<Rightarrow> 16 word option"
  is_setFlags :: "string \<Rightarrow> 16 word \<Rightarrow> bool"

definition setIfUpDown :: "IfSystem \<Rightarrow> bool \<Rightarrow> string \<Rightarrow> 16 word option result" where
  "setIfUpDown sys up tapName =
     (if length tapName > ifNameSize \<or> length tapName = 0
      then Inl (Runtime_Error ''Tap device name length error.'')
      else if \<not> is_socketOk sys then Inl (Runtime_Error ''Failed opening socket for TAP handling.'')
      else case is_getFlags sys tapName of
             None \<Rightarrow> Inl (Runtime_Error ''Failed getting tap interface flags.'')
           | Some oldVal \<Rightarrow>
               (let new = (if up then oldVal OR iff_up else oldVal AND NOT iff_up) in
                if new \<noteq> oldVal
                then (if is_setFlags sys tapName new then Inr (Some new)
                      else Inl (Runtime_Error ''Failed setting tap interface flags.''))
                else Inr None))"

section \<open>Drivers of a network interface\<close>

text \<open>\<open>id_system\<close> collects the commands given to \<open>system\<close>, \<open>id_requests\<close> the calls of \<open>setIfUpDown\<close>.\<close>

record IfDriver =
  id_fd :: PosixFd
  id_on_if_up :: string
  id_on_if_down :: string
  id_ifUp :: bool
  id_name :: string
  id_system :: "string list"
  id_requests :: "bool list"

definition mkTapHostDriver :: IfDriver where
  "mkTapHostDriver = \<lparr>id_fd = mkPosixFd, id_on_if_up = '''', id_on_if_down = '''', id_ifUp = False,
     id_name = ''tap0'', id_system = [], id_requests = []\<rparr>"

definition mkTunHostDriver :: IfDriver where
  "mkTunHostDriver = \<lparr>id_fd = mkPosixFd, id_on_if_up = '''', id_on_if_down = '''', id_ifUp = False,
     id_name = ''tun0'', id_system = [], id_requests = []\<rparr>"

definition setIfEventCommands :: "string \<Rightarrow> string \<Rightarrow> IfDriver \<Rightarrow> IfDriver" where
  "setIfEventCommands onUp onDown d = d\<lparr>id_on_if_up := onUp, id_on_if_down := onDown\<rparr>"

definition tap_newAddr :: "IfSystem \<Rightarrow> LocalAddress \<Rightarrow> IfDriver \<Rightarrow> IfDriver result" where
  "tap_newAddr sys addr d =
     (let newIfUp = (addr \<noteq> null_addr) in
      if newIfUp \<noteq> id_ifUp d
      then rbind (setIfUpDown sys newIfUp (id_name d)) (\<lambda>_.
           let d1 = d\<lparr>id_requests := id_requests d @ [newIfUp]\<rparr>;
               d2 = (if newIfUp \<and> id_on_if_up d1 \<noteq> '''' then d1\<lparr>id_system := id_system d1 @ [id_on_if_up d1]\<rparr>
                     else if \<not> newIfUp \<and> id_on_if_down d1 \<noteq> ''''
                     then d1\<lparr>id_system := id_system d1 @ [id_on_if_down d1]\<rparr>
                     else d1)
           in Inr (d2\<lparr>id_ifUp := newIfUp\<rparr>))
      else Inr d)"

definition tun_newAddr :: "IfSystem \<Rightarrow> LocalAddress \<Rightarrow> IfDriver \<Rightarrow> IfDriver result" where
  "tun_newAddr sys addr d =
     (let newIfUp = (addr \<noteq> null_addr) in
      if newIfUp \<noteq> id_ifUp d
      then rbind (setIfUpDown sys newIfUp (id_name d)) (\<lambda>_.
           let d1 = d\<lparr>id_requests := id_requests d @ [newIfUp]\<rparr>;
               d2 = (if newIfUp \<and> id_on_if_up d1 \<noteq> '''' then d1\<lparr>id_system := id_system d1 @ [id_on_if_up d1]\<rparr>
                     else if \<not> newIfUp \<and> id_on_if_down d1 \<noteq> ''''
                     then d1\<lparr>id_system := id_system d1 @ [id_on_if_down d1]\<rparr>
                     else d1)
           in Inr (d2\<lparr>id_ifUp := newIfUp\<rparr>))
      else Inr d)"

definition tap_destroy :: "IfSystem \<Rightarrow> IfDriver \<Rightarrow> IfDriver result" where
  "tap_destroy sys d =
     (if id_ifUp d
      then rbind (setIfUpDown sys False (id_name d)) (\<lambda>_.
           Inr (d\<lparr>id_requests := id_requests d @ [False], id_ifUp := False\<rparr>))
      else Inr d)"

definition tun_destroy :: "IfSystem \<Rightarrow> IfDriver \<Rightarrow> IfDriver result" where
  "tun_destroy sys d =
     (if id_ifUp d
      then rbind (setIfUpDown sys False (id_name d)) (\<lambda>_.
           Inr (d\<lparr>id_requests := id_requests d @ [False], id_ifUp := False\<rparr>))
      else Inr d)"

text \<open>\<open>setupCallback\<close> opens the device; \<open>alloc\<close> is what \<open>tuntap_alloc\<close> answered for the driver's name.\<close>

definition tap_setupCallback :: "int \<times> string \<Rightarrow> IfDriver \<Rightarrow> IfDriver result" where
  "tap_setupCallback alloc d =
     (let d' = d\<lparr>id_fd := fd_set (fst alloc) (id_fd d), id_name := snd alloc\<rparr> in
      if fd_fd (id_fd d') < 0 then Inl (Runtime_Error ''Failed starting tap interface.'') else Inr d')"

definition tun_setupCallback :: "int \<times> string \<Rightarrow> IfDriver \<Rightarrow> IfDriver result" where
  "tun_setupCallback alloc d =
     (let d' = d\<lparr>id_fd := fd_set (fst alloc) (id_fd d), id_name := snd alloc\<rparr> in
      if fd_fd (id_fd d') < 0 then Inl (Runtime_Error ''Failed starting tun interface.'') else Inr d')"

definition tap_startTransfer ::
    "IfSystem \<Rightarrow> int \<times> string \<Rightarrow> host_driver \<Rightarrow> TxQueue \<Rightarrow> IfDriver \<Rightarrow> (IfDriver \<times> TxQueue) result" where
  "tap_startTransfer sys alloc this q d =
     rbind (tap_setupCallback alloc d) (\<lambda>d1.
       let q' = setAddrUpdateHandler True (setRxHandler (Some this) tap_format q) in
       rbind (tap_newAddr sys (clientAddress q') d1) (\<lambda>d2. Inr (d2, q')))"

definition tun_startTransfer ::
    "IfSystem \<Rightarrow> int \<times> string \<Rightarrow> host_driver \<Rightarrow> TxQueue \<Rightarrow> IfDriver \<Rightarrow> (IfDriver \<times> TxQueue) result" where
  "tun_startTransfer sys alloc this q d =
     rbind (tun_setupCallback alloc d) (\<lambda>d1.
       let q' = setAddrUpdateHandler True (setRxHandler (Some this) tun_format q) in
       rbind (tun_newAddr sys (clientAddress q') d1) (\<lambda>d2. Inr (d2, q')))"

text \<open>Packets from the bus, for the two devices and for the two drivers on standard output.\<close>

definition tapDriver_packetReceived ::
    "(byte_vec \<Rightarrow> int) \<Rightarrow> byte_vec \<Rightarrow> LocalAddress \<Rightarrow> LocalAddress \<Rightarrow> ChannelType \<Rightarrow> AddressCache option \<Rightarrow>
     (AddressCache option \<times> byte_vec option) result" where
  "tapDriver_packetReceived write data srcAddr destAddr chType cache =
     tap_packetReceived write data srcAddr destAddr cache"

definition tunDriver_packetReceived ::
    "(byte_vec \<Rightarrow> int) \<Rightarrow> byte_vec \<Rightarrow> ChannelType \<Rightarrow> byte_vec result" where
  "tunDriver_packetReceived write data chType =
     (if chType = tun_format then tun_packetReceivedFromNet write data
      else Inl (Runtime_Error ''trying to decode tun packet with wrong packet type.''))"

definition socatTap_packetReceived ::
    "(byte_vec \<Rightarrow> int) \<Rightarrow> byte_vec \<Rightarrow> LocalAddress \<Rightarrow> LocalAddress \<Rightarrow> ChannelType \<Rightarrow> AddressCache option \<Rightarrow>
     (AddressCache option \<times> byte_vec option) result" where
  "socatTap_packetReceived write data srcAddr destAddr chType cache =
     (if chType = tap_format then tap_packetReceived write data srcAddr destAddr cache
      else Inr (cache, None))"

definition socatTap_startTransfer :: "host_driver \<Rightarrow> TxQueue \<Rightarrow> TxQueue" where
  "socatTap_startTransfer this q = setRxHandler (Some this) tap_format q"

definition socatTun_startTransfer :: "host_driver \<Rightarrow> TxQueue \<Rightarrow> TxQueue" where
  "socatTun_startTransfer this q = setRxHandler (Some this) tun_format q"

definition socatTun_packetReceived :: "(byte_vec \<Rightarrow> int) \<Rightarrow> byte_vec \<Rightarrow> byte_vec result" where
  "socatTun_packetReceived write data =
     (if write data \<noteq> int (length data) then Inl (Runtime_Error ''Unexpected write length'') else Inr data)"

text \<open>The reader of the socat driver, a copy of the one in \<open>TunProtocol\<close>.\<close>

definition socatTun_doRead :: "byte_vec option \<Rightarrow> TunProtocol \<Rightarrow> TunProtocol result" where
  "socatTun_doRead readRes t =
     (case tp_readType t of
        rt_header \<Rightarrow>
          (case readRes of
             None \<Rightarrow> Inl (Runtime_Error ''Unexpected read length'')
           | Some bs \<Rightarrow>
               if length bs \<noteq> tunHeaderLen then Inl (Runtime_Error ''Unexpected read length'')
               else (let pkt = vec_resize (ipv4Length bs + 4) (tp_rxTunPacket t) in
                     if length pkt < length bs then Inl Out_Of_Bounds
                     else Inr (t\<lparr>tp_readHeader := bs, tp_rxTunPacket := bs @ drop (length bs) pkt,
                                tp_readType := rt_data\<rparr>)))
      | rt_data \<Rightarrow>
          (let readMaxLen = length (tp_rxTunPacket t) - tunHeaderLen;
               destAddr = toLocalAddress_byte (ipv4LastDest (tp_rxTunPacket t)) in
           case readRes of
             None \<Rightarrow> Inl (Runtime_Error ''Unexpected read length'')
           | Some bs \<Rightarrow>
               if length bs \<noteq> readMaxLen then Inl (Runtime_Error ''Unexpected read length'')
               else (let t' = t\<lparr>tp_rxTunPacket := take tunHeaderLen (tp_rxTunPacket t) @ bs, tp_readType := rt_header\<rparr> in
                     case tp_tx t' of
                       None \<Rightarrow> Inr t'
                     | Some q \<Rightarrow>
                         Inr (t'\<lparr>tp_tx := Some (msgHostTx_sendPacket (tp_rxTunPacket t') destAddr tun_format q)\<rparr>))))"

section \<open>Interfaces that follow the address\<close>

text \<open>A system on which the interface of the driver can be controlled.\<close>

definition ifHealthy :: "IfSystem \<Rightarrow> IfDriver \<Rightarrow> bool" where
  "ifHealthy sys d \<longleftrightarrow> is_socketOk sys \<and> is_getFlags sys (id_name d) \<noteq> None \<and>
     (\<forall>f. is_setFlags sys (id_name d) f) \<and> 0 < length (id_name d) \<and> length (id_name d) \<le> ifNameSize"

definition ifCommand :: "IfDriver \<Rightarrow> bool \<Rightarrow> string list" where
  "ifCommand d up = filter (\<lambda>c. c \<noteq> '''') [if up then id_on_if_up d else id_on_if_down d]"

lemma setIfUpDown_healthy: "ifHealthy sys d \<Longrightarrow> \<exists>w. setIfUpDown sys up (id_name d) = Inr w"
  by (auto simp: ifHealthy_def setIfUpDown_def Let_def)

fun newAddrs :: "(LocalAddress \<Rightarrow> 'd \<Rightarrow> 'd result) \<Rightarrow> LocalAddress list \<Rightarrow> 'd \<Rightarrow> 'd result" where
  "newAddrs f [] d = Inr d"
| "newAddrs f (a # as) d = rbind (f a d) (newAddrs f as)"

text \<open>What both drivers promise of one notification, and what follows for a sequence of them.\<close>

locale address_listener =
  fixes newAddr :: "IfSystem \<Rightarrow> LocalAddress \<Rightarrow> IfDriver \<Rightarrow> IfDriver result"
  assumes newAddr_edge: "ifHealthy sys d \<Longrightarrow> (a \<noteq> null_addr) \<noteq> id_ifUp d \<Longrightarrow>
      newAddr sys a d = Inr (d\<lparr>id_requests := id_requests d @ [a \<noteq> null_addr],
        id_system := id_system d @ ifCommand d (a \<noteq> null_addr), id_ifUp := a \<noteq> null_addr\<rparr>)"
    and newAddr_same: "(a \<noteq> null_addr) = id_ifUp d \<Longrightarrow> newAddr sys a d = Inr d"
begin

lemma newAddrs_edges:
  assumes "ifHealthy sys d"
  shows "newAddrs (newAddr sys) as d = Inr (d\<lparr>
      id_requests := id_requests d @ tl (remdups_adj (id_ifUp d # map (\<lambda>a. a \<noteq> null_addr) as)),
      id_system := id_system d @ concat (map (ifCommand d) (tl (remdups_adj (id_ifUp d # map (\<lambda>a. a \<noteq> null_addr) as)))),
      id_ifUp := last (id_ifUp d # map (\<lambda>a. a \<noteq> null_addr) as)\<rparr>)"
  using assms
proof (induction as arbitrary: d)
  case Nil
  then show ?case by simp
next
  case (Cons a as)
  show ?case
  proof (cases "(a \<noteq> null_addr) = id_ifUp d")
    case True
    then show ?thesis using Cons newAddr_same [OF True] by simp
  next
    case False
    let ?d = "d\<lparr>id_requests := id_requests d @ [a \<noteq> null_addr],
        id_system := id_system d @ ifCommand d (a \<noteq> null_addr), id_ifUp := a \<noteq> null_addr\<rparr>"
    have same: "ifHealthy sys ?d" "ifCommand ?d = ifCommand d"
      using Cons.prems by (auto simp: ifHealthy_def ifCommand_def)
    obtain r where r: "remdups_adj ((\<not> id_ifUp d) # map (\<lambda>a. a \<noteq> null_addr) as) = (\<not> id_ifUp d) # r"
      by (metis hd_Cons_tl hd_remdups_adj list.sel(1) remdups_adj_Nil_iff list.discI)
    have up: "(a \<noteq> null_addr) = (\<not> id_ifUp d)" using False by blast
    show ?thesis
      using newAddr_edge [OF Cons.prems False] Cons.IH [OF same(1)] same(2) r
      unfolding list.map up by (simp add: remdups_adj_Cons' [of "id_ifUp d"])
  qed
qed

end

lemma tap_newAddr_edge:
  assumes "ifHealthy sys d" and "(a \<noteq> null_addr) \<noteq> id_ifUp d"
  shows "tap_newAddr sys a d = Inr (d\<lparr>id_requests := id_requests d @ [a \<noteq> null_addr],
        id_system := id_system d @ ifCommand d (a \<noteq> null_addr), id_ifUp := a \<noteq> null_addr\<rparr>)"
proof -
  obtain w where "setIfUpDown sys (a \<noteq> null_addr) (id_name d) = Inr w" using setIfUpDown_healthy [OF assms(1)] by blast
  then show ?thesis using assms(2) by (simp add: tap_newAddr_def ifCommand_def Let_def)
qed

lemma tun_newAddr_eq: "tun_newAddr = tap_newAddr"
  by (intro ext) (simp add: tun_newAddr_def tap_newAddr_def)

interpretation tapIf: address_listener tap_newAddr
  by unfold_locales (rule tap_newAddr_edge, assumption+, simp add: tap_newAddr_def)

interpretation tunIf: address_listener tun_newAddr
  unfolding tun_newAddr_eq by (rule tapIf.address_listener_axioms)

section \<open>Properties\<close>

text \<open>
  The network interface follows the address. On a system that lets it, after any sequence of
  address notifications the interface of the tap driver, and likewise of the tun driver, is up
  exactly if the last address is not the null address; it was switched once per change between
  having and not having an address, and the configured command for each change was run, in order.
\<close>

theorem interface_follows_address:
  assumes "ifHealthy sys d"
    and "edges = tl (remdups_adj (id_ifUp d # map (\<lambda>a. a \<noteq> null_addr) as))"
    and "run \<in> {newAddrs (tap_newAddr sys) as d, newAddrs (tun_newAddr sys) as d}"
  shows "\<exists>d'. run = Inr d' \<and> id_ifUp d' = last (id_ifUp d # map (\<lambda>a. a \<noteq> null_addr) as) \<and>
    id_requests d' = id_requests d @ edges \<and>
    id_system d' = id_system d @ filter (\<lambda>c. c \<noteq> '''')
      (map (\<lambda>up. if up then id_on_if_up d else id_on_if_down d) edges)"
proof -
  have "concat (map (ifCommand d) es) = filter (\<lambda>c. c \<noteq> '''')
      (map (\<lambda>up. if up then id_on_if_up d else id_on_if_down d) es)" for es
    by (induction es) (auto simp: ifCommand_def)
  then show ?thesis
    using assms(2,3) tapIf.newAddrs_edges [OF assms(1), of as] tunIf.newAddrs_edges [OF assms(1), of as] by auto
qed

definition exampleIfSystem :: IfSystem where
  "exampleIfSystem = \<lparr>is_socketOk = True, is_getFlags = (\<lambda>_. Some 0), is_setFlags = (\<lambda>_ _. True)\<rparr>"

theorem interface_follows_address_witness:
  "\<exists>d'. newAddrs (tap_newAddr exampleIfSystem) [3, 4, 0, 5]
       (setIfEventCommands ''up'' ''down'' mkTapHostDriver) = Inr d' \<and>
     id_ifUp d' \<and> id_system d' = [''up'', ''down'', ''up'']"
  using interface_follows_address [of exampleIfSystem "setIfEventCommands ''up'' ''down'' mkTapHostDriver"
      _ "[3, 4, 0, 5]" "newAddrs (tap_newAddr exampleIfSystem) [3, 4, 0, 5]
       (setIfEventCommands ''up'' ''down'' mkTapHostDriver)", OF _ refl]
  by (auto simp: ifHealthy_def exampleIfSystem_def setIfEventCommands_def mkTapHostDriver_def ifNameSize_def
      null_addr_def)


text \<open>
  A file descriptor is closed exactly once. Whatever descriptors an owner is given, one after
  the other, once it is closed every valid one of them has been closed once, in order, and the
  owner is empty; closing again does nothing.
\<close>

theorem posix_fd_closes_each_once:
  "fd_closed (fd_close (foldl (\<lambda>p fd. fd_set fd p) mkPosixFd fds)) = filter (\<lambda>fd. 0 \<le> fd) fds \<and>
   \<not> fd_valid (fd_close p) \<and> fd_close (fd_close p) = fd_close p"
proof -
  have "fd_closed (fd_close (foldl (\<lambda>p fd. fd_set fd p) p fds)) =
      fd_closed p @ filter (\<lambda>fd. 0 \<le> fd) (fd_fd p # fds)" if "fd_posixIf p" for p :: PosixFd
    using that by (induction fds arbitrary: p) (simp_all add: fd_close_def fd_set_def)
  then show ?thesis by (simp add: mkPosixFd_def fd_valid_def fd_close_def fd_set_def)
qed

end
