(* ===== verification/Raw_Drivers.thy ===== *)
theory Raw_Drivers
  imports Host_Drivers
begin

text \<open>
  The drivers for raw data: the pseudo terminal (\<open>src/src/drivers/pty/PtyRawHostDriver.{h,cpp}\<close>) with
  the folder of links to the terminals (\<open>src/src/core/FolderManager.{h,cpp}\<close>), and standard input and
  output (\<open>src/src/drivers/stdstream/StdioRawHostDriver.{h,cpp}\<close>).

  The file system is a map from paths to nodes. \<open>stat\<close> follows a symbolic link, \<open>unlink\<close> and
  \<open>symlink\<close> do not; a call fails for the reasons that depend on the map only (no permission or
  device errors). A thrown \<open>std::system_error\<close> is \<open>Runtime_Error ''system_error''\<close>.
\<close>

section \<open>File system\<close>

datatype fs_node = Directory | Link string | Special

type_synonym file_system = "string \<rightharpoonup> fs_node"

definition systemError :: cpp_error where
  "systemError = Runtime_Error ''system_error''"

fun fs_stat :: "file_system \<Rightarrow> string \<Rightarrow> bool" where
  "fs_stat fs path =
     (case fs path of
        None \<Rightarrow> False
      | Some (Link t) \<Rightarrow> (case fs t of None \<Rightarrow> False | Some (Link t') \<Rightarrow> False | Some n \<Rightarrow> True)
      | Some n \<Rightarrow> True)"

definition fs_mkdir :: "string \<Rightarrow> file_system \<Rightarrow> file_system result" where
  "fs_mkdir path fs = (if fs path \<noteq> None then Inl systemError else Inr (fs(path \<mapsto> Directory)))"

definition fs_unlink :: "string \<Rightarrow> file_system \<Rightarrow> file_system result" where
  "fs_unlink path fs =
     (if fs path = None \<or> fs path = Some Directory then Inl systemError else Inr (fs(path := None)))"

definition fs_symlink :: "string \<Rightarrow> string \<Rightarrow> file_system \<Rightarrow> file_system result" where
  "fs_symlink target path fs = (if fs path \<noteq> None then Inl systemError else Inr (fs(path \<mapsto> Link target)))"

section \<open>Folder manager\<close>

definition rootPath :: "string option \<Rightarrow> string option \<Rightarrow> string \<Rightarrow> string result" where
  "rootPath home pwDir configPath =
     (if take 2 configPath = ''~/''
      then (case (case home of None \<Rightarrow> pwDir | Some h \<Rightarrow> Some h) of
              None \<Rightarrow> Inl (Runtime_Error ''Failed to read home dir when setting up rootDir dir.'')
            | Some homedir \<Rightarrow> Inr (homedir @ drop 1 configPath))
      else Inr configPath)"

definition setupRootDir :: "string \<Rightarrow> file_system \<Rightarrow> file_system result" where
  "setupRootDir path fs = (if fs_stat fs path then Inr fs else fs_mkdir path fs)"

text \<open>Output of an address: a decimal number.\<close>

fun decimal :: "nat \<Rightarrow> string" where
  "decimal n = (if n < 10 then [char_of (48 + n)] else decimal (n div 10) @ [char_of (48 + n mod 10)])"

declare decimal.simps [simp del]

definition ptyLinkPath :: "string \<Rightarrow> LocalAddress \<Rightarrow> string" where
  "ptyLinkPath rootDir addr = rootDir @ ''/pty/'' @ decimal (unat addr)"

definition addPtyLink :: "string \<Rightarrow> LocalAddress \<Rightarrow> string \<Rightarrow> file_system \<Rightarrow> file_system result" where
  "addPtyLink rootDir addr ptyPath fs =
     (let path = ptyLinkPath rootDir addr; ptyDirPath = rootDir @ ''/pty'' in
      rbind (if fs_stat fs ptyDirPath then Inr fs else fs_mkdir ptyDirPath fs) (\<lambda>fs1.
      rbind (if fs_stat fs1 path then fs_unlink path fs1 else Inr fs1) (\<lambda>fs2.
      fs_symlink ptyPath path fs2)))"

definition removePtyLink :: "string \<Rightarrow> LocalAddress \<Rightarrow> file_system \<Rightarrow> file_system result" where
  "removePtyLink rootDir addr fs = fs_unlink (ptyLinkPath rootDir addr) fs"

section \<open>Pseudo terminal\<close>

text \<open>\<open>py_fm\<close> is the root path of the folder manager, or \<open>None\<close> for the null pointer. \<open>py_watched\<close> says
  that the loop watches the terminal, \<open>py_restarts\<close> counts the restarts handed to the loop and
  \<open>py_written\<close> collects the data written to the terminal.\<close>

record PtyRawHostDriver =
  py_fd :: PosixFd
  py_peerAddr :: LocalAddress
  py_hasTx :: bool
  py_fm :: "string option"
  py_watched :: bool
  py_restarts :: nat
  py_written :: "byte_vec list"

definition mkPtyRawHostDriver :: PtyRawHostDriver where
  "mkPtyRawHostDriver = \<lparr>py_fd = mkPosixFd, py_peerAddr = null_addr, py_hasTx = False, py_fm = None,
     py_watched = False, py_restarts = 0, py_written = []\<rparr>"

definition py_setFM :: "string option \<Rightarrow> PtyRawHostDriver \<Rightarrow> PtyRawHostDriver" where
  "py_setFM fm d = d\<lparr>py_fm := fm\<rparr>"

text \<open>The results of \<open>posix_openpt\<close>, \<open>grantpt\<close>, \<open>unlockpt\<close>, \<open>tcgetattr\<close>, \<open>tcsetattr\<close> and \<open>ptsname\<close>.\<close>

record PtySystem =
  ps_openpt :: int
  ps_grantpt :: int
  ps_unlockpt :: int
  ps_tcgetattr :: int
  ps_tcsetattr :: int
  ps_ptsname :: "string option"

definition openPty :: "PtySystem \<Rightarrow> int result" where
  "openPty sys =
     (if ps_openpt sys = -1 then Inl (Runtime_Error ''Failed posix_openpt.'')
      else if ps_grantpt sys = -1 then Inl (Runtime_Error ''Failed grantpt.'')
      else if ps_unlockpt sys = -1 then Inl (Runtime_Error ''Failed unlockpt.'')
      else if ps_tcgetattr sys = -1 then Inl systemError
      else if ps_tcsetattr sys = -1 then Inl systemError
      else Inr (ps_openpt sys))"

definition ptyName :: "PtySystem \<Rightarrow> string result" where
  "ptyName sys = (case ps_ptsname sys of None \<Rightarrow> Inl (Runtime_Error ''No pty name given'') | Some n \<Rightarrow> Inr n)"

definition py_monitorRead ::
    "PtySystem \<Rightarrow> PtyRawHostDriver \<Rightarrow> file_system \<Rightarrow> (PtyRawHostDriver \<times> file_system) result" where
  "py_monitorRead sys d fs =
     rbind (openPty sys) (\<lambda>fd.
     let d1 = d\<lparr>py_fd := fd_set fd (py_fd d)\<rparr> in
     rbind (ptyName sys) (\<lambda>name.
     rbind (case py_fm d1 of None \<Rightarrow> Inr fs | Some rootDir \<Rightarrow> addPtyLink rootDir (py_peerAddr d1) name fs) (\<lambda>fs1.
     Inr (d1\<lparr>py_watched := True\<rparr>, fs1))))"

definition closePty ::
    "PtyRawHostDriver \<Rightarrow> file_system \<Rightarrow> (PtyRawHostDriver \<times> file_system) result" where
  "closePty d fs =
     rbind (case py_fm d of
              None \<Rightarrow> Inr fs
            | Some rootDir \<Rightarrow> if fd_valid (py_fd d) then removePtyLink rootDir (py_peerAddr d) fs else Inr fs)
       (\<lambda>fs1. Inr (d\<lparr>py_fd := fd_close (py_fd d)\<rparr>, fs1))"

definition triggerPtyRestart :: "PtyRawHostDriver \<Rightarrow> PtyRawHostDriver" where
  "triggerPtyRestart d = d\<lparr>py_restarts := Suc (py_restarts d)\<rparr>"

text \<open>The function handed to the loop by \<open>triggerPtyRestart\<close>.\<close>

definition ptyRestart ::
    "PtySystem \<Rightarrow> PtyRawHostDriver \<Rightarrow> file_system \<Rightarrow> (PtyRawHostDriver \<times> file_system) result" where
  "ptyRestart sys d fs =
     (if py_restarts d = 0 then Inr (d, fs)
      else rbind (closePty (d\<lparr>py_restarts := py_restarts d - 1\<rparr>) fs) (\<lambda>(d1, fs1). py_monitorRead sys d1 fs1))"

definition py_setupCallback ::
    "PtySystem \<Rightarrow> host_driver \<Rightarrow> LocalAddress \<Rightarrow> TxQueue \<Rightarrow> PtyRawHostDriver \<Rightarrow> file_system \<Rightarrow>
     (PtyRawHostDriver \<times> file_system \<times> TxQueue) result" where
  "py_setupCallback sys this peerAddress q d fs =
     rbind (py_monitorRead sys (d\<lparr>py_peerAddr := peerAddress, py_hasTx := True\<rparr>) fs) (\<lambda>(d1, fs1).
       Inr (d1, fs1, setRxHandler (Some this) raw_stream q))"

text \<open>\<open>read\<close> returned an error number or bytes. The first result says whether the loop goes on
  watching the terminal.\<close>

definition eio :: int where "eio = 5"

definition py_doRead ::
    "int + byte_vec \<Rightarrow> PtyRawHostDriver \<Rightarrow> TxQueue \<Rightarrow> bool \<times> PtyRawHostDriver \<times> TxQueue" where
  "py_doRead readRes d q =
     (case readRes of
        Inl errno \<Rightarrow>
          if errno = eio then (False, (triggerPtyRestart d)\<lparr>py_watched := False\<rparr>, q) else (True, d, q)
      | Inr bs \<Rightarrow>
          (True, d, if py_hasTx d then msgHostTx_sendPacket bs (py_peerAddr d) raw_stream q else q))"

definition py_packetReceivedFromNet ::
    "byte_vec \<Rightarrow> LocalAddress \<Rightarrow> ChannelType \<Rightarrow> PtyRawHostDriver \<Rightarrow> PtyRawHostDriver" where
  "py_packetReceivedFromNet data srcAddr chType d =
     (if chType = raw_stream \<and> (srcAddr = py_peerAddr d \<or> py_peerAddr d = broadcast)
      then d\<lparr>py_written := py_written d @ [data]\<rparr> else d)"

section \<open>Standard input and output\<close>

record StdioRawHostDriver =
  sr_rxAddr :: LocalAddress
  sr_destAddr :: LocalAddress
  sr_hasTx :: bool
  sr_written :: "byte_vec list"

definition mkStdioRawHostDriver :: StdioRawHostDriver where
  "mkStdioRawHostDriver = \<lparr>sr_rxAddr = null_addr, sr_destAddr = null_addr, sr_hasTx = False, sr_written = []\<rparr>"

definition startStdout :: "LocalAddress \<Rightarrow> StdioRawHostDriver \<Rightarrow> StdioRawHostDriver" where
  "startStdout rxAddress d = d\<lparr>sr_rxAddr := rxAddress\<rparr>"

definition startStdin :: "LocalAddress \<Rightarrow> StdioRawHostDriver \<Rightarrow> StdioRawHostDriver" where
  "startStdin destAddr d = d\<lparr>sr_destAddr := destAddr, sr_hasTx := True\<rparr>"

definition writeToNet :: "byte_vec \<Rightarrow> StdioRawHostDriver \<Rightarrow> TxQueue \<Rightarrow> TxQueue" where
  "writeToNet packet d q =
     (if sr_hasTx d \<and> sr_destAddr d \<noteq> null_addr
      then msgHostTx_sendPacket packet (sr_destAddr d) raw_stream q else q)"

text \<open>The callback for readable standard input; \<open>None\<close> stands for -1.\<close>

definition stdinReadable :: "byte_vec option \<Rightarrow> StdioRawHostDriver \<Rightarrow> TxQueue \<Rightarrow> TxQueue" where
  "stdinReadable readRes d q =
     (case readRes of
        None \<Rightarrow> q
      | Some bs \<Rightarrow> if 0 < length bs then writeToNet bs d q else q)"

definition sr_packetReceivedFromNet :: "byte_vec \<Rightarrow> StdioRawHostDriver \<Rightarrow> StdioRawHostDriver" where
  "sr_packetReceivedFromNet data d = d\<lparr>sr_written := sr_written d @ [data]\<rparr>"

section \<open>Facts\<close>

lemma ptyLinkPath_neq_dir [simp]: "ptyLinkPath rootDir addr \<noteq> rootDir @ ''/pty''"
  "rootDir @ ''/pty'' \<noteq> ptyLinkPath rootDir addr"
  by (simp_all add: ptyLinkPath_def)

lemma addPtyLink_fresh:
  assumes "fs (ptyLinkPath rootDir addr) = None" and "fs (rootDir @ ''/pty'') = Some Directory"
  shows "addPtyLink rootDir addr name fs = Inr (fs(ptyLinkPath rootDir addr \<mapsto> Link name))"
  using assms by (simp add: addPtyLink_def fs_symlink_def Let_def)

section \<open>Properties\<close>

text \<open>
  C38: A pseudo terminal outlives the program that reads it. When the reader dies, the read error
  makes the driver stop watching the terminal and order one restart, and no packet is sent; the
  restart closes the old descriptor, watches the new terminal, and moves the link for the peer to
  it. Nothing else in the file system changes.
\<close>

theorem pty_restart:
  assumes "fd_valid (py_fd d)" and "fd_posixIf (py_fd d)" and "py_fm d = Some rootDir" and "py_restarts d = 0"
    and "fs (ptyLinkPath rootDir (py_peerAddr d)) = Some (Link old)" and "fs (rootDir @ ''/pty'') = Some Directory"
    and "openPty sys = Inr fd" and "ps_ptsname sys = Some new"
    and "py_doRead (Inl eio) d q = (cont, d1, q1)"
  shows "\<not> cont \<and> q1 = q \<and> \<not> py_watched d1 \<and>
    ptyRestart sys d1 fs = Inr (d\<lparr>py_fd := (py_fd d)\<lparr>fd_fd := fd, fd_closed := fd_closed (py_fd d) @ [fd_fd (py_fd d)]\<rparr>,
      py_watched := True\<rparr>, fs(ptyLinkPath rootDir (py_peerAddr d) \<mapsto> Link new))"
proof -
  let ?p = "ptyLinkPath rootDir (py_peerAddr d)"
  have "addPtyLink rootDir (py_peerAddr d) new (fs(?p := None)) = Inr (fs(?p \<mapsto> Link new))"
    using assms(6) addPtyLink_fresh [of "fs(?p := None)" rootDir "py_peerAddr d" new] by simp
  then show ?thesis using assms
    by (auto simp: py_doRead_def triggerPtyRestart_def ptyRestart_def closePty_def removePtyLink_def fs_unlink_def
        py_monitorRead_def ptyName_def fd_close_def fd_set_def fd_valid_def Let_def)
qed

definition examplePtySystem :: PtySystem where
  "examplePtySystem = \<lparr>ps_openpt = 9, ps_grantpt = 0, ps_unlockpt = 0, ps_tcgetattr = 0, ps_tcsetattr = 0,
     ps_ptsname = Some ''/dev/pts/9''\<rparr>"

definition examplePty :: PtyRawHostDriver where
  "examplePty = mkPtyRawHostDriver\<lparr>py_fd := makeFd 7, py_fm := Some ''r'', py_watched := True,
     py_peerAddr := 3\<rparr>"

definition exampleFs :: file_system where
  "exampleFs = [''r/pty'' \<mapsto> Directory, ''r/pty/3'' \<mapsto> Link ''/dev/pts/7'']"

lemma decimal_digit [simp]: "n < 10 \<Longrightarrow> decimal n = [char_of (48 + n)]"
  by (simp add: decimal.simps)

lemma exampleFs_link [simp]: "ptyLinkPath ''r'' 3 = ''r/pty/3''"
  by (simp add: ptyLinkPath_def) code_simp

theorem pty_restart_witness:
  "\<exists>d1. py_doRead (Inl eio) examplePty (mkTxQueue 1) = (False, d1, mkTxQueue 1) \<and>
     (\<exists>d2 fs2. ptyRestart examplePtySystem d1 exampleFs = Inr (d2, fs2) \<and>
        fs2 ''r/pty/3'' = Some (Link ''/dev/pts/9'') \<and> fd_closed (py_fd d2) = [7])"
proof -
  obtain cont d1 q1 where run: "py_doRead (Inl eio) examplePty (mkTxQueue 1) = (cont, d1, q1)"
    by (cases "py_doRead (Inl eio) examplePty (mkTxQueue 1)") auto
  have "fd_valid (py_fd examplePty)" "fd_posixIf (py_fd examplePty)" "py_fm examplePty = Some ''r''" "py_restarts examplePty = 0"
    "py_peerAddr examplePty = 3" "fd_closed (py_fd examplePty) = []" "fd_fd (py_fd examplePty) = 7"
    by (simp_all add: examplePty_def fd_valid_def makeFd_def mkPtyRawHostDriver_def)
  moreover have "exampleFs ''r/pty/3'' = Some (Link ''/dev/pts/7'')" "exampleFs (''r'' @ ''/pty'') = Some Directory"
    "openPty examplePtySystem = Inr 9" "ps_ptsname examplePtySystem = Some ''/dev/pts/9''"
    by (simp_all add: exampleFs_def openPty_def examplePtySystem_def)
  ultimately show ?thesis
    using pty_restart [of examplePty "''r''" exampleFs "''/dev/pts/7''" examplePtySystem 9 "''/dev/pts/9''",
        OF _ _ _ _ _ _ _ _ run] run by simp
qed

text \<open>
  A link left behind by a program that did not clean up stops the driver. When the link for the
  peer exists but the terminal it points to is gone, \<open>stat\<close> reports that nothing is there, the
  link is not removed, and creating the new one throws.
\<close>

theorem stale_pty_link_throws:
  assumes "fs (ptyLinkPath rootDir addr) = Some (Link old)" and "fs old = None" and "old \<noteq> rootDir @ ''/pty''"
  shows "addPtyLink rootDir addr name fs = Inl systemError"
  using assms by (auto simp: addPtyLink_def fs_mkdir_def fs_symlink_def Let_def simp del: fs_stat.simps)
    (auto split: option.splits fs_node.splits)

theorem stale_pty_link_throws_witness: "addPtyLink ''r'' 3 ''/dev/pts/9'' exampleFs = Inl systemError"
  by (rule stale_pty_link_throws [of _ _ _ "''/dev/pts/7''"]) (simp_all add: exampleFs_def)

end
