(* ===== verification/Serial_Port.thy ===== *)
theory Serial_Port
  imports Host_Drivers
begin

text \<open>
  The serial port below the frame layer: the helpers for its settings
  (\<open>src/src/drivers/serial/PosixSerialUtils.{h,cpp}\<close>) and the byte interface on it
  (\<open>src/src/drivers/serial/SerialByteEther.{h,cpp}\<close>). The answers of the system calls are arguments,
  what the code hands to them are results. The constants are those of the Linux headers.
\<close>

section \<open>Settings\<close>

datatype IOState = negated | asserted

datatype Baudrate = BR_1200 | BR_2400 | BR_4800 | BR_9600 | BR_19200 | BR_38400 | BR_57600
  | BR_115200 | BR_230400 | BR_460800

definition tiocm_rts :: "32 word" where "tiocm_rts = 4"
definition ser_rs485_enabled :: "32 word" where "ser_rs485_enabled = 1"
definition ser_rs485_rts_on_send :: "32 word" where "ser_rs485_rts_on_send = 2"
definition ser_rs485_rts_after_send :: "32 word" where "ser_rs485_rts_after_send = 4"
definition ser_rs485_rx_during_tx :: "32 word" where "ser_rs485_rx_during_tx = 16"

text \<open>\<open>getStatus\<close> is what \<open>TIOCMGET\<close> gave, \<open>None\<close> for -1; \<open>setRes\<close> what \<open>TIOCMSET\<close> returns. The results
  are the return value and the status handed to \<open>TIOCMSET\<close>.\<close>

definition setRTS :: "(int \<times> 32 word) option \<Rightarrow> int \<Rightarrow> IOState \<Rightarrow> int \<times> 32 word option" where
  "setRTS getStatus setRes state =
     (case getStatus of
        None \<Rightarrow> (-1, None)
      | Some (res, status) \<Rightarrow>
          (let status' = (case state of asserted \<Rightarrow> status OR tiocm_rts | negated \<Rightarrow> status AND NOT tiocm_rts)
           in (res, Some status')))"

text \<open>The flags of the \<open>serial_rs485\<close> structure handed to \<open>TIOCSRS485\<close>.\<close>

definition setRS485Mode :: "bool \<Rightarrow> bool \<Rightarrow> IOState \<Rightarrow> IOState \<Rightarrow> 32 word" where
  "setRS485Mode enable rxEnabledDuringTx duringTx afterTx =
     (if enable
      then ser_rs485_enabled OR (if rxEnabledDuringTx then ser_rs485_rx_during_tx else 0)
           OR (if duringTx = asserted then ser_rs485_rts_on_send else 0)
           OR (if afterTx = asserted then ser_rs485_rts_after_send else 0)
      else 0)"

fun getPosixBaudrate :: "Baudrate \<Rightarrow> 32 word" where
  "getPosixBaudrate BR_1200 = 9"
| "getPosixBaudrate BR_2400 = 11"
| "getPosixBaudrate BR_4800 = 12"
| "getPosixBaudrate BR_9600 = 13"
| "getPosixBaudrate BR_19200 = 14"
| "getPosixBaudrate BR_38400 = 15"
| "getPosixBaudrate BR_57600 = 0x1001"
| "getPosixBaudrate BR_115200 = 0x1002"
| "getPosixBaudrate BR_230400 = 0x1003"
| "getPosixBaudrate BR_460800 = 0x1004"

text \<open>The \<open>termios\<close> structure handed to \<open>tcsetattr\<close>, with the speeds set on it.\<close>

record Termios =
  c_iflag :: "32 word"
  c_oflag :: "32 word"
  c_cflag :: "32 word"
  c_lflag :: "32 word"
  c_vmin :: byte
  c_vtime :: byte
  c_ispeed :: "32 word"
  c_ospeed :: "32 word"

definition set8N1Termios :: "Baudrate \<Rightarrow> Termios" where
  "set8N1Termios br = \<lparr>c_iflag = 0, c_oflag = 0, c_cflag = 0x30 OR 0x80 OR 0x800, c_lflag = 0, c_vmin = 1, c_vtime = 1,
     c_ispeed = getPosixBaudrate br, c_ospeed = getPosixBaudrate br\<rparr>"

section \<open>The byte interface\<close>

datatype RtsOptions = rts_None | rts_pulldown | rts_rs485_te

text \<open>What the code did to the port, in order.\<close>

datatype port_action =
    Set_Termios Termios
  | Set_Modem "32 word"
  | Sleep_Us nat
  | Read_Away nat
  | Set_Rs485 "32 word"

record SerialByteEther =
  se_fd :: PosixFd
  se_rxCB :: bool
  se_actions :: "port_action list"
  se_written :: "byte_vec list"

definition mkSerialByteEther :: "int \<Rightarrow> SerialByteEther result" where
  "mkSerialByteEther openRes =
     (let e = \<lparr>se_fd = fd_set openRes mkPosixFd, se_rxCB = False, se_actions = [], se_written = []\<rparr> in
      if fd_fd (se_fd e) \<le> 0 then Inl (Runtime_Error ''Failed opening serial port.'')
      else Inr (e\<lparr>se_actions := se_actions e @ [Set_Termios (set8N1Termios BR_115200)]\<rparr>))"

definition setupRts :: "(int \<times> 32 word) option \<Rightarrow> int \<Rightarrow> RtsOptions \<Rightarrow> SerialByteEther \<Rightarrow> SerialByteEther" where
  "setupRts getStatus setRes rts e =
     (case rts of
        rts_None \<Rightarrow> e
      | rts_pulldown \<Rightarrow>
          e\<lparr>se_actions := se_actions e @
            (case snd (setRTS getStatus setRes negated) of None \<Rightarrow> [] | Some s \<Rightarrow> [Set_Modem s]) @
            [Sleep_Us 20000, Read_Away 4]\<rparr>
      | rts_rs485_te \<Rightarrow>
          e\<lparr>se_actions := se_actions e @ [Set_Rs485 (setRS485Mode True True asserted negated)]\<rparr>)"

definition sendBytes :: "(byte_vec \<Rightarrow> int) \<Rightarrow> byte_vec \<Rightarrow> SerialByteEther \<Rightarrow> SerialByteEther result" where
  "sendBytes write bytes e =
     (if write bytes = int (length bytes) then Inr (e\<lparr>se_written := se_written e @ [bytes]\<rparr>)
      else Inl (Runtime_Error ''Failed serial write.''))"

definition se_addClient :: "bool \<Rightarrow> SerialByteEther \<Rightarrow> SerialByteEther" where
  "se_addClient cb e = e\<lparr>se_rxCB := cb\<rparr>"

text \<open>\<open>read\<close> returned -1 with an error number, or bytes. The results are the return value and the
  bytes handed to the receiver.\<close>

definition eagain :: int where "eagain = 11"

definition readSerial :: "int + byte_vec \<Rightarrow> SerialByteEther \<Rightarrow> (bool \<times> byte_vec option) result" where
  "readSerial readRes e =
     (case readRes of
        Inr bs \<Rightarrow>
          if 0 < length bs \<and> se_rxCB e then Inr (True, Some bs)
          else Inl (Runtime_Error ''Unexpected value in serial read'')
      | Inl errno \<Rightarrow>
          if errno = eagain then Inr (False, None)
          else Inl (Runtime_Error ''Unexpected value in serial read''))"

section \<open>Properties\<close>

text \<open>
  Control of the RTS line touches nothing else. When the status of the modem lines can be read,
  the status written back has the RTS bit as requested and every other bit as it was; when it
  cannot, nothing is written. The return value is that of the reading ioctl alone: a failure to
  write the status is not reported.
\<close>

theorem set_rts_changes_one_bit:
  "setRTS None setRes state = (-1, None) \<and>
   (\<exists>status'. setRTS (Some (res, status)) setRes state = (res, Some status') \<and>
      (\<forall>n < 32. bit status' n = (if n = 2 then state = asserted else bit status n)))"
proof -
  have "bit tiocm_rts n \<longleftrightarrow> n = 2" for n
  proof -
    have rts: "tiocm_rts = 2 ^ 2" by (simp add: tiocm_rts_def)
    show ?thesis unfolding rts bit_exp_iff by auto
  qed
  then show ?thesis
    by (cases state) (auto simp: setRTS_def Let_def bit_simps)
qed

text \<open>
  The port comes up as the bus needs it: eight data bits, no parity, 115200 baud in both
  directions and no translation of bytes, before anything is sent; with RS485 control the sender
  hears its own bytes, which the master relies on, and RTS is driven while sending only.
\<close>

theorem serial_port_configuration:
  assumes "mkSerialByteEther fd = Inr e"
  shows "0 < fd \<and> se_written e = [] \<and>
    (\<exists>t. se_actions e = [Set_Termios t] \<and> c_iflag t = 0 \<and> c_oflag t = 0 \<and> c_lflag t = 0 \<and>
       c_ispeed t = 0x1002 \<and> c_ospeed t = 0x1002 \<and> c_cflag t = 0x8B0) \<and>
    (\<exists>f. se_actions (setupRts getStatus setRes rts_rs485_te e) = se_actions e @ [Set_Rs485 f] \<and>
       f AND ser_rs485_enabled \<noteq> 0 \<and> f AND ser_rs485_rx_during_tx \<noteq> 0 \<and>
       f AND ser_rs485_rts_on_send \<noteq> 0 \<and> f AND ser_rs485_rts_after_send = 0)"
  using assms
  by (auto simp: mkSerialByteEther_def setupRts_def set8N1Termios_def setRS485Mode_def fd_set_def mkPosixFd_def
      ser_rs485_enabled_def ser_rs485_rx_during_tx_def ser_rs485_rts_on_send_def ser_rs485_rts_after_send_def
      Let_def split: if_splits)

theorem serial_port_configuration_witness:
  "\<exists>e. mkSerialByteEther 3 = Inr e \<and> se_written e = []"
proof -
  have "\<exists>e. mkSerialByteEther 3 = Inr e" by (simp add: mkSerialByteEther_def fd_set_def mkPosixFd_def)
  then show ?thesis using serial_port_configuration [of 3] by blast
qed

end
