(* ===== verification/SN_Config.thy ===== *)
theory SN_Config
  imports Serial_Port
begin

text \<open>
  The configuration from the command line (\<open>src/src/mains/serialnet/SNConfig.{h,cpp}\<close>). The parsed
  options (\<open>boost::program_options::variables_map\<close>) are an argument: a map from names to values.
  \<open>as<T>()\<close> on a missing option or on one of another type throws. Log output is not modelled.
\<close>

section \<open>Modes\<close>

datatype Mode = mode_unknown | mode_none | mode_std_io | mode_raw_pty | mode_socat_tun | mode_socat_tap
  | mode_tun | mode_tap | mode_setup_tap | mode_remove_tap | mode_mode_max_num

fun mode_toString :: "Mode \<Rightarrow> string" where
  "mode_toString mode_unknown = ''unknown''"
| "mode_toString mode_none = ''none''"
| "mode_toString mode_std_io = ''std_io''"
| "mode_toString mode_raw_pty = ''raw_pty''"
| "mode_toString mode_socat_tun = ''socat_tun''"
| "mode_toString mode_socat_tap = ''socat_tap''"
| "mode_toString mode_tun = ''tun''"
| "mode_toString mode_tap = ''tap''"
| "mode_toString mode_setup_tap = ''setup_tap''"
| "mode_toString mode_remove_tap = ''remove_tap''"
| "mode_toString mode_mode_max_num = ''mode_max_num''"

definition toMode :: "string \<Rightarrow> Mode" where
  "toMode mode =
     (if mode = ''unknown'' then mode_unknown
      else if mode = ''none'' then mode_none
      else if mode = ''std_io'' then mode_std_io
      else if mode = ''raw_pty'' then mode_raw_pty
      else if mode = ''socat_tun'' then mode_socat_tun
      else if mode = ''socat_tap'' then mode_socat_tap
      else if mode = ''tun'' then mode_tun
      else if mode = ''tap'' then mode_tap
      else if mode = ''setup_tap'' then mode_setup_tap
      else if mode = ''remove_tap'' then mode_remove_tap
      else mode_unknown)"

definition toOption :: "string \<Rightarrow> RtsOptions" where
  "toOption str =
     (if str = ''None'' then rts_None
      else if str = ''pulldown'' then rts_pulldown
      else if str = ''rs485_te'' then rts_rs485_te
      else rts_None)"

fun rts_toString :: "RtsOptions \<Rightarrow> string" where
  "rts_toString rts_None = ''None''"
| "rts_toString rts_pulldown = ''pulldown''"
| "rts_toString rts_rs485_te = ''rs485_te''"

section \<open>Configuration\<close>

record SNConfig =
  sc_etherPath :: string
  sc_mode :: Mode
  sc_on_if_up :: string
  sc_on_if_down :: string
  sc_startMaster :: bool
  sc_rtsOption :: RtsOptions
  sc_wsDumpPath :: string
  sc_tapName :: string
  sc_staticAddr :: LocalAddress
  sc_peerAddr :: LocalAddress
  sc_masterTimeout :: int
  sc_user :: string
  sc_group :: string
  sc_rootPath :: string

definition mkSNConfig :: SNConfig where
  "mkSNConfig = \<lparr>sc_etherPath = '''', sc_mode = mode_unknown, sc_on_if_up = '''', sc_on_if_down = '''',
     sc_startMaster = False, sc_rtsOption = rts_None, sc_wsDumpPath = '''', sc_tapName = '''',
     sc_staticAddr = null_addr, sc_peerAddr = null_addr, sc_masterTimeout = 0, sc_user = '''', sc_group = '''',
     sc_rootPath = ''~/.serialnet''\<rparr>"

datatype po_value = PStr string | PInt int | PFlag

type_synonym variables_map = "string \<rightharpoonup> po_value"

definition as_string :: "variables_map \<Rightarrow> string \<Rightarrow> string result" where
  "as_string vm k = (case vm k of Some (PStr s) \<Rightarrow> Inr s | _ \<Rightarrow> Inl (Runtime_Error ''bad_any_cast''))"

definition as_int :: "variables_map \<Rightarrow> string \<Rightarrow> int result" where
  "as_int vm k = (case vm k of Some (PInt i) \<Rightarrow> Inr i | _ \<Rightarrow> Inl (Runtime_Error ''bad_any_cast''))"

definition setupSNConfig :: "variables_map \<Rightarrow> SNConfig \<Rightarrow> SNConfig result" where
  "setupSNConfig vm c0 =
     rbind (if vm ''serial-device'' \<noteq> None then as_string vm ''serial-device'' else Inr '''') (\<lambda>etherPath.
     rbind (as_string vm ''mode'') (\<lambda>mode.
     rbind (as_string vm ''on-if-up'') (\<lambda>onUp.
     rbind (as_string vm ''on-if-down'') (\<lambda>onDown.
     let startMaster = (vm ''master'' \<noteq> None) in
     rbind (as_string vm ''serial-options'') (\<lambda>rts.
     rbind (as_string vm ''user'') (\<lambda>user.
     rbind (as_string vm ''group'') (\<lambda>group.
     rbind (as_string vm ''tap-name'') (\<lambda>tapName.
     rbind (if vm ''wsdump'' \<noteq> None then as_string vm ''wsdump'' else Inr (sc_wsDumpPath c0)) (\<lambda>wsDumpPath.
     rbind (as_int vm ''address'') (\<lambda>addr.
     if addr < 0 \<or> 32 < addr then Inl (Runtime_Error ''Illegal static address.'')
     else let myAddr = (if addr = 0 \<and> startMaster then 1 else addr) in
     rbind (if vm ''peer_address'' \<noteq> None
            then rbind (as_int vm ''peer_address'') (\<lambda>p. Inr (toLocalAddress_int p)) else Inr broadcast) (\<lambda>peerAddr.
     rbind (as_int vm ''mtimeout'') (\<lambda>mtimeout.
     Inr (c0\<lparr>sc_etherPath := etherPath, sc_mode := toMode mode, sc_on_if_up := onUp, sc_on_if_down := onDown,
            sc_startMaster := startMaster, sc_rtsOption := toOption rts, sc_user := user, sc_group := group,
            sc_tapName := tapName, sc_wsDumpPath := wsDumpPath, sc_staticAddr := toLocalAddress_int myAddr,
            sc_peerAddr := peerAddr, sc_masterTimeout := mtimeout\<rparr>)))))))))))))"

text \<open>The options of a program started with defaults, as \<open>setupOptions\<close> of \<open>main.cpp\<close> declares them.\<close>

definition defaultOptions :: "string \<Rightarrow> int \<Rightarrow> bool \<Rightarrow> variables_map" where
  "defaultOptions mode address master =
     [''mode'' \<mapsto> PStr mode, ''serial-options'' \<mapsto> PStr '''', ''address'' \<mapsto> PInt address, ''peer_address'' \<mapsto> PInt 0,
      ''mtimeout'' \<mapsto> PInt (-1), ''log'' \<mapsto> PInt 2, ''on-if-up'' \<mapsto> PStr '''', ''on-if-down'' \<mapsto> PStr '''',
      ''user'' \<mapsto> PStr '''', ''group'' \<mapsto> PStr '''', ''tap-name'' \<mapsto> PStr ''tap0'']
     (''master'' := if master then Some PFlag else None)"

section \<open>Properties\<close>

text \<open>
  Names and modes correspond: every mode but the end marker is found again from its name, and
  every text that is not the name of a mode is the unknown mode. The options for the RTS line
  are found again from their names too.
\<close>

theorem mode_roundtrip:
  "(toMode (mode_toString m) = (if m = mode_mode_max_num then mode_unknown else m)) \<and>
   (s \<notin> range mode_toString \<longrightarrow> toMode s = mode_unknown) \<and> toOption (rts_toString r) = r"
proof -
  have "toMode s = mode_unknown" if "s \<notin> range mode_toString"
    using that by (metis mode_toString.simps(1-10) rangeI toMode_def)
  then show ?thesis by (cases m; cases r) (simp_all add: toMode_def toOption_def)
qed

theorem mode_roundtrip_witness: "toMode ''bridge'' = mode_unknown"
proof -
  have "mode_toString m \<noteq> ''bridge''" for m by (cases m) simp_all
  then have "''bridge'' \<notin> range mode_toString" by (metis rangeE)
  then show ?thesis using mode_roundtrip [of mode_tap "''bridge''"] by blast
qed

text \<open>
  Addresses on the command line. With all other options at their defaults the configuration is
  accepted exactly for addresses from 0 to 32; a node that runs the master always gets an address,
  1 unless another one is given, and any other node gets the given one, 0 meaning that it asks
  the master.
\<close>

theorem config_address:
  "setupSNConfig (defaultOptions mode address master) mkSNConfig =
     (if address < 0 \<or> 32 < address then Inl (Runtime_Error ''Illegal static address.'')
      else Inr (mkSNConfig\<lparr>sc_mode := toMode mode, sc_startMaster := master, sc_tapName := ''tap0'',
             sc_masterTimeout := -1,
             sc_staticAddr := toLocalAddress_int (if address = 0 \<and> master then 1 else address)\<rparr>))"
  by (simp add: setupSNConfig_def defaultOptions_def as_string_def as_int_def mkSNConfig_def toOption_def Let_def
      toLocalAddress_int_def null_addr_def)

end
