(* ===== verification/Serial_Net.thy ===== *)
theory Serial_Net
  imports Packet_Type_Codec Msg_To_Byte Master_Messages Raw_Drivers SN_Config
begin

text \<open>
  A whole node (\<open>src/src/mains/serialnet/SerialNet.{h,cpp}\<close>): the serial port, the adapter with the
  frame codec, the transmit queue, the dispatcher, the driver of the host side and, on one node,
  the master, put together by \<open>start\<close> and driven by the callbacks of the event loop.

  The objects share the transmit queue by pointers. Here it is a field of the dispatcher; the
  master's copy is set before the master runs and taken back after it. The messages that the
  queue hands to \<open>sendMsg\<close> while an input is processed go through the adapter to the port, in order,
  at the end of the processing; the encoder has no state, so only their order matters. The
  decoder hands a packet over from inside its loop; none of the code that a received packet
  reaches touches the decoder, since only callbacks of timers ask \<open>packetRxInProgress\<close>.

  The event loop itself (\<open>ev\<close>) is a third-party library: its callbacks are the operations.
\<close>

section \<open>The master behind the dispatcher\<close>

definition nodeMasterRx :: "BusMaster master_rx" where
  "nodeMasterRx cmd bb m q =
     map_option (map_sum id (\<lambda>m'. (m', mw_tx (m_world m'))))
       (masterPacketReceived (Some cmd) bb (m\<lparr>m_world := (m_world m)\<lparr>mw_tx := q\<rparr>\<rparr>))"

section \<open>Node\<close>

datatype HostDriver =
    Drv_Stdio StdioRawHostDriver
  | Drv_Pty PtyRawHostDriver
  | Drv_SocatTun TunProtocol
  | Drv_SocatTap
  | Drv_Tun IfDriver
  | Drv_Tap IfDriver

record SerialNet =
  sn_now :: time
  sn_port :: SerialByteEther
  sn_adapter :: MsgToByteAdapter
  sn_ptc :: "BusMaster PacketTypeCodec"
  sn_driver :: "HostDriver option"
  sn_stopped :: bool
  sn_masterTimeout :: "int option"

text \<open>\<open>m_txQueue\<close> and \<open>m_master\<close>, which other objects point to.\<close>

abbreviation sn_txQueue :: "SerialNet \<Rightarrow> TxQueue" where
  "sn_txQueue n \<equiv> pc_tx (sn_ptc n)"

abbreviation sn_master :: "SerialNet \<Rightarrow> BusMaster option" where
  "sn_master n \<equiv> pc_master (sn_ptc n)"

text \<open>The messages of the transmit queue go to the adapter; a stop order of the dispatcher's
  callback stops the loop.\<close>

fun sendAll :: "byte_vec list \<Rightarrow> MsgToByteAdapter \<Rightarrow> MsgToByteAdapter result" where
  "sendAll [] a = Inr a"
| "sendAll (msg # msgs) a = rbind (mb_sendMsg msg a) (sendAll msgs)"

definition flushTx :: "SerialNet \<Rightarrow> SerialNet result" where
  "flushTx n =
     rbind (sendAll (tq_sent (sn_txQueue n)) (sn_adapter n)) (\<lambda>a.
       Inr (n\<lparr>sn_adapter := a, sn_ptc := (sn_ptc n)\<lparr>pc_tx := (sn_txQueue n)\<lparr>tq_sent := []\<rparr>\<rparr>,
              sn_stopped := sn_stopped n \<or> 0 < pc_endedCalls (sn_ptc n)\<rparr>))"

definition flushed :: "SerialNet result option \<Rightarrow> SerialNet result option" where
  "flushed r = map_option (\<lambda>x. rbind x flushTx) r"

text \<open>Bytes arrive at the port.\<close>

definition rxPacket :: "byte \<times> Crc32 \<Rightarrow> byte_vec \<Rightarrow> SerialNet \<Rightarrow> SerialNet result option" where
  "rxPacket uninit bb n =
     flushed (map_option (\<lambda>r. rbind r (\<lambda>c. Inr (n\<lparr>sn_ptc := c\<rparr>)))
       (rxRawPacket nodeMasterRx uninit bb (sn_ptc n)))"

fun rxPackets :: "byte \<times> Crc32 \<Rightarrow> byte_vec list \<Rightarrow> SerialNet \<Rightarrow> SerialNet result option" where
  "rxPackets uninit [] n = Some (Inr n)"
| "rxPackets uninit (bb # bbs) n =
     Option.bind (rxPacket uninit bb n)
       (\<lambda>r. case r of Inl e \<Rightarrow> Some (Inl e) | Inr n' \<Rightarrow> rxPackets uninit bbs n')"

definition nodeReceive :: "byte \<times> Crc32 \<Rightarrow> byte_vec \<Rightarrow> SerialNet \<Rightarrow> SerialNet result option" where
  "nodeReceive uninit bytes n =
     (case readSerial (Inr bytes) (sn_port n) of
        Inl e \<Rightarrow> Some (Inl e)
      | Inr (_, None) \<Rightarrow> Some (Inr n)
      | Inr (_, Some bs) \<Rightarrow>
          (case receiveBytes (sn_now n) bs (sn_adapter n) of
             Inl e \<Rightarrow> Some (Inl e)
           | Inr (a, packets) \<Rightarrow> rxPackets uninit packets (n\<lparr>sn_adapter := a\<rparr>)))"

text \<open>The host driver sends a packet.\<close>

definition nodeHostSend :: "byte_vec \<Rightarrow> LocalAddress \<Rightarrow> ChannelType \<Rightarrow> SerialNet \<Rightarrow> SerialNet" where
  "nodeHostSend data dest ct n =
     n\<lparr>sn_ptc := (sn_ptc n)\<lparr>pc_tx := msgHostTx_sendPacket data dest ct (sn_txQueue n)\<rparr>\<rparr>"

text \<open>A timer of the master fires. In three states the master asks the receiver whether a packet is
  on its way, which may reset the decoder.\<close>

definition pollsReceiver :: "nat \<Rightarrow> BusMaster \<Rightarrow> bool" where
  "pollsReceiver i m \<longleftrightarrow> armed CB_fsm_timeout i m \<and>
     (inState st_waitClientPacketDone m \<or> inState st_queryAddress m \<or> inState st_waitAddressReply m)"

definition nodeTimer :: "nat \<Rightarrow> SerialNet \<Rightarrow> SerialNet result option" where
  "nodeTimer i n =
     (case sn_master n of
        None \<Rightarrow> Some (Inr n)
      | Some m \<Rightarrow>
          (let (busy, a) = (if pollsReceiver i m then packetRxInProgress (sn_now n) (sn_adapter n)
                            else (mw_rxBusy (m_world m), sn_adapter n));
               m1 = m\<lparr>m_world := (m_world m)\<lparr>mw_tx := sn_txQueue n, mw_rxBusy := busy\<rparr>\<rparr>
           in flushed (map_option (\<lambda>r. rbind r (\<lambda>m2.
                Inr (n\<lparr>sn_adapter := a, sn_ptc := (sn_ptc n)\<lparr>pc_master := Some m2, pc_tx := mw_tx (m_world m2)\<rparr>\<rparr>)))
                (timerFired i m1))))"

definition nodeTime :: "time \<Rightarrow> SerialNet \<Rightarrow> SerialNet" where
  "nodeTime dt n =
     n\<lparr>sn_now := sn_now n + \<bar>dt\<bar>, sn_ptc := (sn_ptc n)\<lparr>pc_master := map_option
        (\<lambda>m. m\<lparr>m_world := (m_world m)\<lparr>mw_ts := ts_advance \<bar>dt\<bar> (mw_ts (m_world m))\<rparr>\<rparr>) (sn_master n)\<rparr>\<rparr>"

text \<open>The callback of \<open>setupMaster\<close> for the option \<open>mtimeout\<close>: the master announces its end and is
  destroyed, with its timers.\<close>

definition masterTimeoutCB :: "SerialNet \<Rightarrow> SerialNet result" where
  "masterTimeoutCB n =
     (case sn_master n of
        None \<Rightarrow> Inl Null_Deref
      | Some m \<Rightarrow>
          (let m1 = exitMaster (m\<lparr>m_world := (m_world m)\<lparr>mw_tx := sn_txQueue n\<rparr>\<rparr>) in
           flushTx (n\<lparr>sn_ptc := (sn_ptc n)\<lparr>pc_master := None, pc_tx := mw_tx (m_world m1)\<rparr>\<rparr>)))"

definition snExit :: "SerialNet \<Rightarrow> SerialNet" where
  "snExit n = n\<lparr>sn_stopped := True\<rparr>"

section \<open>Start\<close>

text \<open>What the system answers while the node starts.\<close>

record StartSystem =
  ss_now :: time
  ss_uniqueId :: UniqueId
  ss_openPort :: int
  ss_modemStatus :: "(int \<times> 32 word) option"
  ss_setModem :: int
  ss_if :: IfSystem
  ss_alloc :: "string \<Rightarrow> IfType \<Rightarrow> int \<times> string"
  ss_pty :: PtySystem
  ss_fs :: file_system
  ss_rootPath :: string
  ss_uninit :: "LocalAddress \<Rightarrow> UniqueId"
  ss_uninitHeader :: byte_vec
  ss_uninitMac :: MacAddr
  ss_uid :: "string \<Rightarrow> nat option"
  ss_gid :: "string \<Rightarrow> nat option"

text \<open>The branches of \<open>start\<close> for the modes: the driver, the address cache of the dispatcher and the
  transmit queue. The driver is registered as handler number 0.\<close>

definition startDriver ::
    "StartSystem \<Rightarrow> SNConfig \<Rightarrow> TxQueue \<Rightarrow> (HostDriver option \<times> AddressCache option \<times> TxQueue) result" where
  "startDriver sys cfg q =
     (case sc_mode cfg of
        mode_std_io \<Rightarrow>
          Inr (Some (Drv_Stdio (startStdin (sc_peerAddr cfg) (startStdout broadcast mkStdioRawHostDriver))), None, q)
      | mode_raw_pty \<Rightarrow>
          rbind (py_setupCallback (ss_pty sys) 0 (sc_peerAddr cfg) q
                   (py_setFM (Some (ss_rootPath sys)) mkPtyRawHostDriver) (ss_fs sys))
            (\<lambda>(d, fs, q'). Inr (Some (Drv_Pty d), None, q'))
      | mode_socat_tun \<Rightarrow>
          Inr (Some (Drv_SocatTun (mkTunProtocol (ss_uninitHeader sys))), None, socatTun_startTransfer 0 q)
      | mode_socat_tap \<Rightarrow> Inr (Some Drv_SocatTap, Some (mkAddressCache (ss_uninitMac sys)), socatTap_startTransfer 0 q)
      | mode_tun \<Rightarrow>
          rbind (tun_startTransfer (ss_if sys) (ss_alloc sys ''tun0'' if_tun) 0 q
                   (setIfEventCommands (sc_on_if_up cfg) (sc_on_if_down cfg) mkTunHostDriver))
            (\<lambda>(d, q'). Inr (Some (Drv_Tun d), None, q'))
      | mode_tap \<Rightarrow>
          rbind (tap_startTransfer (ss_if sys) (ss_alloc sys ''tap0'' if_tap) 0 q
                   (setIfEventCommands (sc_on_if_up cfg) (sc_on_if_down cfg) mkTapHostDriver))
            (\<lambda>(d, q'). Inr (Some (Drv_Tap d), Some (mkAddressCache (ss_uninitMac sys)), q'))
      | _ \<Rightarrow> Inr (None, None, q))"

definition setupMaster :: "StartSystem \<Rightarrow> SNConfig \<Rightarrow> SerialNet \<Rightarrow> SerialNet result option" where
  "setupMaster sys cfg n =
     flushed (map_option (\<lambda>r. rbind r (\<lambda>m.
         Inr (n\<lparr>sn_ptc := (sn_ptc n)\<lparr>pc_master := Some m, pc_tx := mw_tx (m_world m)\<rparr>,
                sn_masterTimeout := if -1 < sc_masterTimeout cfg then Some (sc_masterTimeout cfg) else None\<rparr>)))
       (mkMaster (ss_uninit sys) (ss_now sys) (sn_txQueue n) False))"

text \<open>The two modes that set up or remove a persistent device: the requests made of it.\<close>

definition setupTap :: "StartSystem \<Rightarrow> SNConfig \<Rightarrow> tun_ioctl list result" where
  "setupTap sys cfg =
     (let fd = fst (ss_alloc sys (sc_tapName cfg) if_tap) in
      rbind (setUserGroup fd (ss_uid sys (sc_user cfg)) (ss_gid sys (sc_group cfg))) (\<lambda>reqs.
        Inr (reqs @ persist True)))"

definition removeTap :: "StartSystem \<Rightarrow> SNConfig \<Rightarrow> tun_ioctl list result" where
  "removeTap sys cfg = Inr (persist False)"

text \<open>\<open>start\<close> returns \<open>None\<close> in the two modes that only set up or remove a device and end.\<close>

definition start :: "StartSystem \<Rightarrow> SNConfig \<Rightarrow> SerialNet option result option" where
  "start sys cfg =
     (if sc_mode cfg = mode_setup_tap then Some (rbind (setupTap sys cfg) (\<lambda>_. Inr None))
      else if sc_mode cfg = mode_remove_tap then Some (rbind (removeTap sys cfg) (\<lambda>_. Inr None))
      else case mkSerialByteEther (ss_openPort sys) of
             Inl e \<Rightarrow> Some (Inl e)
           | Inr port \<Rightarrow>
               (let port1 = se_addClient True (setupRts (ss_modemStatus sys) (ss_setModem sys) (sc_rtsOption cfg) port);
                    a = mb_addClient True (setByteIf True mkMsgToByteAdapter);
                    c = mkPacketTypeCodec (ss_uniqueId sys) (mkTxQueue (sc_staticAddr cfg)) in
                case startDriver sys cfg (pc_tx c) of
                  Inl e \<Rightarrow> Some (Inl e)
                | Inr (drv, cache, q) \<Rightarrow>
                    (let n = \<lparr>sn_now = ss_now sys, sn_port = port1, sn_adapter = a,
                              sn_ptc = c\<lparr>pc_cache := cache, pc_tx := q, pc_masterEndedCB := True\<rparr>,
                              sn_driver = drv, sn_stopped = False, sn_masterTimeout = None\<rparr> in
                     map_option (map_sum id Some)
                       (if sc_startMaster cfg then setupMaster sys cfg n else Some (Inr n)))))"

section \<open>Well-formed nodes\<close>

text \<open>A node between two inputs: connected, between two frames, nothing left to deliver or to send,
  and a master, if there is one, in a state it can reach.\<close>

definition node_ok :: "SerialNet \<Rightarrow> bool" where
  "node_ok n \<longleftrightarrow> se_rxCB (sn_port n) \<and> codec_idle (mb_codec (sn_adapter n)) \<and> mb_hasByteIf (sn_adapter n) \<and>
     pc_rxMsg (sn_ptc n) = [] \<and> tq_sent (sn_txQueue n) = [] \<and> (\<forall>m. sn_master n = Some m \<longrightarrow> reachable m)"

lemma sendAll_ok:
  "mb_hasByteIf a \<Longrightarrow> sendAll msgs a = Inr (a\<lparr>mb_txBytes := mb_txBytes a @ map encodePacket msgs\<rparr>)"
  by (induction msgs arbitrary: a) (simp_all add: mb_sendMsg_def)

lemma flushTx_ok:
  "mb_hasByteIf (sn_adapter n) \<Longrightarrow> flushTx n =
     Inr (n\<lparr>sn_adapter := (sn_adapter n)\<lparr>mb_txBytes := mb_txBytes (sn_adapter n) @ map encodePacket (tq_sent (sn_txQueue n))\<rparr>,
        sn_ptc := (sn_ptc n)\<lparr>pc_tx := (sn_txQueue n)\<lparr>tq_sent := []\<rparr>\<rparr>,
        sn_stopped := sn_stopped n \<or> 0 < pc_endedCalls (sn_ptc n)\<rparr>)"
  by (simp add: flushTx_def sendAll_ok)

lemma reachable_step_total:
  assumes "reachable m" and "\<And>i. inp \<noteq> Timer_Fires i"
  shows "\<exists>m'. masterStep inp m = Some (Inr m') \<and> reachable m'"
  using step_ok [OF reachable_inv [OF assms(1)], of inp] assms reachable.step by blast

lemma reachable_tx: "reachable m \<Longrightarrow> reachable (m\<lparr>m_world := (m_world m)\<lparr>mw_tx := q\<rparr>\<rparr>)"
  using reachable.step [of m "Client_Changes q"] by simp

lemma reachable_busy: "reachable m \<Longrightarrow> reachable (m\<lparr>m_world := (m_world m)\<lparr>mw_rxBusy := b\<rparr>\<rparr>)"
  using reachable.step [of m "Rx_Busy b"] by simp

lemma nodeMasterRx_total:
  assumes "reachable m"
  shows "\<exists>m'. nodeMasterRx cmd bb m q = Some (Inr (m', mw_tx (m_world m'))) \<and> reachable m'"
  using reachable_step_total [OF reachable_tx [OF assms], of "Rx_Packet (Some cmd) bb" q]
  by (auto simp: nodeMasterRx_def)

text \<open>The dispatcher of a node with or without master handles every packet.\<close>

lemma rxRawPacket_total:
  assumes "rxq_ok c" and "\<forall>m. pc_master c = Some m \<longrightarrow> reachable m"
  shows "\<exists>c'. rxRawPacket nodeMasterRx uninit bb c = Some (Inr c') \<and> (\<forall>m. pc_master c' = Some m \<longrightarrow> reachable m) \<and>
    (pc_rxMsg c = [] \<longrightarrow> pc_rxMsg c' = [])"
proof (cases "longEnough bb")
  case False
  then show ?thesis using assms by (simp add: rxRawPacket_def)
next
  case True
  then obtain cmd where cmd: "bb \<noteq> []" "byte2MessageType (bb ! 0) = Some cmd" "sizeofHeader cmd \<le> length bb"
    by (auto simp: longEnough_iff)
  obtain c1 where c1: "rxCommand uninit cmd bb c = Inr c1" "rxq_ok c1" "pc_master c1 = pc_master c"
    using rxCommand_total [OF cmd(3) assms(1), of uninit] by auto
  have "\<exists>c2. callMaster nodeMasterRx cmd bb c1 = Some (Inr c2) \<and> rxq_ok c2 \<and> (\<forall>m. pc_master c2 = Some m \<longrightarrow> reachable m)"
  proof (cases "pc_master c1")
    case None
    then show ?thesis using c1 by (simp add: callMaster_def)
  next
    case (Some m)
    then obtain m' where "nodeMasterRx cmd bb m (pc_tx c1) = Some (Inr (m', mw_tx (m_world m')))" "reachable m'"
      using nodeMasterRx_total [of m cmd bb "pc_tx c1"] assms(2) c1(3) by auto
    then show ?thesis using Some c1(2) by (simp add: callMaster_def rxq_ok_def)
  qed
  then show ?thesis using True cmd c1(1) by (auto simp: rxRawPacket_def deliverRxQueue_eq)
qed

lemma rxPacket_total:
  assumes "node_ok n"
  shows "\<exists>n' c'. rxPacket uninit bb n = Some (Inr n') \<and> rxRawPacket nodeMasterRx uninit bb (sn_ptc n) = Some (Inr c') \<and>
    node_ok n' \<and> mb_txBytes (sn_adapter n') = mb_txBytes (sn_adapter n) @ map encodePacket (tq_sent (pc_tx c')) \<and>
    sn_ptc n' = c'\<lparr>pc_tx := (pc_tx c')\<lparr>tq_sent := []\<rparr>\<rparr>"
proof -
  have "rxq_ok (sn_ptc n)" using assms by (simp add: node_ok_def rxq_ok_def)
  then obtain c' where c': "rxRawPacket nodeMasterRx uninit bb (sn_ptc n) = Some (Inr c')"
    "\<forall>m. pc_master c' = Some m \<longrightarrow> reachable m" "pc_rxMsg c' = []"
    using rxRawPacket_total [of "sn_ptc n" uninit bb] assms by (auto simp: node_ok_def)
  then show ?thesis using assms flushTx_ok [of "n\<lparr>sn_ptc := c'\<rparr>"]
    by (simp add: rxPacket_def flushed_def node_ok_def)
qed

text \<open>One frame, read at once.\<close>

lemma rxPackets_single: "rxPackets uninit [bb] n = rxPacket uninit bb n"
proof (cases "rxPacket uninit bb n")
  case (Some r)
  then show ?thesis by (cases r) simp_all
qed simp

lemma nodeReceive_frame:
  assumes "node_ok n" and "frame_payload d"
  shows "\<exists>a. nodeReceive uninit (encodePacket d) n = rxPacket uninit d (n\<lparr>sn_adapter := a\<rparr>) \<and>
    node_ok (n\<lparr>sn_adapter := a\<rparr>) \<and> mb_txBytes a = mb_txBytes (sn_adapter n)"
proof -
  let ?a = "(checkTimeout (sn_now n) (sn_adapter n))\<lparr>mb_lastUpdate := sn_now n\<rparr>"
  have idle: "codec_idle (mb_codec (sn_adapter n))" using assms(1) by (simp add: node_ok_def)
  then have a: "?a = (sn_adapter n)\<lparr>mb_lastUpdate := sn_now n\<rparr>"
    by (simp add: checkTimeout_def rxInProgress_def codec_idle_def)
  obtain fc where fc: "receiveData (encodePacket d) (mb_codec ?a) = Inr (fc, [d])" "codec_idle fc"
    using frames.dec_enc [of "mb_codec ?a" d] assms(2) idle a by auto
  have "encodePacket d \<noteq> []" by (simp add: encodePacket_eq)
  then have "readSerial (Inr (encodePacket d)) (sn_port n) = Inr (True, Some (encodePacket d))"
    using assms(1) by (simp add: readSerial_def node_ok_def)
  then have "nodeReceive uninit (encodePacket d) n = rxPacket uninit d (n\<lparr>sn_adapter := ?a\<lparr>mb_codec := fc\<rparr>\<rparr>)"
    using fc(1) by (simp add: nodeReceive_def receiveBytes_def rxPackets_single Let_def del: rxPackets.simps)
  then show ?thesis using assms(1) fc(2) a
    by (intro exI [of _ "?a\<lparr>mb_codec := fc\<rparr>"]) (simp add: node_ok_def)
qed

text \<open>Starting a driver registers it and sends nothing.\<close>

lemma map_sum_Some_Inr: "map_sum id Some r = Inr (Some x) \<longleftrightarrow> r = Inr x"
  by (cases r) auto

lemma setRxHandler_sent [simp]: "tq_sent (setRxHandler h ct q) = tq_sent q"
  by (cases ct) simp_all

lemma setRxHandler_queue [simp]:
  "tq_txMsg (setRxHandler h ct q) = tq_txMsg q" "tq_ownAddress (setRxHandler h ct q) = tq_ownAddress q"
  by (cases ct; simp)+

lemma startDriver_queue:
  assumes "startDriver sys cfg q = Inr (drv, cache, q')"
  shows "tq_sent q' = tq_sent q" "tq_txMsg q' = tq_txMsg q" "clientAddress q' = clientAddress q"
    "oa_dynamic (tq_ownAddress q') = oa_dynamic (tq_ownAddress q)"
  using assms
  by (auto simp: startDriver_def py_setupCallback_def tap_startTransfer_def tun_startTransfer_def
      socatTun_startTransfer_def socatTap_startTransfer_def setAddrUpdateHandler_def oa_setListener_def
      clientAddress_def rbind_eq_Inr Let_def split: Mode.splits)

text \<open>A node that goes on to its loop: the objects are connected, then the master is added.\<close>

lemma start_parts:
  assumes "start sys cfg = Some (Inr (Some n))"
  shows "\<exists>n0. node_ok n0 \<and> sn_master n0 = None \<and> tq_txMsg (sn_txQueue n0) = [] \<and>
    clientAddress (sn_txQueue n0) = sc_staticAddr cfg \<and>
    oa_dynamic (tq_ownAddress (sn_txQueue n0)) = (sc_staticAddr cfg = null_addr) \<and>
    pc_uniqueId (sn_ptc n0) = ss_uniqueId sys \<and> mb_txBytes (sn_adapter n0) = [] \<and>
    (if sc_startMaster cfg then setupMaster sys cfg n0 = Some (Inr n) else n = n0)"
proof -
  obtain port drv cache q where port: "mkSerialByteEther (ss_openPort sys) = Inr port"
    and drv: "startDriver sys cfg (mkTxQueue (sc_staticAddr cfg)) = Inr (drv, cache, q)"
    using assms(1) by (auto simp: start_def Let_def mkPacketTypeCodec_def rbind_eq_Inr split: if_splits sum.splits)
  let ?n = "\<lparr>sn_now = ss_now sys,
      sn_port = se_addClient True (setupRts (ss_modemStatus sys) (ss_setModem sys) (sc_rtsOption cfg) port),
      sn_adapter = mb_addClient True (setByteIf True mkMsgToByteAdapter),
      sn_ptc = (mkPacketTypeCodec (ss_uniqueId sys) (mkTxQueue (sc_staticAddr cfg)))
        \<lparr>pc_cache := cache, pc_tx := q, pc_masterEndedCB := True\<rparr>,
      sn_driver = drv, sn_stopped = False, sn_masterTimeout = None\<rparr>"
  have "(if sc_startMaster cfg then setupMaster sys cfg ?n else Some (Inr ?n)) = Some (Inr n)"
    using assms(1) port drv
    by (auto simp: start_def Let_def mkPacketTypeCodec_def rbind_eq_Inr map_sum_Some_Inr split: if_splits)
  then have run: "if sc_startMaster cfg then setupMaster sys cfg ?n = Some (Inr n) else n = ?n" by (auto split: if_splits)
  have q: "tq_sent q = []" "tq_txMsg q = []" "clientAddress q = sc_staticAddr cfg"
    "oa_dynamic (tq_ownAddress q) = (sc_staticAddr cfg = null_addr)"
    using startDriver_queue [OF drv] by (simp_all add: mkTxQueue_def clientAddress_def mkOwnAddress_def)
  have n: "node_ok ?n" "sn_master ?n = None" "pc_uniqueId (sn_ptc ?n) = ss_uniqueId sys" "mb_txBytes (sn_adapter ?n) = []"
    using q(1) by (simp_all add: node_ok_def se_addClient_def mb_addClient_def setByteIf_def setRxCB_def reset_def
        mkPacketTypeCodec_def codec_idle_def mkMsgToByteAdapter_def Let_def)
  show ?thesis using run q n by (intro exI [of _ ?n]) simp
qed

lemma node_step:
  assumes "node_ok n" and "frame_payload d" and "rxRawPacket nodeMasterRx uninit d (sn_ptc n) = Some (Inr c)"
  shows "\<exists>n'. nodeReceive uninit (encodePacket d) n = Some (Inr n') \<and> node_ok n' \<and>
    mb_txBytes (sn_adapter n') = mb_txBytes (sn_adapter n) @ map encodePacket (tq_sent (pc_tx c)) \<and>
    sn_ptc n' = c\<lparr>pc_tx := (pc_tx c)\<lparr>tq_sent := []\<rparr>\<rparr>"
proof -
  obtain a where a: "nodeReceive uninit (encodePacket d) n = rxPacket uninit d (n\<lparr>sn_adapter := a\<rparr>)"
    "node_ok (n\<lparr>sn_adapter := a\<rparr>)" "mb_txBytes a = mb_txBytes (sn_adapter n)"
    using nodeReceive_frame [OF assms(1,2)] by blast
  then show ?thesis using rxPacket_total [OF a(2), of uninit d] assms(3) by auto
qed

text \<open>A token and a data packet at a client.\<close>

lemma rxRaw_token:
  assumes "pc_master c = None" and "pc_rxMsg c = []" and "clientAddress (pc_tx c) = own"
  shows "\<exists>c'. rxRawPacket masterRx uninit [messageType2Byte grant_token, own] c = Some (Inr c') \<and>
    (case tq_txMsg (pc_tx c) of
       [] \<Rightarrow> tq_sent (pc_tx c') = tq_sent (pc_tx c) @ [returnTokenMsg own] \<and> tq_txMsg (pc_tx c') = []
     | p # ps \<Rightarrow> tq_sent (pc_tx c') = tq_sent (pc_tx c) @ [p] \<and> tq_txMsg (pc_tx c') = ps)"
proof -
  let ?bb = "[messageType2Byte grant_token, own]"
  have ok: "rxq_ok c" using assms(2) by (simp add: rxq_ok_def)
  have t: "byte2MessageType (?bb ! 0) = Some grant_token" "longEnough ?bb" "sizeofHeader grant_token \<le> length ?bb"
    "gt_m_tokenReceiver (layout_GrantToken ?bb) = own"
    by (simp_all add: longEnough_iff layout_simps del: messageType2Byte.simps)
  obtain q where q: "sendClientPacketOrReturnToken (pc_tx c) = Inr q"
    using sendClientPacketOrReturnToken_total by blast
  show ?thesis unfolding rxRawPacket_client [OF assms(1) ok] using t q assms(2,3) token_effect [of "pc_tx c" q]
    by (cases "tq_txMsg (pc_tx c)") (simp_all add: rxAsClient_def rxCommand_def toHeader_def rxToken_def Let_def)
qed

lemma rxRaw_data:
  assumes "pc_master c = None" and "pc_rxMsg c = []" and "clientAddress (pc_tx c) = dest" and "dest \<noteq> null_addr"
  shows "\<exists>c'. rxRawPacket masterRx uninit ([messageType2Byte send_packet, channelType2Byte ct, dest, src] @ data) c =
      Some (Inr c') \<and> pc_tx c' = pc_tx c \<and>
    pc_delivered c' = pc_delivered c @
      (case getRxIf (Some ct) (pc_tx c) of None \<Rightarrow> [] | Some h \<Rightarrow> [(h, data, src, dest, Some ct)])"
proof -
  let ?bb = "[messageType2Byte send_packet, channelType2Byte ct, dest, src] @ data"
  have ok: "rxq_ok c" using assms(2) by (simp add: rxq_ok_def)
  have cmd: "byte2MessageType (?bb ! 0) = Some send_packet" by (simp del: messageType2Byte.simps)
  have long: "longEnough ?bb" using cmd by (simp add: longEnough_iff)
  show ?thesis unfolding rxRawPacket_client [OF assms(1) ok] using cmd long assms(2-4)
    by (auto simp: rxAsClient_def rxCommand_def toHeader_def layout_SendPacket_def deliveryOf_def Let_def
        split: option.splits simp del: channelType2Byte.simps)
qed

text \<open>The request of a client that has no address.\<close>

definition requestMsg :: "byte \<times> Crc32 \<Rightarrow> UniqueId \<Rightarrow> byte_vec" where
  "requestMsg uninit uid = fromHeader_AddressRequest
     \<lparr>aq_m_type = messageType2Byte address_request, aq_m_uniqueId = uid,
      aq_m_channelType = fst uninit, aq_m_crc32 = snd uninit\<rparr>"

lemma negotiation_payload:
  "frame_payload discoveryMsg"
  "length uid = 8 \<Longrightarrow> length (snd uninit) = 4 \<Longrightarrow> frame_payload (requestMsg uninit uid)"
  "length uid = 8 \<Longrightarrow> frame_payload (replyMsg a uid)"
  by (simp_all add: frame_payload_def discoveryMsg_def requestMsg_def replyMsg_def layout_simps)

lemma rxRaw_discovery:
  assumes "pc_master c = None" and "pc_rxMsg c = []" and "clientAddress (pc_tx c) = null_addr"
  shows "rxRawPacket masterRx uninit discoveryMsg c =
    Some (Inr (c\<lparr>pc_tx := sendMsg (requestMsg uninit (pc_uniqueId c)) (pc_tx c)\<rparr>))"
proof -
  have ok: "rxq_ok c" and c: "c\<lparr>pc_rxMsg := []\<rparr> = c" using assms(2) by (simp_all add: rxq_ok_def)
  have d: "byte2MessageType (discoveryMsg ! 0) = Some address_discovery" "longEnough discoveryMsg"
    "sizeofHeader address_discovery \<le> length discoveryMsg"
    by (simp_all add: discoveryMsg_def longEnough_iff layout_simps del: messageType2Byte.simps)
  show ?thesis unfolding rxRawPacket_client [OF assms(1) ok] using d assms(2,3)
    by (simp add: rxAsClient_def rxCommand_def toHeader_def rxDiscoveryPacket_def sendMasterPacket_def
        requestMsg_def Let_def c)
qed

lemma rxRaw_reply:
  assumes "pc_master c = None" and "pc_rxMsg c = []" and "length (pc_uniqueId c) = 8"
  shows "rxRawPacket masterRx uninit (replyMsg a (pc_uniqueId c)) c = Some (Inr (c\<lparr>pc_tx := setAddress a (pc_tx c)\<rparr>))"
proof -
  let ?r = "replyMsg a (pc_uniqueId c)"
  have ok: "rxq_ok c" using assms(2) by (simp add: rxq_ok_def)
  have r: "byte2MessageType (?r ! 0) = Some address_reply" "longEnough ?r"
    "layout_AddressReply ?r = \<lparr>ar_m_type = messageType2Byte address_reply, ar_m_assigned = a, ar_m_uniqueId = pc_uniqueId c\<rparr>"
    "sizeofHeader address_reply \<le> length ?r"
    using assms(3) by (simp_all add: replyMsg_def longEnough_iff layout_simps del: messageType2Byte.simps)
  show ?thesis unfolding rxRawPacket_client [OF assms(1) ok] using r assms(2)
    by (simp add: rxAsClient_def rxCommand_def toHeader_def rxAddrReplyPacket_def Let_def)
qed

lemma query_request_step:
  assumes "reachable m" and "inState st_queryAddress m"
  shows "\<exists>m'. postEvent masterDescription (rx_pkt_address_request r) m = Some (Inr m') \<and>
    inState st_waitAddressReply m' \<and>
    m_world m' = WaitAddressReply_construct (cleanTimer (receivedAddressRequest r (m_world m)))"
proof -
  let ?ev = "rx_pkt_address_request r"
  let ?w = "WaitAddressReply_construct (cleanTimer (receivedAddressRequest r (m_world m)))"
  obtain s where s: "flat_at masterSetup (stateId s) m" "vq_list (m_eventQueue m) = []"
    "\<And>t. inState t m \<longleftrightarrow> t = s" by (rule reachable_rest [OF assms(1)]) blast
  have st: "s = st_queryAddress" using s(3) assms(2) by simp
  obtain m1 where m1: "postEvent masterDescription ?ev m = processQueue masterDescription m1"
    "flat_at masterSetup (stateId st_queryAddress) m1" "m_world m1 = m_world m" "vq_list (m_eventQueue m1) = [?ev]"
    using mfsm.postEvent_idle [OF s(1,2)] st by blast
  have "flat_event masterDescription (stateId st_queryAddress) ?ev (m_world m1) = Inr (stateId st_waitAddressReply, ?w, [])"
    using m1(3) by (simp add: masterEvent_flat masterEvent_def QueryAddressState_event_def del: stateId.simps)
  from mfsm.processQueue_step [OF m1(2,4) this] obtain m2 where
    m2: "processQueue masterDescription m1 = processQueue masterDescription m2"
    "flat_at masterSetup (stateId st_waitAddressReply) m2" "m_world m2 = ?w" "vq_list (m_eventQueue m2) = []" by auto
  then show ?thesis using m1(1) mfsm.processQueue_empty [OF m2(2,4)] inState_flat [OF m2(2)] by auto
qed

text \<open>What the master's node does with a request while the master asks for clients.\<close>

lemma rxRaw_request:
  assumes "pc_master c = Some m" and "pc_rxMsg c = []" and "reachable m" and "inState st_queryAddress m"
    and "length uid = 8" and "length (snd uninit) = 4"
    and "findLine_uid uid (dh_table (mw_dh (m_world m))) \<noteq> None \<or> dh_freeAddresses (mw_dh (m_world m)) \<noteq> []"
  shows "\<exists>c' m' a. rxRawPacket nodeMasterRx uninit' (requestMsg uninit uid) c = Some (Inr c') \<and>
    pc_master c' = Some m' \<and> inState st_waitAddressReply m' \<and>
    tq_sent (pc_tx c') = tq_sent (pc_tx c) @ [replyMsg a uid] \<and>
    (\<exists>l \<in> set (dh_table (mw_dh (m_world m'))). al_uniqueId l = uid \<and> al_address l = a)"
proof -
  let ?bb = "requestMsg uninit uid" and ?m = "m\<lparr>m_world := (m_world m)\<lparr>mw_tx := pc_tx c\<rparr>\<rparr>"
  have q: "byte2MessageType (?bb ! 0) = Some address_request" "longEnough ?bb" "?bb \<noteq> []"
    "sizeofHeader address_request \<le> length ?bb" "aq_m_uniqueId (layout_AddressRequest ?bb) = uid"
    using assms(5,6) by (simp_all add: requestMsg_def longEnough_iff layout_simps del: messageType2Byte.simps)
  let ?r = "layout_AddressRequest ?bb"
  have reach: "reachable ?m" "inState st_queryAddress ?m" using assms(3,4) reachable_tx by (simp_all add: inState_def)
  obtain m' where m': "postEvent masterDescription (rx_pkt_address_request ?r) ?m = Some (Inr m')"
    "inState st_waitAddressReply m'"
    "m_world m' = WaitAddressReply_construct (cleanTimer (receivedAddressRequest ?r (m_world ?m)))"
    using query_request_step [OF reach] by blast
  have world: "mw_tx (m_world m') = mw_tx (receivedAddressRequest ?r (m_world ?m))"
    "mw_dh (m_world m') = mw_dh (receivedAddressRequest ?r (m_world ?m))"
    by (simp_all add: m'(3) WaitAddressReply_construct_def startTimer_def makeTimeout_def cleanTimer_def
        timer_cancel_def Let_def split: option.splits prod.splits)
  obtain a where a: "tq_sent (mw_tx (receivedAddressRequest ?r (m_world ?m))) = tq_sent (pc_tx c) @ [replyMsg a uid]"
    "\<exists>l \<in> set (dh_table (mw_dh (receivedAddressRequest ?r (m_world ?m)))). al_uniqueId l = uid \<and> al_address l = a"
    using request_answered [of ?r "m_world ?m"] q(5) assms(7) by (auto simp: replyMsg_def layout_simps)
  have "rxCommand uninit' address_request ?bb c = Inr c" by (simp add: rxCommand_def)
  moreover have "masterPacketReceived (Some address_request) ?bb ?m = Some (Inr m')"
    using q(4) m'(1) by (simp add: masterPacketReceived_def toHeader_def)
  ultimately have "rxRawPacket nodeMasterRx uninit' ?bb c = Some (Inr (c\<lparr>pc_master := Some m', pc_tx := mw_tx (m_world m')\<rparr>))"
    using q assms(1,2)
    by (simp add: rxRawPacket_def callMaster_def nodeMasterRx_def deliverRxQueue.simps)
  then show ?thesis using m'(2) world a by auto
qed

section \<open>Example nodes\<close>

definition exampleSystem :: StartSystem where
  "exampleSystem = \<lparr>ss_now = 1, ss_uniqueId = [1, 2, 3, 4, 5, 6, 7, 8], ss_openPort = 3, ss_modemStatus = None,
     ss_setModem = 0, ss_if = exampleIfSystem, ss_alloc = (\<lambda>name type. (4, name)), ss_pty = examplePtySystem,
     ss_fs = exampleFs, ss_rootPath = ''r'', ss_uninit = (\<lambda>_. [0, 0, 0, 0, 0, 0, 0, 0]), ss_uninitHeader = [],
     ss_uninitMac = [0, 0, 0, 0, 0, 0], ss_uid = (\<lambda>_. None), ss_gid = (\<lambda>_. None)\<rparr>"

definition exampleConfig :: "LocalAddress \<Rightarrow> bool \<Rightarrow> SNConfig" where
  "exampleConfig addr master = mkSNConfig\<lparr>sc_mode := mode_socat_tun, sc_staticAddr := addr, sc_startMaster := master\<rparr>"

lemma exampleClient:
  "\<exists>n. start exampleSystem (exampleConfig addr False) = Some (Inr (Some n)) \<and> node_ok n \<and> sn_master n = None \<and>
     clientAddress (sn_txQueue n) = addr \<and> tq_txMsg (sn_txQueue n) = [] \<and>
     getRxIf (Some tun_format) (sn_txQueue n) = Some 0 \<and> pc_delivered (sn_ptc n) = [] \<and>
     mb_txBytes (sn_adapter n) = [] \<and> pc_uniqueId (sn_ptc n) = [1, 2, 3, 4, 5, 6, 7, 8]"
  by (simp add: start_def exampleConfig_def exampleSystem_def mkSNConfig_def mkSerialByteEther_def fd_set_def
      mkPosixFd_def startDriver_def socatTun_startTransfer_def setupRts_def se_addClient_def mb_addClient_def
      setByteIf_def mkMsgToByteAdapter_def mkPacketTypeCodec_def mkTxQueue_def mkOwnAddress_def clientAddress_def
      node_ok_def setRxCB_def reset_def mkFrameCodec_def codec_idle_def Let_def)

text \<open>A client, and a node whose master asks for clients.\<close>

lemma exampleMasterNode:
  "\<exists>M m. node_ok M \<and> sn_master M = Some m \<and> inState st_queryAddress m \<and> dh_freeAddresses (mw_dh (m_world m)) \<noteq> []"
proof -
  have "(case exampleRun (take 7 exampleRequests) of Some (Inr m) \<Rightarrow>
      inState st_queryAddress m \<and> dh_freeAddresses (mw_dh (m_world m)) \<noteq> [] | _ \<Rightarrow> False)" by code_simp
  from exampleRun_checked [OF this] obtain m where m: "reachable m" "inState st_queryAddress m"
    "dh_freeAddresses (mw_dh (m_world m)) \<noteq> []" by blast
  obtain n where "node_ok n" using exampleClient by blast
  then have "node_ok (n\<lparr>sn_ptc := (sn_ptc n)\<lparr>pc_master := Some m\<rparr>\<rparr>)" using m(1) by (simp add: node_ok_def)
  then show ?thesis using m by (intro exI [of _ "n\<lparr>sn_ptc := (sn_ptc n)\<lparr>pc_master := Some m\<rparr>\<rparr>"]) auto
qed

section \<open>Properties\<close>

text \<open>
  A node starts well-formed. Whatever the configuration and the answers of the system, a node
  that starts and goes on to its loop is connected to its port, has nothing left to send, is
  ready for the first frame, and has a master exactly if the configuration asks for one, in a
  reachable state.
\<close>

theorem node_start_ok:
  assumes "start sys cfg = Some (Inr (Some n))" and "1 \<le> ss_now sys"
  shows "node_ok n \<and> (sn_master n \<noteq> None \<longleftrightarrow> sc_startMaster cfg)"
proof -
  obtain n0 where n0: "node_ok n0" "sn_master n0 = None"
    "if sc_startMaster cfg then setupMaster sys cfg n0 = Some (Inr n) else n = n0"
    using start_parts [OF assms(1)] by blast
  show ?thesis
  proof (cases "sc_startMaster cfg")
    case False
    then show ?thesis using n0 by simp
  next
    case True
    then obtain m where m: "mkMaster (ss_uninit sys) (ss_now sys) (sn_txQueue n0) False = Some (Inr m)"
      "flushTx (n0\<lparr>sn_ptc := (sn_ptc n0)\<lparr>pc_master := Some m, pc_tx := mw_tx (m_world m)\<rparr>,
        sn_masterTimeout := if -1 < sc_masterTimeout cfg then Some (sc_masterTimeout cfg) else None\<rparr>) = Inr n"
      using n0(3) by (auto simp: setupMaster_def flushed_def rbind_eq_Inr)
    have "reachable m" using reachable.start [OF assms(2) m(1)] .
    then show ?thesis using m(2) n0 True by (auto simp: flushTx_ok node_ok_def)
  qed
qed

theorem node_start_ok_witness:
  "\<exists>n. start exampleSystem (exampleConfig 1 True) = Some (Inr (Some n)) \<and> node_ok n \<and> sn_master n \<noteq> None"
proof -
  have "(case start exampleSystem (exampleConfig 1 True) of Some (Inr (Some n)) \<Rightarrow> True | _ \<Rightarrow> False)" by code_simp
  then obtain n where n: "start exampleSystem (exampleConfig 1 True) = Some (Inr (Some n))"
    by (auto split: option.splits sum.splits)
  moreover have "1 \<le> ss_now exampleSystem" "sc_startMaster (exampleConfig 1 True)"
    by (simp_all add: exampleSystem_def exampleConfig_def)
  ultimately show ?thesis using node_start_ok [OF n] by blast
qed

text \<open>
  Every frame is survived. A well-formed node, with or without master, that reads a frame
  with any non-empty content below the length limit handles it to the end without failure,
  whatever the content, and is well-formed again.
\<close>

theorem node_survives_frame:
  assumes "node_ok n" and "d \<noteq> []" and "length d < 2 ^ 14"
  shows "\<exists>n'. nodeReceive uninit (encodePacket d) n = Some (Inr n') \<and> node_ok n'"
proof -
  have "frame_payload d" using assms(2,3) by (simp add: frame_payload_def)
  then obtain a where "nodeReceive uninit (encodePacket d) n = rxPacket uninit d (n\<lparr>sn_adapter := a\<rparr>)"
    "node_ok (n\<lparr>sn_adapter := a\<rparr>)" using nodeReceive_frame [OF assms(1)] by metis
  then show ?thesis using rxPacket_total by metis
qed

theorem node_survives_frame_witness:
  "\<exists>n n'. node_ok n \<and> nodeReceive (0, [0, 0, 0, 0]) (encodePacket [4, 1]) n = Some (Inr n') \<and> node_ok n'"
proof -
  obtain n where n: "node_ok n" using exampleClient by blast
  then show ?thesis using node_survives_frame [OF n, of "[4, 1]"] by fastforce
qed

text \<open>
  End to end delivery. A packet that the host gives to a client with an address and an empty
  queue is transmitted as one frame when the client reads the token for its address. A client
  with the destination address that reads this frame gives exactly the packet, with the address
  of the sender, to the driver registered for the channel, once, and transmits nothing.
\<close>

theorem end_to_end_delivery:
  assumes "node_ok A" "sn_master A = None" "clientAddress (sn_txQueue A) = src" "src \<noteq> null_addr"
    and "tq_txMsg (sn_txQueue A) = []" and "length data < 2 ^ 14 - 4"
    and "node_ok B" "sn_master B = None" "clientAddress (sn_txQueue B) = dest" "dest \<noteq> null_addr"
    and "getRxIf (Some ct) (sn_txQueue B) = Some h"
    and "token = encodePacket [messageType2Byte grant_token, src]"
  shows "\<exists>A' B' frame. nodeReceive uninit token (nodeHostSend data dest ct A) = Some (Inr A') \<and>
    mb_txBytes (sn_adapter A') = mb_txBytes (sn_adapter A) @ [frame] \<and> tq_txMsg (sn_txQueue A') = [] \<and>
    nodeReceive uninit frame B = Some (Inr B') \<and>
    pc_delivered (sn_ptc B') = pc_delivered (sn_ptc B) @ [(h, data, src, dest, Some ct)] \<and>
    mb_txBytes (sn_adapter B') = mb_txBytes (sn_adapter B)"
proof -
  let ?tok = "[messageType2Byte grant_token, src]"
  let ?pkt = "[messageType2Byte send_packet, channelType2Byte ct, dest, src] @ data"
  let ?A = "nodeHostSend data dest ct A"
  have A: "node_ok ?A" "pc_master (sn_ptc ?A) = None" "pc_rxMsg (sn_ptc ?A) = []"
    "tq_txMsg (sn_txQueue ?A) = [?pkt]" "tq_sent (sn_txQueue ?A) = []" "clientAddress (sn_txQueue ?A) = src"
    using assms(1-5)
    by (simp_all add: nodeHostSend_def node_ok_def msgHostTx_sendPacket_def sendPacket_def oa_valid_def
        clientAddress_def layout_simps Let_def)
  have tokp: "frame_payload ?tok" by (simp add: frame_payload_def)
  obtain cA where cA: "rxRawPacket nodeMasterRx uninit ?tok (sn_ptc ?A) = Some (Inr cA)"
    "tq_sent (pc_tx cA) = [?pkt]" "tq_txMsg (pc_tx cA) = []"
    using rxRaw_token [OF A(2,3,6), of nodeMasterRx uninit] A(4,5) by auto
  obtain A' where A': "nodeReceive uninit token ?A = Some (Inr A')"
    "mb_txBytes (sn_adapter A') = mb_txBytes (sn_adapter A) @ [encodePacket ?pkt]" "tq_txMsg (sn_txQueue A') = []"
    using node_step [OF A(1) tokp cA(1)] cA(2,3) assms(12) by (auto simp: nodeHostSend_def)
  have pktp: "frame_payload ?pkt" using assms(6) by (simp add: frame_payload_def)
  have "pc_rxMsg (sn_ptc B) = []" "tq_sent (sn_txQueue B) = []" using assms(7) by (simp_all add: node_ok_def)
  then obtain cB where cB: "rxRawPacket nodeMasterRx uninit ?pkt (sn_ptc B) = Some (Inr cB)" "tq_sent (pc_tx cB) = []"
    "pc_delivered cB = pc_delivered (sn_ptc B) @ [(h, data, src, dest, Some ct)]"
    using rxRaw_data [OF assms(8) _ assms(9,10), of nodeMasterRx uninit ct src data] assms(11) by auto
  obtain B' where "nodeReceive uninit (encodePacket ?pkt) B = Some (Inr B')"
    "mb_txBytes (sn_adapter B') = mb_txBytes (sn_adapter B)"
    "pc_delivered (sn_ptc B') = pc_delivered (sn_ptc B) @ [(h, data, src, dest, Some ct)]"
    using node_step [OF assms(7) pktp cB(1)] cB(2,3) by auto
  with A' show ?thesis by blast
qed

theorem end_to_end_delivery_witness:
  "\<exists>A B A' B' frame. start exampleSystem (exampleConfig 1 False) = Some (Inr (Some A)) \<and>
     start exampleSystem (exampleConfig 2 False) = Some (Inr (Some B)) \<and>
     nodeReceive (0, [0, 0, 0, 0]) (encodePacket [messageType2Byte grant_token, 1])
       (nodeHostSend [7, 8, 9] 2 tun_format A) = Some (Inr A') \<and> mb_txBytes (sn_adapter A') = [frame] \<and>
     nodeReceive (0, [0, 0, 0, 0]) frame B = Some (Inr B') \<and>
     pc_delivered (sn_ptc B') = [(0, [7, 8, 9], 1, 2, Some tun_format)]"
proof -
  obtain A where A: "start exampleSystem (exampleConfig 1 False) = Some (Inr (Some A))" "node_ok A"
    "sn_master A = None" "clientAddress (sn_txQueue A) = 1" "tq_txMsg (sn_txQueue A) = []" "mb_txBytes (sn_adapter A) = []"
    using exampleClient [of 1] by blast
  obtain B where B: "start exampleSystem (exampleConfig 2 False) = Some (Inr (Some B))" "node_ok B"
    "sn_master B = None" "clientAddress (sn_txQueue B) = 2" "getRxIf (Some tun_format) (sn_txQueue B) = Some 0"
    "pc_delivered (sn_ptc B) = []"
    using exampleClient [of 2] by blast
  show ?thesis
    using end_to_end_delivery [OF A(2-4) _ A(5) _ B(2-4) _ B(5) refl, of "[7, 8, 9]" "(0, [0, 0, 0, 0])"] A B
    by (fastforce simp: null_addr_def)
qed

text \<open>
  C14: End to end address assignment. A client without an address that reads the master's discovery
  answers with a request; the master's node, which asks for clients and knows the client or has a
  free address, answers this request with a reply; and the client that reads the reply has the
  address under which the master keeps its unique id from then on.
\<close>

theorem end_to_end_address_assignment:
  assumes "node_ok C" "sn_master C = None" "clientAddress (sn_txQueue C) = null_addr"
    and "uid = pc_uniqueId (sn_ptc C)" "length uid = 8" "length (snd uninit) = 4"
    and "node_ok M" "sn_master M = Some m" "inState st_queryAddress m"
    and "findLine_uid uid (dh_table (mw_dh (m_world m))) \<noteq> None \<or> dh_freeAddresses (mw_dh (m_world m)) \<noteq> []"
  shows "\<exists>C1 M' C2 m' request reply l.
    nodeReceive uninit (encodePacket discoveryMsg) C = Some (Inr C1) \<and>
    mb_txBytes (sn_adapter C1) = mb_txBytes (sn_adapter C) @ [request] \<and>
    nodeReceive uninit request M = Some (Inr M') \<and> sn_master M' = Some m' \<and> inState st_waitAddressReply m' \<and>
    mb_txBytes (sn_adapter M') = mb_txBytes (sn_adapter M) @ [reply] \<and>
    nodeReceive uninit reply C1 = Some (Inr C2) \<and>
    l \<in> set (dh_table (mw_dh (m_world m'))) \<and> al_uniqueId l = uid \<and> clientAddress (sn_txQueue C2) = al_address l"
proof -
  have C: "pc_rxMsg (sn_ptc C) = []" "tq_sent (sn_txQueue C) = []"
    and M: "pc_rxMsg (sn_ptc M) = []" "tq_sent (sn_txQueue M) = []" "reachable m"
    using assms(1,7,8) by (simp_all add: node_ok_def)
  let ?req = "requestMsg uninit uid"
  obtain C1 where C1: "nodeReceive uninit (encodePacket discoveryMsg) C = Some (Inr C1)" "node_ok C1"
    "mb_txBytes (sn_adapter C1) = mb_txBytes (sn_adapter C) @ [encodePacket ?req]"
    "sn_ptc C1 = (sn_ptc C)\<lparr>pc_tx := (sendMsg ?req (sn_txQueue C))\<lparr>tq_sent := []\<rparr>\<rparr>"
    using node_step [OF assms(1) negotiation_payload(1) rxRaw_discovery [OF assms(2) C(1) assms(3)], of uninit] assms(4) C(2)
    by (auto simp: sendMsg_def)
  obtain cM m' a where cM: "rxRawPacket nodeMasterRx uninit ?req (sn_ptc M) = Some (Inr cM)" "pc_master cM = Some m'"
    "inState st_waitAddressReply m'" "tq_sent (pc_tx cM) = [replyMsg a uid]"
    "\<exists>l \<in> set (dh_table (mw_dh (m_world m'))). al_uniqueId l = uid \<and> al_address l = a"
    using rxRaw_request [OF assms(8) M(1,3) assms(9,5,6,10), of uninit] M(2) by auto
  obtain M' where M': "nodeReceive uninit (encodePacket ?req) M = Some (Inr M')"
    "mb_txBytes (sn_adapter M') = mb_txBytes (sn_adapter M) @ [encodePacket (replyMsg a uid)]" "sn_master M' = Some m'"
    using node_step [OF assms(7) negotiation_payload(2) [OF assms(5,6)] cM(1)] cM(2,4) by auto
  have c1: "pc_master (sn_ptc C1) = None" "pc_rxMsg (sn_ptc C1) = []" "pc_uniqueId (sn_ptc C1) = uid"
    using C1(4) assms(2,4) C(1) by simp_all
  obtain C2 where C2: "nodeReceive uninit (encodePacket (replyMsg a uid)) C1 = Some (Inr C2)"
    "clientAddress (sn_txQueue C2) = a"
    using node_step [OF C1(2) negotiation_payload(3) [OF assms(5)] rxRaw_reply [OF c1(1,2), unfolded c1(3), OF assms(5)],
        of uninit a]
    by (auto simp: setAddress_def oa_set_def clientAddress_def Let_def)
  show ?thesis using C1(1,3) M' cM(3,5) C2 by blast
qed

theorem end_to_end_address_assignment_witness:
  "\<exists>C M C1 M' C2 request reply. start exampleSystem (exampleConfig 0 False) = Some (Inr (Some C)) \<and>
     nodeReceive (0, [0, 0, 0, 0]) (encodePacket discoveryMsg) C = Some (Inr C1) \<and>
     mb_txBytes (sn_adapter C1) = [request] \<and> nodeReceive (0, [0, 0, 0, 0]) request M = Some (Inr M') \<and>
     mb_txBytes (sn_adapter M') = mb_txBytes (sn_adapter M) @ [reply] \<and>
     nodeReceive (0, [0, 0, 0, 0]) reply C1 = Some (Inr C2)"
proof -
  obtain C where C: "start exampleSystem (exampleConfig 0 False) = Some (Inr (Some C))" "node_ok C"
    "sn_master C = None" "clientAddress (sn_txQueue C) = null_addr" "mb_txBytes (sn_adapter C) = []"
    "pc_uniqueId (sn_ptc C) = [1, 2, 3, 4, 5, 6, 7, 8]"
    using exampleClient [of 0] by (auto simp: null_addr_def)
  obtain M m where M: "node_ok M" "sn_master M = Some m" "inState st_queryAddress m"
    "dh_freeAddresses (mw_dh (m_world m)) \<noteq> []" using exampleMasterNode by blast
  have "length (pc_uniqueId (sn_ptc C)) = 8" "length (snd (0 :: byte, [0, 0, 0, 0 :: byte])) = 4" using C(6) by simp_all
  then show ?thesis
    using end_to_end_address_assignment [OF C(2-4) refl _ _ M(1-3), of "(0, [0, 0, 0, 0])"] M(4) C(1,5) by fastforce
qed

text \<open>
  Static addresses that are never polled. The command line accepts the addresses 4 to 32 for a
  node, but no master ever has a token for one of them: a client with such an address never
  gets to send.
\<close>

theorem unpolled_static_addresses:
  assumes "4 \<le> a" and "a \<le> 32" and "reachable m"
  shows "(\<exists>c. setupSNConfig (defaultOptions mode a False) mkSNConfig = Inr c \<and> sc_staticAddr c = toLocalAddress_int a) \<and>
    toLocalAddress_int a \<notin># tokens (m_world m)"
proof -
  have "books_ok {#} 0 (m_world m)" using reachable_core [OF assms(3)] by (simp add: core_ok_def)
  then have "tokens (m_world m) + mset (dh_freeAddresses (mw_dh (m_world m))) = mset allAddresses"
    by (simp add: books_ok_def)
  then have sub: "set_mset (tokens (m_world m)) \<subseteq> set allAddresses" by (metis set_mset_mset set_mset_union Un_upper1)
  have "list_all (\<lambda>i. toLocalAddress_int i \<notin> set allAddresses) [4 .. 32]" by code_simp
  then have "toLocalAddress_int a \<notin> set allAddresses" using assms(1,2)
    unfolding list_all_iff set_upto by (metis atLeastAtMost_iff)
  then show ?thesis using sub assms(1,2)
    by (auto simp: setupSNConfig_def defaultOptions_def as_string_def as_int_def mkSNConfig_def Let_def)
qed

theorem unpolled_static_addresses_witness:
  "\<exists>m. exampleRun [] = Some (Inr m) \<and> toLocalAddress_int 5 \<notin># tokens (m_world m)"
proof -
  have "(case exampleRun [] of Some (Inr m) \<Rightarrow> True | _ \<Rightarrow> False)" by code_simp
  from exampleRun_checked [OF this] show ?thesis using unpolled_static_addresses [of 5] by auto
qed

end
