(* ===== verification/Bus_Network.thy ===== *)
theory Bus_Network
  imports Serial_Net
begin

text \<open>
  Several nodes on one bus: the node that runs the master, and clients that join and leave. The
  bus is the environment of the program. It is modelled as the program assumes it: every frame
  reaches every node, the sender included, undamaged, and before the next timer fires; two
  frames that are sent at the same time are never delivered (there is no step for it). The
  nodes are the nodes of \<open>Serial_Net\<close>, from the bytes they read to the bytes they write.
\<close>

section \<open>The network\<close>

abbreviation addrOf :: "SerialNet \<Rightarrow> LocalAddress" where
  "addrOf n \<equiv> clientAddress (sn_txQueue n)"

abbreviation dynOf :: "SerialNet \<Rightarrow> bool" where
  "dynOf n \<equiv> oa_dynamic (tq_ownAddress (sn_txQueue n))"

abbreviation uidOf :: "SerialNet \<Rightarrow> UniqueId" where
  "uidOf n \<equiv> pc_uniqueId (sn_ptc n)"

abbreviation framesOf :: "SerialNet \<Rightarrow> byte_vec list" where
  "framesOf n \<equiv> mb_txBytes (sn_adapter n)"

record BusNetwork =
  bn_master :: SerialNet
  bn_clients :: "SerialNet list"
  bn_wire :: "byte_vec list"

definition bn_nodes :: "BusNetwork \<Rightarrow> SerialNet list" where
  "bn_nodes net = bn_master net # bn_clients net"

text \<open>The bytes a node has written are on the wire.\<close>

definition onWire :: "SerialNet \<Rightarrow> SerialNet" where
  "onWire n = n\<lparr>sn_adapter := (sn_adapter n)\<lparr>mb_txBytes := []\<rparr>\<rparr>"

fun hearAll :: "byte \<times> Crc32 \<Rightarrow> byte_vec \<Rightarrow> SerialNet list \<Rightarrow> (SerialNet list \<times> byte_vec list) result option" where
  "hearAll u f [] = Some (Inr ([], []))"
| "hearAll u f (n # ns) =
     Option.bind (nodeReceive u f n) (\<lambda>r. case r of
       Inl e \<Rightarrow> Some (Inl e)
     | Inr n' \<Rightarrow> map_option (\<lambda>r'. rbind r' (\<lambda>(ns', fs). Inr (onWire n' # ns', framesOf n' @ fs))) (hearAll u f ns))"

definition netDeliver :: "byte \<times> Crc32 \<Rightarrow> byte_vec \<Rightarrow> BusNetwork \<Rightarrow> BusNetwork result option" where
  "netDeliver u f net =
     map_option (\<lambda>r. rbind r (\<lambda>(ns, fs). Inr \<lparr>bn_master = hd ns, bn_clients = tl ns, bn_wire = fs\<rparr>))
       (hearAll u f (bn_nodes net))"

definition netTimer :: "nat \<Rightarrow> BusNetwork \<Rightarrow> BusNetwork result option" where
  "netTimer i net =
     map_option (\<lambda>r. rbind r (\<lambda>n. Inr (net\<lparr>bn_master := onWire n, bn_wire := bn_wire net @ framesOf n\<rparr>)))
       (nodeTimer i (bn_master net))"

definition netTime :: "time \<Rightarrow> BusNetwork \<Rightarrow> BusNetwork" where
  "netTime dt net = net\<lparr>bn_master := nodeTime dt (bn_master net), bn_clients := map (nodeTime dt) (bn_clients net)\<rparr>"

text \<open>The host of a node, the master's or a client's, sends a packet or announces its MAC address.\<close>

definition nodeMacUpdate :: "MacAddr \<Rightarrow> SerialNet \<Rightarrow> SerialNet" where
  "nodeMacUpdate mac n = n\<lparr>sn_ptc := (sn_ptc n)\<lparr>pc_tx := msgHostTx_sendMacUpdate mac (sn_txQueue n)\<rparr>\<rparr>"

definition atNode :: "nat \<Rightarrow> (SerialNet \<Rightarrow> SerialNet) \<Rightarrow> BusNetwork \<Rightarrow> BusNetwork" where
  "atNode k f net =
     (case k of 0 \<Rightarrow> net\<lparr>bn_master := f (bn_master net)\<rparr>
      | Suc j \<Rightarrow> if j < length (bn_clients net)
                 then net\<lparr>bn_clients := (bn_clients net)[j := f (bn_clients net ! j)]\<rparr> else net)"

section \<open>Which networks are considered\<close>

definition dynamicRange :: "LocalAddress set" where
  "dynamicRange = toLocalAddress_int ` {dynamicLowAddress .. dynamicHighAddress}"

text \<open>Unique ids are unique and eight bytes long; configured addresses are unique and outside the
  range that the master assigns from; at most one node waits for an address.\<close>

definition compatible :: "SerialNet list \<Rightarrow> bool" where
  "compatible ns \<longleftrightarrow> distinct (map uidOf ns) \<and> (\<forall>n \<in> set ns. length (uidOf n) = 8) \<and>
     distinct (map addrOf (filter (\<lambda>n. \<not> dynOf n) ns)) \<and>
     (\<forall>n \<in> set ns. \<not> dynOf n \<longrightarrow> addrOf n \<noteq> null_addr \<and> addrOf n \<notin> dynamicRange) \<and>
     length (filter (\<lambda>n. addrOf n = null_addr) ns) \<le> 1"

definition client_started :: "SerialNet \<Rightarrow> bool" where
  "client_started n \<longleftrightarrow> (\<exists>sys cfg. start sys cfg = Some (Inr (Some n)) \<and> \<not> sc_startMaster cfg)"

text \<open>The unique ids in the rows of the static addresses, which the program never initialises.\<close>

definition staticUids :: "BusNetwork \<Rightarrow> UniqueId set" where
  "staticUids net = {uid. \<exists>m a. sn_master (bn_master net) = Some m \<and> (a, uid, False) \<in> rows (m_world m)}"

inductive net_reachable :: "BusNetwork \<Rightarrow> bool" where
  start: "start sys cfg = Some (Inr (Some n)) \<Longrightarrow> sc_startMaster cfg \<Longrightarrow> 1 \<le> ss_now sys \<Longrightarrow>
    list_all client_started ns \<Longrightarrow> compatible (n # ns) \<Longrightarrow>
    net = \<lparr>bn_master = onWire n, bn_clients = ns, bn_wire = framesOf n\<rparr> \<Longrightarrow>
    staticUids net \<inter> uidOf ` set (bn_nodes net) = {} \<Longrightarrow> net_reachable net"
| deliver: "net_reachable net \<Longrightarrow> bn_wire net = [f] \<Longrightarrow> length (snd u) = 4 \<Longrightarrow>
    netDeliver u f net = Some (Inr net') \<Longrightarrow> net_reachable net'"
| timer: "net_reachable net \<Longrightarrow> bn_wire net = [] \<Longrightarrow> netTimer i net = Some (Inr net') \<Longrightarrow> net_reachable net'"
| time: "net_reachable net \<Longrightarrow> net_reachable (netTime dt net)"
| host: "net_reachable net \<Longrightarrow> length data < 2 ^ 14 - 4 \<Longrightarrow>
    net_reachable (atNode k (nodeHostSend data dest ct) net)"
| mac: "net_reachable net \<Longrightarrow> length mac = 6 \<Longrightarrow> net_reachable (atNode k (nodeMacUpdate mac) net)"
| join: "net_reachable net \<Longrightarrow> bn_wire net = [] \<Longrightarrow> client_started n \<Longrightarrow> compatible (bn_nodes net @ [n]) \<Longrightarrow>
    uidOf n \<notin> staticUids net \<Longrightarrow> net_reachable (net\<lparr>bn_clients := bn_clients net @ [n]\<rparr>)"
| leave: "net_reachable net \<Longrightarrow>
    net_reachable (net\<lparr>bn_clients := take k (bn_clients net) @ drop (Suc k) (bn_clients net)\<rparr>)"

section \<open>One node\<close>

text \<open>The messages a node may send when it holds the token.\<close>

definition answer :: "byte_vec \<Rightarrow> bool" where
  "answer p \<longleftrightarrow> frame_payload p \<and> (\<exists>mt \<in> {send_packet, mac_update, return_token}.
     byte2MessageType (p ! 0) = Some mt \<and> sizeofHeader mt \<le> length p)"

definition on_bus :: "SerialNet \<Rightarrow> bool" where
  "on_bus n \<longleftrightarrow> node_ok n \<and> framesOf n = [] \<and> list_all answer (tq_txMsg (sn_txQueue n))"

lemma node_hears_client:
  assumes "on_bus n" and "sn_master n = None" and "frame_payload d" and "byte2MessageType (d ! 0) = Some cmd"
    and "sizeofHeader cmd \<le> length d" and "rxCommand u cmd d (sn_ptc n) = Inr c1"
  shows "\<exists>n'. nodeReceive u (encodePacket d) n = Some (Inr n') \<and> node_ok n' \<and> sn_master n' = None \<and>
    sn_txQueue n' = (pc_tx c1)\<lparr>tq_sent := []\<rparr> \<and> uidOf n' = pc_uniqueId c1 \<and>
    framesOf n' = map encodePacket (tq_sent (pc_tx c1))"
proof -
  have n: "node_ok n" "framesOf n = []" "pc_rxMsg (sn_ptc n) = []"
    using assms(1) by (simp_all add: on_bus_def node_ok_def)
  have long: "longEnough d" using assms(3-5) by (auto simp: longEnough_iff frame_payload_def)
  have ok: "rxq_ok (sn_ptc n)" using n(3) by (simp add: rxq_ok_def)
  obtain c1' where c1: "rxq_ok c1" "pc_master c1 = None"
    using rxCommand_total [OF assms(5) ok, of u] assms(2,6) by auto
  have rx: "rxRawPacket nodeMasterRx u d (sn_ptc n) = Some (Inr (rxAsClient u d (sn_ptc n)))"
    by (rule rxRawPacket_client [OF assms(2) ok])
  have "pc_tx (rxAsClient u d (sn_ptc n)) = pc_tx c1" "pc_uniqueId (rxAsClient u d (sn_ptc n)) = pc_uniqueId c1"
    "pc_master (rxAsClient u d (sn_ptc n)) = None"
    using long assms(4,6) c1 by (simp_all add: rxAsClient_def)
  then show ?thesis using node_step [OF n(1) assms(3) rx] n(2) by auto
qed

lemma node_hears_master:
  assumes "on_bus n" and "sn_master n = Some m" and "frame_payload d" and "byte2MessageType (d ! 0) = Some cmd"
    and "sizeofHeader cmd \<le> length d" and "rxCommand u cmd d (sn_ptc n) = Inr c1"
    and "masterPacketReceived (Some cmd) d (m\<lparr>m_world := (m_world m)\<lparr>mw_tx := pc_tx c1\<rparr>\<rparr>) = Some (Inr m')"
  shows "\<exists>n'. nodeReceive u (encodePacket d) n = Some (Inr n') \<and> node_ok n' \<and> sn_master n' = Some m' \<and>
    sn_txQueue n' = (mw_tx (m_world m'))\<lparr>tq_sent := []\<rparr> \<and> uidOf n' = pc_uniqueId c1 \<and>
    framesOf n' = map encodePacket (tq_sent (mw_tx (m_world m')))"
proof -
  have n: "node_ok n" "framesOf n = []" "pc_rxMsg (sn_ptc n) = []"
    using assms(1) by (simp_all add: on_bus_def node_ok_def)
  have long: "longEnough d" "d \<noteq> []" using assms(3-5) by (auto simp: longEnough_iff frame_payload_def)
  have ok: "rxq_ok (sn_ptc n)" using n(3) by (simp add: rxq_ok_def)
  obtain c1' where c1: "rxq_ok c1" "pc_master c1 = Some m"
    using rxCommand_total [OF assms(5) ok, of u] assms(2,6) by auto
  define c where "c = c1\<lparr>pc_master := Some m', pc_tx := mw_tx (m_world m')\<rparr>"
  have "callMaster nodeMasterRx cmd d c1 = Some (Inr c)"
    using c1(2) assms(7) by (simp add: callMaster_def nodeMasterRx_def c_def)
  moreover have "rxq_ok c" using c1(1) by (simp add: rxq_ok_def c_def)
  ultimately obtain c' where rx: "rxRawPacket nodeMasterRx u d (sn_ptc n) = Some (Inr c')" "pc_tx c' = pc_tx c"
    "pc_uniqueId c' = pc_uniqueId c" "pc_master c' = pc_master c"
    using long assms(4,6) by (simp add: rxRawPacket_def deliverRxQueue_eq)
  then show ?thesis using node_step [OF n(1) assms(3) rx(1)] n(2) by (auto simp: c_def)
qed

section \<open>Messages on the bus\<close>

datatype bus_msg =
    Msg_Started
  | Msg_Grant LocalAddress
  | Msg_Answer byte_vec
  | Msg_Discovery
  | Msg_Request "byte \<times> Crc32" UniqueId
  | Msg_Reply LocalAddress UniqueId

primrec msgBytes :: "bus_msg \<Rightarrow> byte_vec" where
  "msgBytes Msg_Started = startedMsg"
| "msgBytes (Msg_Grant a) = grantMsg a"
| "msgBytes (Msg_Answer p) = p"
| "msgBytes Msg_Discovery = discoveryMsg"
| "msgBytes (Msg_Request u uid) = requestMsg u uid"
| "msgBytes (Msg_Reply a uid) = replyMsg a uid"

primrec msgType :: "bus_msg \<Rightarrow> MessageType" where
  "msgType Msg_Started = master_started"
| "msgType (Msg_Grant a) = grant_token"
| "msgType (Msg_Answer p) = the (byte2MessageType (p ! 0))"
| "msgType Msg_Discovery = address_discovery"
| "msgType (Msg_Request u uid) = address_request"
| "msgType (Msg_Reply a uid) = address_reply"

fun wf_msg :: "bus_msg \<Rightarrow> bool" where
  "wf_msg (Msg_Answer p) = answer p"
| "wf_msg (Msg_Request u uid) = (length uid = 8 \<and> length (snd u) = 4)"
| "wf_msg (Msg_Reply a uid) = (length uid = 8)"
| "wf_msg _ = True"

abbreviation frameOf :: "bus_msg \<Rightarrow> byte_vec" where
  "frameOf msg \<equiv> encodePacket (msgBytes msg)"

lemma msg_facts:
  assumes "wf_msg msg"
  shows "frame_payload (msgBytes msg)" and "byte2MessageType (msgBytes msg ! 0) = Some (msgType msg)"
    and "sizeofHeader (msgType msg) \<le> length (msgBytes msg)"
  using assms
  by (cases msg; force simp: answer_def startedMsg_def grantMsg_def mkGrantToken_def discoveryMsg_def requestMsg_def
      replyMsg_def layout_simps frame_payload_def simp del: messageType2Byte.simps)+

text \<open>What a node without master does with a message: the address it has afterwards, and what it
  says.\<close>

fun addrAfter :: "bus_msg \<Rightarrow> UniqueId \<Rightarrow> TxQueue \<Rightarrow> LocalAddress" where
  "addrAfter Msg_Started uid q = (if oa_dynamic (tq_ownAddress q) then null_addr else clientAddress q)"
| "addrAfter (Msg_Reply a uid') uid q = (if uid' = uid then a else clientAddress q)"
| "addrAfter _ uid q = clientAddress q"

fun says :: "byte \<times> Crc32 \<Rightarrow> bus_msg \<Rightarrow> UniqueId \<Rightarrow> TxQueue \<Rightarrow> byte_vec list \<Rightarrow> bool" where
  "says u (Msg_Grant a) uid q out = (if clientAddress q = a then \<exists>p. answer p \<and> out = [p] else out = [])"
| "says u Msg_Discovery uid q out = (out = (if clientAddress q = null_addr then [requestMsg u uid] else []))"
| "says u _ uid q out = (out = [])"

definition heard :: "byte \<times> Crc32 \<Rightarrow> bus_msg \<Rightarrow> UniqueId \<Rightarrow> TxQueue \<Rightarrow> TxQueue \<Rightarrow> bool" where
  "heard u msg uid q q' \<longleftrightarrow> list_all answer (tq_txMsg q') \<and> oa_dynamic (tq_ownAddress q') = oa_dynamic (tq_ownAddress q) \<and>
     clientAddress q' = addrAfter msg uid q \<and> says u msg uid q (tq_sent q')"

lemma answer_return: "answer (returnTokenMsg a)"
  by (simp add: answer_def returnTokenMsg_def frame_payload_def del: messageType2Byte.simps)

lemma token_heard:
  assumes "sendClientPacketOrReturnToken q = Inr q'" and "tq_sent q = []" and "list_all answer (tq_txMsg q)"
  shows "heard u (Msg_Grant (clientAddress q)) uid q q'"
proof -
  have "txRequest Token_Granted q = Inr q'" using assms(1) by simp
  note eff = token_effect [OF this]
  have own: "tq_ownAddress q' = tq_ownAddress q"
    using assms(1) by (auto simp: sendClientPacketOrReturnToken_def sendReturnToken_def sendClientPacket_def sendMsg_def
        split: list.splits if_splits)
  show ?thesis using eff own assms(2,3) answer_return
    by (cases "tq_txMsg q") (auto simp: heard_def clientAddress_def)
qed

lemma dispatch_heard:
  assumes "wf_msg msg" and "tq_sent (pc_tx c) = []" and "list_all answer (tq_txMsg (pc_tx c))" and "length (pc_uniqueId c) = 8"
  shows "\<exists>c1. rxCommand u (msgType msg) (msgBytes msg) c = Inr c1 \<and> pc_uniqueId c1 = pc_uniqueId c \<and>
    heard u msg (pc_uniqueId c) (pc_tx c) (pc_tx c1)"
proof (cases msg)
  case Msg_Started
  then show ?thesis using assms
    by (simp add: rxCommand_def heard_def txq_masterStarted_def oa_masterStarted_def oa_set_def clientAddress_def Let_def)
next
  case (Msg_Grant a)
  have f: "sizeofHeader grant_token \<le> length (grantMsg a)" "gt_m_tokenReceiver (layout_GrantToken (grantMsg a)) = a"
    by (simp_all add: grantMsg_def mkGrantToken_def layout_simps)
  obtain q' where q': "sendClientPacketOrReturnToken (pc_tx c) = Inr q'" using sendClientPacketOrReturnToken_total by blast
  show ?thesis
  proof (cases "clientAddress (pc_tx c) = a")
    case True
    then show ?thesis using Msg_Grant f q' token_heard [OF q' assms(2,3), of u "pc_uniqueId c"]
      by (simp add: rxCommand_def toHeader_def rxToken_def Let_def)
  next
    case False
    then show ?thesis using Msg_Grant f assms(2,3) by (simp add: rxCommand_def toHeader_def heard_def Let_def)
  qed
next
  case (Msg_Answer p)
  then have p: "msgType msg \<in> {send_packet, mac_update, return_token}" "sizeofHeader (msgType msg) \<le> length p"
    using assms(1) by (auto simp: answer_def)
  obtain c1 where c1: "rxCommand u (msgType msg) p c = Inr c1" "pc_tx c1 = pc_tx c" "pc_uniqueId c1 = pc_uniqueId c"
  proof (cases "msgType msg = send_packet")
    case True
    then show ?thesis using that p by (simp add: rxCommand_def toHeader_def Let_def)
  next
    case False
    then show ?thesis using that p by (auto simp: rxCommand_def Let_def split: option.splits)
  qed
  then show ?thesis using Msg_Answer assms(2,3) by (simp add: heard_def del: msgType.simps)
next
  case Msg_Discovery
  have "sizeofHeader address_discovery \<le> length discoveryMsg" by (simp add: discoveryMsg_def layout_simps)
  then show ?thesis using Msg_Discovery assms
    by (simp add: rxCommand_def toHeader_def rxDiscoveryPacket_def sendMasterPacket_def sendMsg_def requestMsg_def
        heard_def clientAddress_def Let_def)
next
  case (Msg_Request u' uid)
  then show ?thesis using assms by (simp add: rxCommand_def heard_def)
next
  case (Msg_Reply a uid)
  have f: "sizeofHeader address_reply \<le> length (replyMsg a uid)" "ar_m_uniqueId (layout_AddressReply (replyMsg a uid)) = uid"
    "ar_m_assigned (layout_AddressReply (replyMsg a uid)) = a"
    using Msg_Reply assms(1) by (simp_all add: replyMsg_def layout_simps)
  then have "rxCommand u address_reply (replyMsg a uid) c = Inr (if uid = pc_uniqueId c then c\<lparr>pc_tx := setAddress a (pc_tx c)\<rparr> else c)"
    by (auto simp: rxCommand_def toHeader_def rxAddrReplyPacket_def)
  then show ?thesis using Msg_Reply assms(2,3)
    by (auto simp: setAddress_def oa_set_def heard_def clientAddress_def Let_def)
qed

lemma node_ok_onWire [simp]: "node_ok (onWire n) = node_ok n"
  by (simp add: node_ok_def onWire_def)

lemma onWire_simps [simp]:
  "sn_ptc (onWire n) = sn_ptc n" "framesOf (onWire n) = []"
  by (simp_all add: onWire_def)

text \<open>A client after a message.\<close>

definition clientHeard :: "byte \<times> Crc32 \<Rightarrow> bus_msg \<Rightarrow> SerialNet \<Rightarrow> SerialNet \<Rightarrow> bool" where
  "clientHeard u msg n n' \<longleftrightarrow> on_bus (onWire n') \<and> sn_master n' = None \<and> uidOf n' = uidOf n \<and> dynOf n' = dynOf n \<and>
     addrOf n' = addrAfter msg (uidOf n) (sn_txQueue n) \<and>
     (\<exists>out. says u msg (uidOf n) (sn_txQueue n) out \<and> framesOf n' = map encodePacket out)"

lemma client_hears:
  assumes "on_bus n" and "sn_master n = None" and "length (uidOf n) = 8" and "wf_msg msg"
  shows "\<exists>n'. nodeReceive u (frameOf msg) n = Some (Inr n') \<and> clientHeard u msg n n'"
proof -
  have n: "tq_sent (sn_txQueue n) = []" "list_all answer (tq_txMsg (sn_txQueue n))"
    using assms(1) by (simp_all add: on_bus_def node_ok_def)
  obtain c1 where c1: "rxCommand u (msgType msg) (msgBytes msg) (sn_ptc n) = Inr c1" "pc_uniqueId c1 = uidOf n"
    "heard u msg (uidOf n) (sn_txQueue n) (pc_tx c1)"
    using dispatch_heard [OF assms(4) n assms(3)] by blast
  from node_hears_client [OF assms(1,2) msg_facts [OF assms(4)] c1(1)]
  show ?thesis using c1 by (auto simp: clientHeard_def on_bus_def heard_def clientAddress_def)
qed

lemma hearAll_ok:
  assumes "\<forall>n \<in> set ns. \<exists>n'. nodeReceive u f n = Some (Inr n') \<and> R n n'"
  shows "\<exists>ns'. hearAll u f ns = Some (Inr (map onWire ns', concat (map framesOf ns'))) \<and> list_all2 R ns ns'"
  using assms
proof (induction ns)
  case Nil
  then show ?case by simp
next
  case (Cons n ns)
  obtain n' where n': "nodeReceive u f n = Some (Inr n')" "R n n'" using Cons.prems by auto
  obtain ns' where "hearAll u f ns = Some (Inr (map onWire ns', concat (map framesOf ns')))" "list_all2 R ns ns'"
    using Cons by auto
  then show ?case using n' by (intro exI [of _ "n' # ns'"]) simp
qed

lemma clients_hear:
  assumes "list_all on_bus ns" and "list_all (\<lambda>n. sn_master n = None) ns" and "\<forall>n \<in> set ns. length (uidOf n) = 8"
    and "wf_msg msg"
  shows "\<exists>ns'. hearAll u (frameOf msg) ns = Some (Inr (map onWire ns', concat (map framesOf ns'))) \<and>
    list_all2 (clientHeard u msg) ns ns'"
  using assms client_hears by (intro hearAll_ok) (auto simp: list_all_iff)

text \<open>At most one of the nodes has a reason to speak.\<close>

lemma one_speaker:
  assumes "list_all2 R ns ns'" and "length (filter P ns) \<le> 1"
    and "\<And>n n'. R n n' \<Longrightarrow> if P n then \<exists>p. Q n p \<and> out n' = [p] else out n' = []"
  shows "(filter P ns = [] \<and> concat (map out ns') = []) \<or>
    (\<exists>n \<in> set ns. \<exists>p. P n \<and> Q n p \<and> concat (map out ns') = [p])"
  using assms(1,2)
proof (induction rule: list_all2_induct)
  case Nil
  then show ?case by simp
next
  case (Cons n ns n' ns')
  have silent: "concat (map out ns') = []" if "filter P ns = []"
    using Cons.IH that by (auto simp: filter_empty_conv)
  show ?case
  proof (cases "P n")
    case True
    then have "filter P ns = []" using Cons.prems by simp
    then show ?thesis using assms(3) [OF Cons.hyps(1)] True silent by auto
  next
    case False
    then show ?thesis using assms(3) [OF Cons.hyps(1)] Cons by auto
  qed
qed

section \<open>The conversation\<close>

text \<open>A unique id that a request or a reply may carry.\<close>

definition fresh_uid :: "MasterWorld \<Rightarrow> SerialNet list \<Rightarrow> UniqueId \<Rightarrow> bool" where
  "fresh_uid w ns uid \<longleftrightarrow> length uid = 8 \<and> (\<forall>n \<in> set ns. uidOf n = uid \<longrightarrow> dynOf n) \<and> (\<forall>a. (a, uid, False) \<notin> rows w)"

text \<open>What is on the wire in each state of the master.\<close>

fun conv :: "StateId \<Rightarrow> MasterWorld \<Rightarrow> LocalAddress \<Rightarrow> SerialNet list \<Rightarrow> byte_vec list \<Rightarrow> bool" where
  "conv st_idle w own ns wire = (doNothing (currentAction w) \<and> wire = [])"
| "conv st_startMaster w own ns wire =
     (wire = [frameOf Msg_Started] \<and> (\<forall>n \<in> set ns. dynOf n \<longrightarrow> addrOf n = null_addr))"
| "conv st_sendingToken w own ns wire =
     (wire = [frameOf (Msg_Grant (ac_address (currentAction w)))] \<and> ac_address (currentAction w) \<noteq> own)"
| "conv st_waitClientPacketDone w own ns wire =
     ((\<exists>p. answer p \<and> wire = [frameOf (Msg_Answer p)]) \<or>
      (wire = [] \<and> (\<forall>n \<in> set ns. dynOf n \<longrightarrow> addrOf n \<noteq> ac_address (currentAction w))))"
| "conv st_queryAddress w own ns wire =
     (wire = [] \<or> wire = [frameOf Msg_Discovery] \<or>
      (\<exists>u uid. length (snd u) = 4 \<and> fresh_uid w ns uid \<and> wire = [frameOf (Msg_Request u uid)]))"
| "conv st_waitAddressReply w own ns wire =
     (wire = [] \<or> (\<exists>a uid. fresh_uid w ns uid \<and> (a, uid, True) \<in> rows w \<and> wire = [frameOf (Msg_Reply a uid)]))"

text \<open>The addresses of the nodes, and the books of the master about them.\<close>

definition booked :: "MasterWorld \<Rightarrow> SerialNet list \<Rightarrow> bool" where
  "booked w ns \<longleftrightarrow> compatible ns \<and>
     (\<forall>n \<in> set ns. dynOf n \<and> addrOf n \<noteq> null_addr \<longrightarrow> (addrOf n, uidOf n, True) \<in> rows w) \<and>
     (\<forall>n \<in> set ns. \<forall>a. (a, uidOf n, False) \<notin> rows w)"

definition net_ok :: "StateId \<Rightarrow> BusMaster \<Rightarrow> BusNetwork \<Rightarrow> bool" where
  "net_ok s m net \<longleftrightarrow> sn_master (bn_master net) = Some m \<and> at_rest s m \<and>
     list_all (\<lambda>n. sn_master n = None) (bn_clients net) \<and> list_all on_bus (bn_nodes net) \<and>
     booked (m_world m) (bn_nodes net) \<and> starts (m_world m) \<le> (if s = st_startMaster then 1 else 0) \<and>
     conv s (m_world m) (addrOf (bn_master net)) (bn_nodes net) (bn_wire net)"

definition net_inv :: "BusNetwork \<Rightarrow> bool" where
  "net_inv net \<longleftrightarrow> (\<exists>s m. net_ok s m net)"

lemma at_rest_world:
  assumes "at_rest s m" and "mw_ts w = mw_ts (m_world m)" "mw_ah w = mw_ah (m_world m)" "mw_dh w = mw_dh (m_world m)"
    "mw_fsm w = mw_fsm (m_world m)"
  shows "at_rest s (m\<lparr>m_world := w\<rparr>)"
  using assms rest_ok_cong [of w "m_world m" s] by (simp add: at_rest_def)

text \<open>The rows of the address store have different addresses, those of assigned rows are in the
  dynamic range.\<close>

lemma rows_unique:
  assumes "at_rest s m" and "(a, uid, d) \<in> rows (m_world m)" and "(a, uid', d') \<in> rows (m_world m)"
  shows "uid = uid' \<and> d = d'"
proof -
  have "books_ok {#} 0 (m_world m)" using assms(1) by (simp add: at_rest_def rest_ok_def core_ok_def)
  then have "distinct (map al_address (dh_table (mw_dh (m_world m))))" by (rule store_parts(1) [OF _ refl])
  then show ?thesis using assms(2,3) by (auto simp: rows_def distinct_map dest: inj_onD)
qed

lemma rows_dynamic:
  assumes "at_rest s m" and "(a, uid, True) \<in> rows (m_world m)"
  shows "a \<in> dynamicRange \<and> a \<noteq> null_addr"
proof -
  have "books_ok {#} 0 (m_world m)" using assms(1) by (simp add: at_rest_def rest_ok_def core_ok_def)
  then have "a \<in> dynamicRange"
    using assms(2) store_parts(3) [OF _ refl] by (auto simp: rows_def dynamicRange_def)
  moreover have "null_addr \<notin> dynamicRange" unfolding dynamicRange_def by code_simp
  ultimately show ?thesis by auto
qed

lemma length_filter_le_1:
  assumes "\<And>i j. i < j \<Longrightarrow> j < length xs \<Longrightarrow> P (xs ! i) \<Longrightarrow> P (xs ! j) \<Longrightarrow> False"
  shows "length (filter P xs) \<le> 1"
  using assms
proof (induction xs)
  case Nil
  then show ?case by simp
next
  case (Cons x xs)
  have tail: "length (filter P xs) \<le> 1"
  proof (rule Cons.IH)
    fix i j assume "i < j" "j < length xs" "P (xs ! i)" "P (xs ! j)"
    then show False using Cons.prems [of "Suc i" "Suc j"] by simp
  qed
  have "filter P xs = []" if "P x"
  proof (rule ccontr)
    assume "filter P xs \<noteq> []"
    then obtain j where "j < length xs" "P (xs ! j)" by (auto simp: filter_empty_conv in_set_conv_nth)
    then show False using Cons.prems [of 0 "Suc j"] that by simp
  qed
  then show ?case using tail by auto
qed

lemma length_filter_le_1D:
  assumes "length (filter P xs) \<le> 1" and "i < j" and "j < length xs" and "P (xs ! i)"
  shows "\<not> P (xs ! j)"
proof
  assume "P (xs ! j)"
  have "xs = take j xs @ xs ! j # drop (Suc j) xs" using assms(3) by (rule id_take_nth_drop)
  then have "length (filter P xs) = length (filter P (take j xs)) + Suc (length (filter P (drop (Suc j) xs)))"
    using \<open>P (xs ! j)\<close> by (metis (no_types, lifting) filter.simps(2) filter_append length_Cons length_append)
  moreover have "xs ! i \<in> set (filter P (take j xs))" using assms by (auto simp: in_set_conv_nth)
  then have "0 < length (filter P (take j xs))" by (metis length_pos_if_in_set)
  ultimately show False using assms(1) by simp
qed

text \<open>No address belongs to two nodes.\<close>

lemma addresses_unique:
  assumes "at_rest s m" and "booked (m_world m) ns"
  shows "length (filter (\<lambda>n. addrOf n = a) ns) \<le> 1"
proof (rule length_filter_le_1)
  fix i j assume ij: "i < j" "j < length ns" and a: "addrOf (ns ! i) = a" "addrOf (ns ! j) = a"
  have mem: "ns ! i \<in> set ns" "ns ! j \<in> set ns" using ij by simp_all
  have comp: "distinct (map uidOf ns)" "distinct (map addrOf (filter (\<lambda>n. \<not> dynOf n) ns))"
    "length (filter (\<lambda>n. addrOf n = null_addr) ns) \<le> 1"
    and stat: "\<And>n. n \<in> set ns \<Longrightarrow> \<not> dynOf n \<Longrightarrow> addrOf n \<notin> dynamicRange"
    using assms(2) by (auto simp: booked_def compatible_def)
  show False
  proof (cases "a = null_addr")
    case True
    then show False using length_filter_le_1D [OF comp(3) ij] a by simp
  next
    case False
    then have row: "(a, uidOf n, True) \<in> rows (m_world m)" if "n \<in> set ns" "addrOf n = a" "dynOf n" for n
      using assms(2) that by (auto simp: booked_def)
    then have dyn: "dynOf n \<longleftrightarrow> a \<in> dynamicRange" if "n \<in> set ns" "addrOf n = a" for n
      using that stat rows_dynamic [OF assms(1)] by blast
    show False
    proof (cases "a \<in> dynamicRange")
      case True
      then have "uidOf (ns ! i) = uidOf (ns ! j)" using row dyn mem a rows_unique [OF assms(1)] by blast
      then show False using comp(1) ij by (auto simp: distinct_conv_nth)
    next
      case False
      then show False using dyn mem a ij distinct_filtered [OF comp(2), of i j] by auto
    qed
  qed
qed

section \<open>Keeping the books of the network\<close>

definition ident :: "SerialNet \<Rightarrow> UniqueId \<times> LocalAddress \<times> bool" where
  "ident n = (uidOf n, addrOf n, dynOf n)"

lemma compatible_ident:
  "compatible ns \<longleftrightarrow> (let is = map ident ns in distinct (map fst is) \<and> (\<forall>i \<in> set is. length (fst i) = 8) \<and>
     distinct (map (fst \<circ> snd) (filter (\<lambda>i. \<not> snd (snd i)) is)) \<and>
     (\<forall>i \<in> set is. \<not> snd (snd i) \<longrightarrow> fst (snd i) \<noteq> null_addr \<and> fst (snd i) \<notin> dynamicRange) \<and>
     length (filter (\<lambda>i. fst (snd i) = null_addr) is) \<le> 1)"
  by (simp add: compatible_def ident_def filter_map comp_def Let_def)

lemma booked_ident:
  "booked w ns \<longleftrightarrow> compatible ns \<and>
     (\<forall>i \<in> set (map ident ns). snd (snd i) \<and> fst (snd i) \<noteq> null_addr \<longrightarrow> (fst (snd i), fst i, True) \<in> rows w) \<and>
     (\<forall>i \<in> set (map ident ns). \<forall>a. (a, fst i, False) \<notin> rows w)"
  by (simp add: booked_def ident_def)

lemma booked_keeps:
  assumes "booked w ns" and "map ident ns' = map ident ns" and "keeps A w w'"
    and "\<forall>n \<in> set ns. dynOf n \<longrightarrow> addrOf n \<notin> A"
  shows "booked w' ns'"
proof -
  have "booked w' ns"
    using assms(1,3,4) by (auto simp: booked_def keeps_def)
  then show ?thesis using assms(2) unfolding booked_ident compatible_ident by simp
qed

lemma rest_starts: "at_rest st_startMaster m \<Longrightarrow> 0 < starts (m_world m)"
  by (simp add: at_rest_def rest_ok_def starts_def inFlight_def doNothing_def)

lemma speaks_conv:
  assumes "at_rest s m" and "speaks s (m_world m) q" and "tq_sent q = []" and "list_all answer (tq_txMsg q)"
    and "starts (m_world m) = 0"
  shows "conv s (m_world m) (clientAddress q) ns (map encodePacket (tq_sent (mw_tx (m_world m))))"
    and "list_all answer (tq_txMsg (mw_tx (m_world m)))"
    and "tq_ownAddress (mw_tx (m_world m)) = tq_ownAddress q"
  using assms rest_starts [of m] by (cases s; auto simp: sendMsg_def)+

section \<open>Delivery\<close>

lemma master_hears:
  assumes "on_bus n" and "sn_master n = Some m" and "length (uidOf n) = 8" and "wf_msg msg"
    and "\<And>q. heard u msg (uidOf n) (sn_txQueue n) q \<Longrightarrow>
      \<exists>m'. masterPacketReceived (Some (msgType msg)) (msgBytes msg) (m\<lparr>m_world := (m_world m)\<lparr>mw_tx := q\<rparr>\<rparr>) = Some (Inr m') \<and>
        list_all answer (tq_txMsg (mw_tx (m_world m'))) \<and> tq_ownAddress (mw_tx (m_world m')) = tq_ownAddress q \<and> P m'"
  shows "\<exists>n' m'. nodeReceive u (frameOf msg) n = Some (Inr n') \<and> on_bus (onWire n') \<and> sn_master n' = Some m' \<and>
    ident n' = (uidOf n, addrAfter msg (uidOf n) (sn_txQueue n), dynOf n) \<and>
    framesOf n' = map encodePacket (tq_sent (mw_tx (m_world m'))) \<and> P m'"
proof -
  have n: "tq_sent (sn_txQueue n) = []" "list_all answer (tq_txMsg (sn_txQueue n))"
    using assms(1) by (simp_all add: on_bus_def node_ok_def)
  obtain c1 where c1: "rxCommand u (msgType msg) (msgBytes msg) (sn_ptc n) = Inr c1" "pc_uniqueId c1 = uidOf n"
    "heard u msg (uidOf n) (sn_txQueue n) (pc_tx c1)"
    using dispatch_heard [OF assms(4) n assms(3)] by blast
  obtain m' where m': "masterPacketReceived (Some (msgType msg)) (msgBytes msg) (m\<lparr>m_world := (m_world m)\<lparr>mw_tx := pc_tx c1\<rparr>\<rparr>) = Some (Inr m')"
    "list_all answer (tq_txMsg (mw_tx (m_world m')))" "tq_ownAddress (mw_tx (m_world m')) = tq_ownAddress (pc_tx c1)" "P m'"
    using assms(5) [OF c1(3)] by blast
  from node_hears_master [OF assms(1,2) msg_facts [OF assms(4)] c1(1) m'(1)]
  show ?thesis using c1 m'(2-4) by (auto simp: on_bus_def heard_def clientAddress_def ident_def)
qed

lemma heard_ident: "clientHeard u msg n n' \<Longrightarrow> ident n' = (uidOf n, addrAfter msg (uidOf n) (sn_txQueue n), dynOf n)"
  by (simp add: clientHeard_def ident_def)

lemma clients_silent:
  assumes "list_all2 (clientHeard u msg) ns ns'" and "\<And>a. msg \<noteq> Msg_Grant a" and "msg \<noteq> Msg_Discovery"
  shows "concat (map framesOf ns') = []"
proof -
  have silent: "framesOf n' = []" if "clientHeard u msg n n'" for n n'
    using that assms(2,3) by (cases msg) (auto simp: clientHeard_def)
  show ?thesis using assms(1) by (induction rule: list_all2_induct) (auto dest: silent)
qed

lemma deliver_parts:
  assumes "net_ok s m net" and "wf_msg msg" and "nodeReceive u (frameOf msg) (bn_master net) = Some (Inr n')"
    and "on_bus (onWire n')" "sn_master n' = Some m'" "at_rest s' m'"
    and "ident n' = (uidOf (bn_master net), addrAfter msg (uidOf (bn_master net)) (sn_txQueue (bn_master net)), dynOf (bn_master net))"
    and "starts (m_world m') \<le> (if s' = st_startMaster then 1 else 0)"
  shows "\<exists>ns net'. netDeliver u (frameOf msg) net = Some (Inr net') \<and> list_all2 (clientHeard u msg) (bn_clients net) ns \<and>
    bn_wire net' = framesOf n' @ concat (map framesOf ns) \<and>
    map ident (bn_nodes net') = map (\<lambda>n. (uidOf n, addrAfter msg (uidOf n) (sn_txQueue n), dynOf n)) (bn_nodes net) \<and>
    addrOf (bn_master net') = addrOf n' \<and>
    (booked (m_world m') (bn_nodes net') \<longrightarrow>
     conv s' (m_world m') (addrOf n') (bn_nodes net') (bn_wire net') \<longrightarrow> net_ok s' m' net')"
proof -
  have net: "list_all (\<lambda>n. sn_master n = None) (bn_clients net)" "list_all on_bus (bn_clients net)"
    "\<forall>n \<in> set (bn_clients net). length (uidOf n) = 8"
    using assms(1) by (auto simp: net_ok_def bn_nodes_def booked_def compatible_def)
  obtain ns where ns: "hearAll u (frameOf msg) (bn_clients net) = Some (Inr (map onWire ns, concat (map framesOf ns)))"
    "list_all2 (clientHeard u msg) (bn_clients net) ns"
    using clients_hear [OF net(2,1,3) assms(2)] by blast
  let ?net = "\<lparr>bn_master = onWire n', bn_clients = map onWire ns, bn_wire = framesOf n' @ concat (map framesOf ns)\<rparr>"
  have "netDeliver u (frameOf msg) net = Some (Inr ?net)"
    using assms(3) ns(1) by (simp add: netDeliver_def bn_nodes_def)
  moreover have ids: "map ident ns = map (\<lambda>n. (uidOf n, addrAfter msg (uidOf n) (sn_txQueue n), dynOf n)) (bn_clients net)"
    using ns(2) by (induction rule: list_all2_induct) (simp_all add: heard_ident)
  have wired: "map ident (map onWire ns) = map ident ns" by (simp add: ident_def)
  have "list_all on_bus (map onWire ns) \<and> list_all (\<lambda>n. sn_master n = None) (map onWire ns)"
    using ns(2) by (induction rule: list_all2_induct) (simp_all add: clientHeard_def)
  moreover have "ident (onWire n') = ident n'" by (simp add: ident_def)
  ultimately show ?thesis using ns(2) assms(4-8) ids wired
    by (intro exI [of _ ns] exI [of _ ?net]) (simp add: bn_nodes_def net_ok_def)
qed

lemma net_ok_parts:
  assumes "net_ok s m net"
  shows "on_bus (bn_master net)" "sn_master (bn_master net) = Some m" "length (uidOf (bn_master net)) = 8"
    "at_rest s m" "booked (m_world m) (bn_nodes net)" "starts (m_world m) \<le> (if s = st_startMaster then 1 else 0)"
    "conv s (m_world m) (addrOf (bn_master net)) (bn_nodes net) (bn_wire net)"
  using assms by (simp_all add: net_ok_def bn_nodes_def booked_def compatible_def)

lemma at_rest_tx: "at_rest s m \<Longrightarrow> at_rest s (m\<lparr>m_world := (m_world m)\<lparr>mw_tx := q\<rparr>\<rparr>)"
  by (rule at_rest_world) simp_all

lemma keeps_tx [simp]: "keeps A (w\<lparr>mw_tx := q\<rparr>) w' = keeps A w w'" "starts (w\<lparr>mw_tx := q\<rparr>) = starts w" "rows (w\<lparr>mw_tx := q\<rparr>) = rows w"
  by (simp_all add: keeps_def rows_def starts_def inFlight_def currentAction_def)

text \<open>The message makes the master look for its next action.\<close>

lemma deliver_settled:
  assumes "net_ok s m net" and "wf_msg msg" and "\<And>a. msg \<noteq> Msg_Grant a" and "msg \<noteq> Msg_Discovery"
    and "\<forall>n \<in> set (bn_nodes net). addrAfter msg (uidOf n) (sn_txQueue n) = addrOf n"
    and "\<And>q. \<exists>m' s'. masterPacketReceived (Some (msgType msg)) (msgBytes msg) (m\<lparr>m_world := (m_world m)\<lparr>mw_tx := q\<rparr>\<rparr>) = Some (Inr m') \<and>
      at_rest s' m' \<and> speaks s' (m_world m') q \<and> keeps {} (m_world m) (m_world m') \<and> starts (m_world m') = 0"
  shows "\<exists>net'. netDeliver u (frameOf msg) net = Some (Inr net') \<and> net_inv net'"
proof -
  note net = net_ok_parts [OF assms(1)]
  let ?own = "addrOf (bn_master net)"
  define P where "P = (\<lambda>m'. \<exists>s'. at_rest s' m' \<and> keeps {} (m_world m) (m_world m') \<and> starts (m_world m') = 0 \<and>
    (\<forall>ns. conv s' (m_world m') ?own ns (map encodePacket (tq_sent (mw_tx (m_world m'))))))"
  have "\<exists>n' m'. nodeReceive u (frameOf msg) (bn_master net) = Some (Inr n') \<and> on_bus (onWire n') \<and> sn_master n' = Some m' \<and>
      ident n' = (uidOf (bn_master net), addrAfter msg (uidOf (bn_master net)) (sn_txQueue (bn_master net)), dynOf (bn_master net)) \<and>
      framesOf n' = map encodePacket (tq_sent (mw_tx (m_world m'))) \<and> P m'"
  proof (rule master_hears [OF net(1-3) assms(2)])
    fix q assume q: "heard u msg (uidOf (bn_master net)) (sn_txQueue (bn_master net)) q"
    then have sent: "tq_sent q = []" "list_all answer (tq_txMsg q)" "clientAddress q = ?own"
      using assms(3-5) by (cases msg; auto simp: heard_def bn_nodes_def)+
    obtain m' s' where m': "masterPacketReceived (Some (msgType msg)) (msgBytes msg) (m\<lparr>m_world := (m_world m)\<lparr>mw_tx := q\<rparr>\<rparr>) = Some (Inr m')"
      "at_rest s' m'" "speaks s' (m_world m') q" "keeps {} (m_world m) (m_world m')" "starts (m_world m') = 0"
      using assms(6) [of q] by blast
    note sp = speaks_conv [OF m'(2,3) sent(1,2) m'(5)]
    show "\<exists>m'. masterPacketReceived (Some (msgType msg)) (msgBytes msg) (m\<lparr>m_world := (m_world m)\<lparr>mw_tx := q\<rparr>\<rparr>) = Some (Inr m') \<and>
        list_all answer (tq_txMsg (mw_tx (m_world m'))) \<and> tq_ownAddress (mw_tx (m_world m')) = tq_ownAddress q \<and> P m'"
      using m' sp(2,3) sp(1) [unfolded sent(3)] unfolding P_def by blast
  qed
  then obtain n' m' s' where n': "nodeReceive u (frameOf msg) (bn_master net) = Some (Inr n')" "on_bus (onWire n')"
    "sn_master n' = Some m'" "at_rest s' m'"
    "ident n' = (uidOf (bn_master net), addrAfter msg (uidOf (bn_master net)) (sn_txQueue (bn_master net)), dynOf (bn_master net))"
    "framesOf n' = map encodePacket (tq_sent (mw_tx (m_world m')))" "keeps {} (m_world m) (m_world m')" "starts (m_world m') = 0"
    "\<And>ns. conv s' (m_world m') ?own ns (map encodePacket (tq_sent (mw_tx (m_world m'))))"
    unfolding P_def by blast
  obtain ns net' where r: "netDeliver u (frameOf msg) net = Some (Inr net')" "list_all2 (clientHeard u msg) (bn_clients net) ns"
    "bn_wire net' = framesOf n' @ concat (map framesOf ns)"
    "map ident (bn_nodes net') = map (\<lambda>n. (uidOf n, addrAfter msg (uidOf n) (sn_txQueue n), dynOf n)) (bn_nodes net)"
    "booked (m_world m') (bn_nodes net') \<longrightarrow>
     conv s' (m_world m') (addrOf n') (bn_nodes net') (bn_wire net') \<longrightarrow> net_ok s' m' net'"
    using deliver_parts [OF assms(1,2) n'(1-5)] n'(8) by auto
  have ids: "map ident (bn_nodes net') = map ident (bn_nodes net)" unfolding r(4) using assms(5) by (simp add: ident_def)
  then have "booked (m_world m') (bn_nodes net')" using booked_keeps [OF net(5) _ n'(7)] by simp
  moreover have "addrOf n' = ?own" using n'(5) assms(5) by (simp add: ident_def bn_nodes_def)
  moreover have "bn_wire net' = framesOf n'" using r(3) clients_silent [OF r(2) assms(3,4)] by simp
  ultimately show ?thesis using r(1,5) n'(6,9) by (auto simp: net_inv_def)
qed

lemma deliver_started:
  assumes "net_ok st_startMaster m net"
  shows "\<exists>net'. netDeliver u (frameOf Msg_Started) net = Some (Inr net') \<and> net_inv net'"
proof (rule deliver_settled [OF assms])
  note net = net_ok_parts [OF assms]
  show "\<forall>n \<in> set (bn_nodes net). addrAfter Msg_Started (uidOf n) (sn_txQueue n) = addrOf n" using net(7) by auto
  fix q
  show "\<exists>m' s'. masterPacketReceived (Some (msgType Msg_Started)) (msgBytes Msg_Started) (m\<lparr>m_world := (m_world m)\<lparr>mw_tx := q\<rparr>\<rparr>) = Some (Inr m') \<and>
      at_rest s' m' \<and> speaks s' (m_world m') q \<and> keeps {} (m_world m) (m_world m') \<and> starts (m_world m') = 0"
    using hear_started [OF at_rest_tx [OF net(4)], of startedMsg q] net(6) by force
qed simp_all

lemma deliver_answer:
  assumes "net_ok st_waitClientPacketDone m net" and "answer p"
  shows "\<exists>net'. netDeliver u (frameOf (Msg_Answer p)) net = Some (Inr net') \<and> net_inv net'"
proof (rule deliver_settled [OF assms(1)])
  note net = net_ok_parts [OF assms(1)]
  fix q
  have "msgType (Msg_Answer p) \<in> {send_packet, mac_update, return_token}" using assms(2) by (auto simp: answer_def)
  from hear_answer [OF at_rest_tx [OF net(4)] this, of p q]
  show "\<exists>m' s'. masterPacketReceived (Some (msgType (Msg_Answer p))) (msgBytes (Msg_Answer p)) (m\<lparr>m_world := (m_world m)\<lparr>mw_tx := q\<rparr>\<rparr>) = Some (Inr m') \<and>
      at_rest s' m' \<and> speaks s' (m_world m') q \<and> keeps {} (m_world m) (m_world m') \<and> starts (m_world m') = 0"
    using net(6) by (fastforce simp: settled_def keeps_def)
qed (simp_all add: assms(2))

text \<open>A token is answered by the node it is for, and by no other.\<close>

lemma deliver_grant:
  assumes "net_ok st_sendingToken m net" and "a = ac_address (currentAction (m_world m))"
  shows "\<exists>net'. netDeliver u (frameOf (Msg_Grant a)) net = Some (Inr net') \<and> net_inv net'"
proof -
  let ?msg = "Msg_Grant a" and ?own = "addrOf (bn_master net)"
  note net = net_ok_parts [OF assms(1)]
  have own: "?own \<noteq> a" and wf: "wf_msg ?msg" using net(7) assms(2) by auto
  define P where "P = (\<lambda>m'. at_rest st_waitClientPacketDone m' \<and> tq_sent (mw_tx (m_world m')) = [] \<and>
    currentAction (m_world m') = currentAction (m_world m) \<and> keeps {} (m_world m) (m_world m'))"
  have "\<exists>n' m'. nodeReceive u (frameOf ?msg) (bn_master net) = Some (Inr n') \<and> on_bus (onWire n') \<and> sn_master n' = Some m' \<and>
      ident n' = (uidOf (bn_master net), addrAfter ?msg (uidOf (bn_master net)) (sn_txQueue (bn_master net)), dynOf (bn_master net)) \<and>
      framesOf n' = map encodePacket (tq_sent (mw_tx (m_world m'))) \<and> P m'"
  proof (rule master_hears [OF net(1-3)])
    fix q assume "heard u ?msg (uidOf (bn_master net)) (sn_txQueue (bn_master net)) q"
    then have q: "tq_sent q = []" "list_all answer (tq_txMsg q)" using own by (simp_all add: heard_def)
    show "\<exists>m'. masterPacketReceived (Some (msgType ?msg)) (msgBytes ?msg) (m\<lparr>m_world := (m_world m)\<lparr>mw_tx := q\<rparr>\<rparr>) = Some (Inr m') \<and>
        list_all answer (tq_txMsg (mw_tx (m_world m'))) \<and> tq_ownAddress (mw_tx (m_world m')) = tq_ownAddress q \<and> P m'"
      using hear_grant [OF at_rest_tx [OF net(4)], of "msgBytes ?msg" q] q by (auto simp: P_def)
  qed simp
  then obtain n' m' where n': "nodeReceive u (frameOf ?msg) (bn_master net) = Some (Inr n')" "on_bus (onWire n')"
    "sn_master n' = Some m'" "at_rest st_waitClientPacketDone m'"
    "ident n' = (uidOf (bn_master net), addrAfter ?msg (uidOf (bn_master net)) (sn_txQueue (bn_master net)), dynOf (bn_master net))"
    "framesOf n' = []" "currentAction (m_world m') = currentAction (m_world m)" "keeps {} (m_world m) (m_world m')"
    unfolding P_def by auto
  have starts: "starts (m_world m') \<le> (if st_waitClientPacketDone = st_startMaster then 1 else 0)"
    using n'(8) net(6) by (simp add: keeps_def)
  obtain ns net' where r: "netDeliver u (frameOf ?msg) net = Some (Inr net')" "list_all2 (clientHeard u ?msg) (bn_clients net) ns"
    "bn_wire net' = framesOf n' @ concat (map framesOf ns)"
    "map ident (bn_nodes net') = map (\<lambda>n. (uidOf n, addrAfter ?msg (uidOf n) (sn_txQueue n), dynOf n)) (bn_nodes net)"
    "booked (m_world m') (bn_nodes net') \<longrightarrow>
     conv st_waitClientPacketDone (m_world m') (addrOf n') (bn_nodes net') (bn_wire net') \<longrightarrow> net_ok st_waitClientPacketDone m' net'"
    using deliver_parts [OF assms(1) wf n'(1-5) starts] by blast
  have ids: "map ident (bn_nodes net') = map ident (bn_nodes net)" unfolding r(4) by (simp add: ident_def)
  have wire: "bn_wire net' = concat (map framesOf ns)" using r(3) n'(6) by simp
  have few: "length (filter (\<lambda>n. addrOf n = a) (bn_clients net)) \<le> 1"
    using addresses_unique [OF net(4,5), of a] by (simp add: bn_nodes_def split: if_splits)
  have ear: "if addrOf n = a then \<exists>p. (\<exists>d. answer d \<and> p = frameOf (Msg_Answer d)) \<and> framesOf n2 = [p] else framesOf n2 = []"
    if "clientHeard u ?msg n n2" for n n2 using that by (auto simp: clientHeard_def; blast)
  have "conv st_waitClientPacketDone (m_world m') (addrOf n') (bn_nodes net') (bn_wire net')"
  proof -
    have "(\<forall>n \<in> set (bn_nodes net). addrOf n \<noteq> a) \<and> bn_wire net' = [] \<or>
        (\<exists>d. answer d \<and> bn_wire net' = [frameOf (Msg_Answer d)])"
      using one_speaker [where out = framesOf, OF r(2) few ear] own unfolding wire by (auto simp: filter_empty_conv bn_nodes_def)
    moreover have "addrOf n \<in> addrOf ` set (bn_nodes net)" if "n \<in> set (bn_nodes net')" for n
      using that arg_cong [OF ids, of "\<lambda>is. (fst \<circ> snd) ` set is"] by (auto simp: ident_def image_image)
    ultimately show ?thesis using n'(7) assms(2) by fastforce
  qed
  then show ?thesis using r(1,5) booked_keeps [OF net(5) ids n'(8)] by (auto simp: net_inv_def)
qed

text \<open>Messages that the master hears without leaving its state.\<close>

lemma deliver_ignored:
  assumes "net_ok s m net" and "wf_msg msg" and "msgType msg \<in> {address_discovery, address_reply}" and "s \<noteq> st_startMaster"
  shows "\<exists>n' m' ns net'. netDeliver u (frameOf msg) net = Some (Inr net') \<and>
    bn_wire net' = framesOf n' @ concat (map framesOf ns) \<and> list_all2 (clientHeard u msg) (bn_clients net) ns \<and>
    (\<exists>out. says u msg (uidOf (bn_master net)) (sn_txQueue (bn_master net)) out \<and> framesOf n' = map encodePacket out) \<and>
    map ident (bn_nodes net') = map (\<lambda>n. (uidOf n, addrAfter msg (uidOf n) (sn_txQueue n), dynOf n)) (bn_nodes net) \<and>
    rows (m_world m') = rows (m_world m) \<and>
    (booked (m_world m') (bn_nodes net') \<longrightarrow>
     conv s (m_world m') (addrOf n') (bn_nodes net') (bn_wire net') \<longrightarrow> net_ok s m' net')"
proof -
  note net = net_ok_parts [OF assms(1)]
  define P where "P = (\<lambda>m'. at_rest s m' \<and> rows (m_world m') = rows (m_world m) \<and> starts (m_world m') = starts (m_world m) \<and>
    says u msg (uidOf (bn_master net)) (sn_txQueue (bn_master net)) (tq_sent (mw_tx (m_world m'))))"
  have "\<exists>n' m'. nodeReceive u (frameOf msg) (bn_master net) = Some (Inr n') \<and> on_bus (onWire n') \<and> sn_master n' = Some m' \<and>
      ident n' = (uidOf (bn_master net), addrAfter msg (uidOf (bn_master net)) (sn_txQueue (bn_master net)), dynOf (bn_master net)) \<and>
      framesOf n' = map encodePacket (tq_sent (mw_tx (m_world m'))) \<and> P m'"
  proof (rule master_hears [OF net(1-3) assms(2)])
    fix q assume q: "heard u msg (uidOf (bn_master net)) (sn_txQueue (bn_master net)) q"
    show "\<exists>m'. masterPacketReceived (Some (msgType msg)) (msgBytes msg) (m\<lparr>m_world := (m_world m)\<lparr>mw_tx := q\<rparr>\<rparr>) = Some (Inr m') \<and>
        list_all answer (tq_txMsg (mw_tx (m_world m'))) \<and> tq_ownAddress (mw_tx (m_world m')) = tq_ownAddress q \<and> P m'"
      using assms(3) q at_rest_tx [OF net(4), of q] by (auto simp: masterPacketReceived_def P_def heard_def)
  qed
  then obtain n' m' where n': "nodeReceive u (frameOf msg) (bn_master net) = Some (Inr n')" "on_bus (onWire n')"
    "sn_master n' = Some m'" "at_rest s m'"
    "ident n' = (uidOf (bn_master net), addrAfter msg (uidOf (bn_master net)) (sn_txQueue (bn_master net)), dynOf (bn_master net))"
    "framesOf n' = map encodePacket (tq_sent (mw_tx (m_world m')))" "rows (m_world m') = rows (m_world m)"
    "starts (m_world m') = starts (m_world m)"
    "says u msg (uidOf (bn_master net)) (sn_txQueue (bn_master net)) (tq_sent (mw_tx (m_world m')))"
    unfolding P_def by blast
  have "starts (m_world m') \<le> (if s = st_startMaster then 1 else 0)" using n'(8) net(6) by simp
  from deliver_parts [OF assms(1,2) n'(1-5) this] show ?thesis using n'(6,7,9) by blast
qed

lemma deliver_discovery:
  assumes "net_ok st_queryAddress m net" and "length (snd u) = 4"
  shows "\<exists>net'. netDeliver u (frameOf Msg_Discovery) net = Some (Inr net') \<and> net_inv net'"
proof -
  let ?msg = "Msg_Discovery" and ?M = "bn_master net"
  note net = net_ok_parts [OF assms(1)]
  have comp: "compatible (bn_nodes net)" using net(5) by (simp add: booked_def)
  have pre: "wf_msg ?msg" "msgType ?msg \<in> {address_discovery, address_reply}" "st_queryAddress \<noteq> st_startMaster" by simp_all
  obtain n' m' ns net' where r: "netDeliver u (frameOf ?msg) net = Some (Inr net')"
    "bn_wire net' = framesOf n' @ concat (map framesOf ns)" "list_all2 (clientHeard u ?msg) (bn_clients net) ns"
    "\<exists>out. says u ?msg (uidOf ?M) (sn_txQueue ?M) out \<and> framesOf n' = map encodePacket out"
    "map ident (bn_nodes net') = map (\<lambda>n. (uidOf n, addrAfter ?msg (uidOf n) (sn_txQueue n), dynOf n)) (bn_nodes net)"
    "rows (m_world m') = rows (m_world m)"
    "booked (m_world m') (bn_nodes net') \<longrightarrow>
     conv st_queryAddress (m_world m') (addrOf n') (bn_nodes net') (bn_wire net') \<longrightarrow> net_ok st_queryAddress m' net'"
    using deliver_ignored [OF assms(1) pre, of u] by blast
  have ids: "map ident (bn_nodes net') = map ident (bn_nodes net)" unfolding r(5) by (simp add: ident_def)
  have books: "booked (m_world m') (bn_nodes net')"
    using net(5) r(6) ids unfolding booked_ident compatible_ident by simp
  define R where "R = (\<lambda>n n2. \<exists>out. says u ?msg (uidOf n) (sn_txQueue n) out \<and> framesOf n2 = map encodePacket out)"
  have "list_all2 R (bn_clients net) ns"
    using r(3) by (rule list_all2_mono) (auto simp: R_def clientHeard_def)
  then have all: "list_all2 R (bn_nodes net) (n' # ns)" using r(4) by (simp add: R_def bn_nodes_def)
  have few: "length (filter (\<lambda>n. addrOf n = null_addr) (bn_nodes net)) \<le> 1" using comp by (simp add: compatible_def)
  have ear: "if addrOf n = null_addr then \<exists>p. p = frameOf (Msg_Request u (uidOf n)) \<and> framesOf n2 = [p] else framesOf n2 = []"
    if "R n n2" for n n2 using that by (auto simp: R_def)
  have wire: "bn_wire net' = concat (map framesOf (n' # ns))" using r(2) by simp
  have "bn_wire net' = [] \<or>
      (\<exists>n \<in> set (bn_nodes net). addrOf n = null_addr \<and> bn_wire net' = [frameOf (Msg_Request u (uidOf n))])"
    using one_speaker [where out = framesOf, OF all few ear] unfolding wire by blast
  then consider "bn_wire net' = []"
    | n where "n \<in> set (bn_nodes net)" "addrOf n = null_addr" "bn_wire net' = [frameOf (Msg_Request u (uidOf n))]" by blast
  then have "conv st_queryAddress (m_world m') (addrOf n') (bn_nodes net') (bn_wire net')"
  proof cases
    case (2 n)
    have "dynOf n2" if "n2 \<in> set (bn_nodes net')" "uidOf n2 = uidOf n" for n2
    proof -
      have "ident n2 \<in> set (map ident (bn_nodes net))" using that(1) unfolding ids [symmetric] by simp
      then obtain n3 where n3: "n3 \<in> set (bn_nodes net)" "ident n2 = ident n3" by auto
      then have "uidOf n3 = uidOf n" using that(2) by (simp add: ident_def)
      then have "n3 = n" using n3(1) 2(1) comp by (auto simp: compatible_def distinct_map dest: inj_onD)
      then show ?thesis using n3 2 comp by (auto simp: ident_def compatible_def)
    qed
    moreover have "length (uidOf n) = 8" using comp 2(1) by (simp add: compatible_def)
    moreover have "\<forall>a. (a, uidOf n, False) \<notin> rows (m_world m')" using net(5) 2(1) r(6) by (simp add: booked_def)
    ultimately have "fresh_uid (m_world m') (bn_nodes net') (uidOf n)" by (simp add: fresh_uid_def)
    then show ?thesis using 2(3) assms(2) unfolding conv.simps by blast
  qed simp
  then show ?thesis using r(1,7) books by (auto simp: net_inv_def)
qed

lemma length_filter_imp: "(\<And>x. x \<in> set xs \<Longrightarrow> P x \<Longrightarrow> Q x) \<Longrightarrow> length (filter P xs) \<le> length (filter Q xs)"
proof (induction xs)
  case (Cons x xs)
  then have "length (filter P xs) \<le> length (filter Q xs)" by simp
  then show ?case using Cons.prems [of x] by auto
qed simp

lemma booked_reply:
  assumes "at_rest s m" and "booked (m_world m) ns" and "fresh_uid (m_world m) ns uid" and "(b, uid, True) \<in> rows (m_world m)"
    and "map ident ns' = map (\<lambda>n. (uidOf n, if uid = uidOf n then b else addrOf n, dynOf n)) ns"
  shows "booked (m_world m) ns'"
proof -
  let ?f = "\<lambda>n. (uidOf n, if uid = uidOf n then b else addrOf n, dynOf n)"
  have comp: "compatible ns" using assms(2) by (simp add: booked_def)
  have fresh: "uid \<noteq> uidOf n" if "n \<in> set ns" "\<not> dynOf n" for n using assms(3) that by (auto simp: fresh_uid_def)
  have b: "b \<noteq> null_addr" using rows_dynamic [OF assms(1,4)] by simp
  have "map (fst \<circ> snd) (filter (\<lambda>i. \<not> snd (snd i)) (map ?f ns)) = map addrOf (filter (\<lambda>n. \<not> dynOf n) ns)"
    using fresh by (simp add: filter_map comp_def)
  moreover have "length (filter (\<lambda>i. fst (snd i) = null_addr) (map ?f ns)) \<le> length (filter (\<lambda>n. addrOf n = null_addr) ns)"
    using b by (simp add: filter_map comp_def) (rule length_filter_imp, simp split: if_splits)
  ultimately have "compatible ns'" using comp fresh unfolding compatible_ident [of ns'] assms(5)
    by (simp add: compatible_def comp_def Let_def)
  moreover have "\<forall>i \<in> set (map ?f ns). snd (snd i) \<and> fst (snd i) \<noteq> null_addr \<longrightarrow> (fst (snd i), fst i, True) \<in> rows (m_world m)"
    using assms(2,4) by (auto simp: booked_def)
  moreover have "\<forall>i \<in> set (map ?f ns). \<forall>a. (a, fst i, False) \<notin> rows (m_world m)"
    using assms(2) by (simp add: booked_def)
  ultimately show ?thesis unfolding booked_ident assms(5) by simp
qed

lemma deliver_reply:
  assumes "net_ok st_waitAddressReply m net" and "fresh_uid (m_world m) (bn_nodes net) uid" and "(b, uid, True) \<in> rows (m_world m)"
  shows "\<exists>net'. netDeliver u (frameOf (Msg_Reply b uid)) net = Some (Inr net') \<and> net_inv net'"
proof -
  let ?msg = "Msg_Reply b uid"
  note net = net_ok_parts [OF assms(1)]
  have pre: "wf_msg ?msg" "msgType ?msg \<in> {address_discovery, address_reply}" "st_waitAddressReply \<noteq> st_startMaster"
    using assms(2) by (simp_all add: fresh_uid_def)
  obtain n' m' ns net' where r: "netDeliver u (frameOf ?msg) net = Some (Inr net')"
    "bn_wire net' = framesOf n' @ concat (map framesOf ns)" "list_all2 (clientHeard u ?msg) (bn_clients net) ns"
    "\<exists>out. says u ?msg (uidOf (bn_master net)) (sn_txQueue (bn_master net)) out \<and> framesOf n' = map encodePacket out"
    "map ident (bn_nodes net') = map (\<lambda>n. (uidOf n, addrAfter ?msg (uidOf n) (sn_txQueue n), dynOf n)) (bn_nodes net)"
    "rows (m_world m') = rows (m_world m)"
    "booked (m_world m') (bn_nodes net') \<longrightarrow>
     conv st_waitAddressReply (m_world m') (addrOf n') (bn_nodes net') (bn_wire net') \<longrightarrow> net_ok st_waitAddressReply m' net'"
    using deliver_ignored [OF assms(1) pre, of u] by blast
  have "booked (m_world m) (bn_nodes net')" using booked_reply [OF net(4,5) assms(2,3)] r(5) by simp
  then have "booked (m_world m') (bn_nodes net')" using r(6) by (simp add: booked_def)
  moreover have "bn_wire net' = []" using r(2,4) clients_silent [OF r(3)] by simp
  ultimately show ?thesis using r(1,7) by (auto simp: net_inv_def)
qed

text \<open>A request is answered with the address of a row for its unique id, if there is one.\<close>

lemma request_rows:
  assumes "sched_ok w" and "uid = aq_m_uniqueId r" and "\<forall>a. (a, uid, False) \<notin> rows w" and "w' = receivedAddressRequest r w"
  shows "rows w \<subseteq> rows w'" and "\<And>a v. (a, v, False) \<in> rows w' \<Longrightarrow> (a, v, False) \<in> rows w" and "starts w' = starts w"
    and "mw_tx w' = mw_tx w \<or> (\<exists>a. (a, uid, True) \<in> rows w' \<and> mw_tx w' = sendMsg (replyMsg a uid) (mw_tx w))"
proof -
  have reply: "rows (sendAddressReply a u v) = rows v" "starts (sendAddressReply a u v) = starts v" for a u v
    by (simp_all add: sendAddressReply_def)
  have "rows w \<subseteq> rows w' \<and> (\<forall>a v. (a, v, False) \<in> rows w' \<longrightarrow> (a, v, False) \<in> rows w) \<and> starts w' = starts w \<and>
    (mw_tx w' = mw_tx w \<or> (\<exists>a. (a, uid, True) \<in> rows w' \<and> mw_tx w' = sendMsg (replyMsg a uid) (mw_tx w)))"
  proof (cases "findLine_uid uid (dh_table (mw_dh w))")
    case (Some i)
    let ?l = "dh_table (mw_dh w) ! i"
    have i: "i < length (dh_table (mw_dh w))" "al_uniqueId ?l = uid"
      using Some by (auto simp: findLine_uid_def dest: find_index_Some)
    then have row: "(al_address ?l, uid, al_isDynamic ?l) \<in> rows w" by (auto simp: rows_def)
    then have "al_isDynamic ?l" using assms(3) by (cases "al_isDynamic ?l") auto
    moreover have "w' = sendAddressReply (al_address ?l) uid w" using Some assms(2,4) by (simp add: receivedAddressRequest_eq)
    ultimately show ?thesis using row by (auto simp: reply master_sends)
  next
    case None
    show ?thesis
    proof (cases "dh_freeAddresses (mw_dh w) = []")
      case True
      then show ?thesis using None assms(2,4) by (simp add: receivedAddressRequest_eq)
    next
      case False
      let ?a = "last (dh_freeAddresses (mw_dh w))"
      have w': "w' = sendAddressReply ?a uid (assign r w)" using None False assms(2,4) by (simp add: receivedAddressRequest_eq)
      have "rows (assign r w) = insert (?a, uid, True) (rows w)"
        using assms(2) by (simp add: rows_def assign_def assignedLine_def mkAddressLineUid_def)
      moreover have "starts (assign r w) = starts w"
      proof -
        let ?w = "w\<lparr>mw_dh := (mw_dh w)\<lparr>dh_freeAddresses := butlast (dh_freeAddresses (mw_dh w)),
          dh_table := dh_table (mw_dh w) @ [assignedLine r w]\<rparr>\<rparr>"
        have "sched_ok ?w" "starts ?w = starts w"
          using assms(1) by (simp_all add: sched_ok_def starts_def inFlight_def currentAction_def)
        then show ?thesis using starts_postActionNow [of ?w "makeSendTokenAction ?a"]
          by (simp add: assign_def makeSendTokenAction_def mkAction_def)
      qed
      moreover have "mw_tx (assign r w) = mw_tx w" by (simp add: assign_def)
      ultimately show ?thesis by (auto simp: w' reply master_sends)
    qed
  qed
  then show "rows w \<subseteq> rows w'" and "\<And>a v. (a, v, False) \<in> rows w' \<Longrightarrow> (a, v, False) \<in> rows w" and "starts w' = starts w"
    and "mw_tx w' = mw_tx w \<or> (\<exists>a. (a, uid, True) \<in> rows w' \<and> mw_tx w' = sendMsg (replyMsg a uid) (mw_tx w))" by blast+
qed

lemma deliver_request:
  assumes "net_ok st_queryAddress m net" and "length (snd v) = 4" and "fresh_uid (m_world m) (bn_nodes net) uid"
  shows "\<exists>net'. netDeliver u (frameOf (Msg_Request v uid)) net = Some (Inr net') \<and> net_inv net'"
proof -
  let ?msg = "Msg_Request v uid" and ?M = "bn_master net"
  note net = net_ok_parts [OF assms(1)]
  have wf: "wf_msg ?msg" using assms(2,3) by (simp add: fresh_uid_def)
  have r: "sizeofHeader address_request \<le> length (msgBytes ?msg)" "aq_m_uniqueId (layout_AddressRequest (msgBytes ?msg)) = uid"
    using wf by (simp_all add: requestMsg_def layout_simps)
  have sched: "sched_ok (m_world m)" using net(4) by (simp add: at_rest_def rest_ok_def core_ok_def)
  have static: "\<forall>a. (a, uid, False) \<notin> rows (m_world m)" using assms(3) by (simp add: fresh_uid_def)
  define P where "P = (\<lambda>m'. at_rest st_waitAddressReply m' \<and> rows (m_world m) \<subseteq> rows (m_world m') \<and>
    (\<forall>a w. (a, w, False) \<in> rows (m_world m') \<longrightarrow> (a, w, False) \<in> rows (m_world m)) \<and> starts (m_world m') = 0 \<and>
    (tq_sent (mw_tx (m_world m')) = [] \<or>
     (\<exists>a. (a, uid, True) \<in> rows (m_world m') \<and> tq_sent (mw_tx (m_world m')) = [replyMsg a uid])))"
  have "\<exists>n' m'. nodeReceive u (frameOf ?msg) ?M = Some (Inr n') \<and> on_bus (onWire n') \<and> sn_master n' = Some m' \<and>
      ident n' = (uidOf ?M, addrAfter ?msg (uidOf ?M) (sn_txQueue ?M), dynOf ?M) \<and>
      framesOf n' = map encodePacket (tq_sent (mw_tx (m_world m'))) \<and> P m'"
  proof (rule master_hears [OF net(1-3) wf])
    fix q assume "heard u ?msg (uidOf ?M) (sn_txQueue ?M) q"
    then have q: "tq_sent q = []" "list_all answer (tq_txMsg q)" by (simp_all add: heard_def)
    let ?w = "(m_world m)\<lparr>mw_tx := q\<rparr>" and ?r = "layout_AddressRequest (msgBytes ?msg)"
    have ok: "sched_ok ?w" using sched by (simp add: sched_ok_def)
    have st: "\<forall>a. (a, uid, False) \<notin> rows ?w" using static by simp
    note eff = request_rows [OF ok r(2) [symmetric] st refl]
    obtain m' where m': "masterPacketReceived (Some (msgType ?msg)) (msgBytes ?msg) (m\<lparr>m_world := ?w\<rparr>) = Some (Inr m')"
      "at_rest st_waitAddressReply m'" "mw_tx (m_world m') = mw_tx (receivedAddressRequest ?r ?w)"
      "keeps {} (receivedAddressRequest ?r ?w) (m_world m')"
      using hear_request [OF at_rest_tx [OF net(4)] r(1), of q] by auto
    have "rows (m_world m') = rows (receivedAddressRequest ?r ?w)" "starts (m_world m') = 0"
      using m'(4) eff(3) net(6) by (auto simp: keeps_def)
    then have "P m'" using m'(2,3) eff q(1) unfolding P_def by (auto simp: sendMsg_def)
    moreover have "list_all answer (tq_txMsg (mw_tx (m_world m')))" "tq_ownAddress (mw_tx (m_world m')) = tq_ownAddress q"
      using eff(4) m'(3) q(2) by (auto simp: sendMsg_def)
    ultimately show "\<exists>m'. masterPacketReceived (Some (msgType ?msg)) (msgBytes ?msg) (m\<lparr>m_world := ?w\<rparr>) = Some (Inr m') \<and>
        list_all answer (tq_txMsg (mw_tx (m_world m'))) \<and> tq_ownAddress (mw_tx (m_world m')) = tq_ownAddress q \<and> P m'"
      using m'(1) by blast
  qed
  then obtain n' m' where n': "nodeReceive u (frameOf ?msg) ?M = Some (Inr n')" "on_bus (onWire n')"
    "sn_master n' = Some m'" "at_rest st_waitAddressReply m'"
    "ident n' = (uidOf ?M, addrAfter ?msg (uidOf ?M) (sn_txQueue ?M), dynOf ?M)"
    "framesOf n' = map encodePacket (tq_sent (mw_tx (m_world m')))" "P m'"
    unfolding P_def by blast
  have "starts (m_world m') \<le> (if st_waitAddressReply = st_startMaster then 1 else 0)" using n'(7) by (simp add: P_def)
  from deliver_parts [OF assms(1) wf n'(1-5) this]
  obtain ns net' where d: "netDeliver u (frameOf ?msg) net = Some (Inr net')" "list_all2 (clientHeard u ?msg) (bn_clients net) ns"
    "bn_wire net' = framesOf n' @ concat (map framesOf ns)"
    "map ident (bn_nodes net') = map (\<lambda>n. (uidOf n, addrAfter ?msg (uidOf n) (sn_txQueue n), dynOf n)) (bn_nodes net)"
    "booked (m_world m') (bn_nodes net') \<longrightarrow>
     conv st_waitAddressReply (m_world m') (addrOf n') (bn_nodes net') (bn_wire net') \<longrightarrow> net_ok st_waitAddressReply m' net'"
    by blast
  have ids: "map ident (bn_nodes net') = map ident (bn_nodes net)" unfolding d(4) by (simp add: ident_def)
  have "booked (m_world m') (bn_nodes net)" using net(5) n'(7) unfolding booked_def P_def by blast
  then have books: "booked (m_world m') (bn_nodes net')" using ids unfolding booked_ident compatible_ident by simp
  have "dynOf n" if "n \<in> set (bn_nodes net')" "uidOf n = uid" for n
  proof -
    have "ident n \<in> set (map ident (bn_nodes net))" using that(1) unfolding ids [symmetric] by simp
    then show ?thesis using that(2) assms(3) by (auto simp: ident_def fresh_uid_def)
  qed
  then have "fresh_uid (m_world m') (bn_nodes net') uid"
    using assms(3) n'(7) unfolding fresh_uid_def P_def by blast
  moreover have "bn_wire net' = framesOf n'" using d(3) clients_silent [OF d(2)] by simp
  moreover have "framesOf n' = [] \<or> (\<exists>a. (a, uid, True) \<in> rows (m_world m') \<and> framesOf n' = [frameOf (Msg_Reply a uid)])"
    using n'(6,7) unfolding P_def by auto
  ultimately have "conv st_waitAddressReply (m_world m') (addrOf n') (bn_nodes net') (bn_wire net')"
    unfolding conv.simps by metis
  then show ?thesis using d(1,5) books by (auto simp: net_inv_def)
qed

lemma deliver_ok:
  assumes "net_inv net" and "bn_wire net = [f]" and "length (snd u) = 4"
  shows "\<exists>net'. netDeliver u f net = Some (Inr net') \<and> net_inv net'"
proof -
  obtain s m where ok: "net_ok s m net" using assms(1) by (auto simp: net_inv_def)
  note conv = net_ok_parts(7) [OF ok]
  show ?thesis
  proof (cases s)
    case st_queryAddress
    then consider "f = frameOf Msg_Discovery"
      | v uid where "length (snd v) = 4" "fresh_uid (m_world m) (bn_nodes net) uid" "f = frameOf (Msg_Request v uid)"
      using conv assms(2) by auto
    then show ?thesis using ok st_queryAddress deliver_discovery deliver_request assms(3) by cases blast+
  next
    case st_waitAddressReply
    then obtain a uid where "fresh_uid (m_world m) (bn_nodes net) uid" "(a, uid, True) \<in> rows (m_world m)"
      "f = frameOf (Msg_Reply a uid)" using conv assms(2) by auto
    then show ?thesis using ok st_waitAddressReply deliver_reply by blast
  next
    case st_waitClientPacketDone
    then obtain p where "answer p" "f = frameOf (Msg_Answer p)" using conv assms(2) by auto
    then show ?thesis using ok st_waitClientPacketDone deliver_answer by blast
  next
    case st_sendingToken
    then have "f = frameOf (Msg_Grant (ac_address (currentAction (m_world m))))" using conv assms(2) by simp
    then show ?thesis using ok st_sendingToken deliver_grant by blast
  next
    case st_startMaster
    then have "f = frameOf Msg_Started" using conv assms(2) by simp
    then show ?thesis using ok st_startMaster deliver_started by blast
  next
    case st_idle
    then show ?thesis using conv assms(2) by simp
  qed
qed

section \<open>Timers and time\<close>

lemma fresh_uid_ident:
  "fresh_uid w ns uid \<longleftrightarrow> length uid = 8 \<and> (\<forall>i \<in> set (map ident ns). fst i = uid \<longrightarrow> snd (snd i)) \<and> (\<forall>a. (a, uid, False) \<notin> rows w)"
  by (simp add: fresh_uid_def ident_def)

lemma conv_ident:
  assumes "map ident ns' = map ident ns" and "currentAction w' = currentAction w" and "rows w' = rows w"
  shows "conv s w' own ns' wire = conv s w own ns wire"
proof -
  have all: "(\<forall>n \<in> set ns'. P (addrOf n) (dynOf n)) = (\<forall>n \<in> set ns. P (addrOf n) (dynOf n))" for P
  proof -
    have "(\<forall>n \<in> set xs. P (addrOf n) (dynOf n)) = (\<forall>i \<in> set (map ident xs). P (fst (snd i)) (snd (snd i)))" for xs
      by (simp add: ident_def)
    then show ?thesis using assms(1) by metis
  qed
  have "fresh_uid w' ns' = fresh_uid w ns" using assms unfolding fresh_uid_ident by (intro ext) simp
  then show ?thesis using assms(2,3) all [of "\<lambda>a d. d \<longrightarrow> a = null_addr"] all [of "\<lambda>a d. d \<longrightarrow> a \<noteq> ac_address (currentAction w)"]
    by (cases s) simp_all
qed

lemma quiet_conv: "conv s w own ns [] \<Longrightarrow> currentAction w' = currentAction w \<Longrightarrow> conv s w' own ns [] \<and> s \<notin> {st_startMaster, st_sendingToken}"
  by (cases s) auto

lemma master_timer:
  assumes "on_bus n" and "sn_master n = Some m" and "at_rest s m"
    and "\<And>b. \<exists>m'. timerFired i (m\<lparr>m_world := (m_world m)\<lparr>mw_tx := sn_txQueue n, mw_rxBusy := b\<rparr>\<rparr>) = Some (Inr m') \<and>
      list_all answer (tq_txMsg (mw_tx (m_world m'))) \<and> tq_ownAddress (mw_tx (m_world m')) = tq_ownAddress (sn_txQueue n) \<and> P m'"
  shows "\<exists>n' m'. nodeTimer i n = Some (Inr n') \<and> on_bus (onWire n') \<and> sn_master n' = Some m' \<and> ident n' = ident n \<and>
    framesOf n' = map encodePacket (tq_sent (mw_tx (m_world m'))) \<and> P m'"
proof -
  have n: "node_ok n" "framesOf n = []" "reachable m" "mb_hasByteIf (sn_adapter n)"
    using assms(1,2) by (simp_all add: on_bus_def node_ok_def)
  have "\<not> rxInProgress (mb_codec (sn_adapter n))" using n(1) by (simp add: node_ok_def codec_idle_def rxInProgress_def)
  then have poll: "packetRxInProgress (sn_now n) (sn_adapter n) = (False, sn_adapter n)"
    by (simp add: packetRxInProgress_def checkTimeout_def)
  define b where "b = (if pollsReceiver i m then False else mw_rxBusy (m_world m))"
  let ?m1 = "m\<lparr>m_world := (m_world m)\<lparr>mw_tx := sn_txQueue n, mw_rxBusy := b\<rparr>\<rparr>"
  obtain m' where m': "timerFired i ?m1 = Some (Inr m')" "list_all answer (tq_txMsg (mw_tx (m_world m')))"
    "tq_ownAddress (mw_tx (m_world m')) = tq_ownAddress (sn_txQueue n)" "P m'"
    using assms(4) by blast
  have "reachable ?m1" using reachable_busy [OF reachable_tx [OF n(3)], of b "sn_txQueue n"] by simp
  then have "reachable m'" using reachable.step [of ?m1 "Timer_Fires i"] m'(1) by simp
  define n1 where "n1 = n\<lparr>sn_ptc := (sn_ptc n)\<lparr>pc_master := Some m', pc_tx := mw_tx (m_world m')\<rparr>\<rparr>"
  define n2 where "n2 = n1\<lparr>sn_adapter := (sn_adapter n1)\<lparr>mb_txBytes := mb_txBytes (sn_adapter n1) @ map encodePacket (tq_sent (sn_txQueue n1))\<rparr>,
        sn_ptc := (sn_ptc n1)\<lparr>pc_tx := (sn_txQueue n1)\<lparr>tq_sent := []\<rparr>\<rparr>,
        sn_stopped := sn_stopped n1 \<or> 0 < pc_endedCalls (sn_ptc n1)\<rparr>"
  have fl: "flushTx n1 = Inr n2" unfolding n2_def using n(4) by (intro flushTx_ok) (simp add: n1_def)
  have "nodeTimer i n = Some (flushTx n1)"
  proof (cases "pollsReceiver i m")
    case True
    then have "b = False" by (simp add: b_def)
    then show ?thesis using m'(1) assms(2) True poll by (simp add: nodeTimer_def flushed_def n1_def)
  next
    case False
    then have "b = mw_rxBusy (m_world m)" by (simp add: b_def)
    then show ?thesis using m'(1) assms(2) False by (simp add: nodeTimer_def flushed_def n1_def)
  qed
  then have "nodeTimer i n = Some (Inr n2)" using fl by simp
  moreover have "on_bus (onWire n2)" using n(1) m'(2) \<open>reachable m'\<close> by (simp add: n1_def n2_def on_bus_def node_ok_def onWire_def)
  moreover have "sn_master n2 = Some m'" "ident n2 = ident n" "framesOf n2 = map encodePacket (tq_sent (mw_tx (m_world m')))"
    using m'(3) n(2) by (simp_all add: n1_def n2_def ident_def clientAddress_def)
  ultimately show ?thesis using m'(4) by blast
qed

lemma net_timer_ok:
  assumes "net_inv net" and "bn_wire net = []"
  shows "\<exists>net'. netTimer i net = Some (Inr net') \<and> net_inv net'"
proof -
  let ?M = "bn_master net" and ?w = "\<lambda>m. m_world m"
  obtain s m where ok: "net_ok s m net" using assms(1) by (auto simp: net_inv_def)
  note net = net_ok_parts [OF ok]
  have quiet: "conv s (?w m) (addrOf ?M) (bn_nodes net) []" using net(7) assms(2) by simp
  have s: "s \<notin> {st_startMaster, st_sendingToken}" using quiet_conv [OF quiet refl] by simp
  have q: "tq_sent (sn_txQueue ?M) = []" "list_all answer (tq_txMsg (sn_txQueue ?M))"
    using net(1) by (simp_all add: on_bus_def node_ok_def)
  define A where "A = (if s = st_waitClientPacketDone then {ac_address (currentAction (?w m))} else {})"
  define P where "P = (\<lambda>m'. \<exists>s'. at_rest s' m' \<and> keeps A (?w m) (?w m') \<and> starts (?w m') = 0 \<and>
    conv s' (?w m') (addrOf ?M) (bn_nodes net) (map encodePacket (tq_sent (mw_tx (?w m')))))"
  have "\<exists>n' m'. nodeTimer i ?M = Some (Inr n') \<and> on_bus (onWire n') \<and> sn_master n' = Some m' \<and> ident n' = ident ?M \<and>
    framesOf n' = map encodePacket (tq_sent (mw_tx (?w m'))) \<and> P m'"
  proof (rule master_timer [OF net(1,2,4)])
    fix b
    define m1 where "m1 = m\<lparr>m_world := (m_world m)\<lparr>mw_tx := sn_txQueue ?M, mw_rxBusy := b\<rparr>\<rparr>"
    have rest: "at_rest s m1" unfolding m1_def using net(4) by (rule at_rest_world) simp_all
    have same: "currentAction (?w m1) = currentAction (?w m)" "keeps B (?w m1) w' = keeps B (?w m) w'"
      "mw_tx (?w m1) = sn_txQueue ?M" for B w'
      by (simp_all add: m1_def currentAction_def keeps_def rows_def starts_def inFlight_def)
    have idle: "s = st_idle \<longrightarrow> doNothing (currentAction (?w m1))" using quiet same by auto
    have none: "starts (?w m') = 0" if "keeps B (?w m) (?w m')" for B m' using that net(6) s by (auto simp: keeps_def)
    from timer_speaks [OF rest s idle, of i] consider "settled A (timerFired i m1) (?w m1)"
      | m' where "timerFired i m1 = Some (Inr m')" "at_rest s m'" "mw_tx (?w m') = sn_txQueue ?M"
        "currentAction (?w m') = currentAction (?w m)" "keeps {} (?w m) (?w m')"
      unfolding same A_def by blast
    then have "\<exists>m'. timerFired i m1 = Some (Inr m') \<and> list_all answer (tq_txMsg (mw_tx (m_world m'))) \<and>
        tq_ownAddress (mw_tx (m_world m')) = tq_ownAddress (sn_txQueue ?M) \<and> P m'"
    proof cases
      case 1
      then obtain m' s' where m': "timerFired i m1 = Some (Inr m')" "at_rest s' m'" "speaks s' (?w m') (sn_txQueue ?M)"
        "keeps A (?w m) (?w m')" by (auto simp: settled_def same)
      note sp = speaks_conv [OF m'(2,3) q none [OF m'(4)]]
      show ?thesis using m' none [OF m'(4)] sp unfolding P_def by blast
    next
      case (2 m')
      have "keeps A (?w m) (?w m')" using keeps_mono [OF 2(5)] by simp
      then show ?thesis using 2 none q quiet_conv [OF quiet 2(4)] unfolding P_def by auto
    qed
    then show "\<exists>m'. timerFired i (m\<lparr>m_world := (m_world m)\<lparr>mw_tx := sn_txQueue ?M, mw_rxBusy := b\<rparr>\<rparr>) = Some (Inr m') \<and>
        list_all answer (tq_txMsg (mw_tx (m_world m'))) \<and>
        tq_ownAddress (mw_tx (m_world m')) = tq_ownAddress (sn_txQueue ?M) \<and> P m'" by (simp add: m1_def)
  qed
  then obtain n' m' s' where n': "nodeTimer i ?M = Some (Inr n')" "on_bus (onWire n')" "sn_master n' = Some m'"
    "ident n' = ident ?M" "framesOf n' = map encodePacket (tq_sent (mw_tx (?w m')))" "at_rest s' m'"
    "keeps A (?w m) (?w m')" "starts (?w m') = 0"
    "conv s' (?w m') (addrOf ?M) (bn_nodes net) (framesOf n')"
    unfolding P_def by metis
  let ?net = "net\<lparr>bn_master := onWire n', bn_wire := framesOf n'\<rparr>"
  have ids: "map ident (bn_nodes ?net) = map ident (bn_nodes net)" using n'(4) by (simp add: bn_nodes_def ident_def)
  have "\<forall>n \<in> set (bn_nodes net). dynOf n \<longrightarrow> addrOf n \<notin> A" using quiet by (auto simp: A_def)
  then have "booked (?w m') (bn_nodes ?net)" using booked_keeps [OF net(5) ids n'(7)] by simp
  moreover have "conv s' (?w m') (addrOf ?M) (bn_nodes ?net) (framesOf n')" using n'(9) conv_ident [OF ids refl refl] by simp
  moreover have "addrOf n' = addrOf ?M" using n'(4) by (simp add: ident_def)
  ultimately have "net_ok s' m' ?net" using ok n' by (simp add: net_ok_def bn_nodes_def)
  then show ?thesis using n'(1) assms(2) by (auto simp: netTimer_def net_inv_def)
qed

lemma nodeTime_facts:
  "ident (nodeTime dt n) = ident n" "sn_master (nodeTime dt n) = None \<longleftrightarrow> sn_master n = None"
  by (simp_all add: nodeTime_def ident_def)

lemma nodeTime_on_bus:
  assumes "on_bus n"
  shows "on_bus (nodeTime dt n)"
proof -
  have "reachable (m\<lparr>m_world := (m_world m)\<lparr>mw_ts := ts_advance \<bar>dt\<bar> (mw_ts (m_world m))\<rparr>\<rparr>)" if "sn_master n = Some m" for m
    using reachable.step [of m "Time_Passes dt"] assms that by (auto simp: on_bus_def node_ok_def)
  then show ?thesis using assms by (auto simp: on_bus_def node_ok_def nodeTime_def)
qed

lemma net_time_ok:
  assumes "net_inv net"
  shows "net_inv (netTime dt net)"
proof -
  obtain s m where ok: "net_ok s m net" using assms by (auto simp: net_inv_def)
  note net = net_ok_parts [OF ok]
  let ?w = "(m_world m)\<lparr>mw_ts := ts_advance \<bar>dt\<bar> (mw_ts (m_world m))\<rparr>"
  let ?m = "m\<lparr>m_world := ?w\<rparr>" and ?net = "netTime dt net"
  have rest: "at_rest s ?m" using net(4) rest_ok_advance [of s "m_world m" "\<bar>dt\<bar>"] by (simp add: at_rest_def)
  have cur: "currentAction ?w = currentAction (m_world m)" "rows ?w = rows (m_world m)" "starts ?w = starts (m_world m)"
    by (simp_all add: currentAction_def rows_def starts_def inFlight_def)
  have ids: "map ident (bn_nodes ?net) = map ident (bn_nodes net)"
    by (simp add: bn_nodes_def netTime_def nodeTime_facts)
  have "keeps {} (m_world m) ?w" using cur by (simp add: keeps_def)
  then have "booked ?w (bn_nodes ?net)" using booked_keeps [OF net(5) ids] by simp
  moreover have "conv s ?w (addrOf (bn_master ?net)) (bn_nodes ?net) (bn_wire ?net)"
    using net(7) conv_ident [OF ids cur(1,2)] nodeTime_facts(1) [of dt "bn_master net"] by (simp add: netTime_def ident_def)
  moreover have "sn_master (bn_master ?net) = Some ?m" using net(2) by (simp add: netTime_def nodeTime_def)
  moreover have "list_all on_bus (bn_nodes ?net)" "list_all (\<lambda>n. sn_master n = None) (bn_clients ?net)"
    using ok by (auto simp: net_ok_def bn_nodes_def netTime_def list_all_iff nodeTime_on_bus nodeTime_facts)
  ultimately have "net_ok s ?m ?net" using rest net(6) cur(3) by (simp add: net_ok_def)
  then show ?thesis by (auto simp: net_inv_def)
qed

section \<open>Hosts, and nodes that come and go\<close>

lemma net_atNode_ok:
  assumes "net_inv net" and "\<And>n. on_bus n \<Longrightarrow> on_bus (f n) \<and> ident (f n) = ident n \<and> sn_master (f n) = sn_master n"
  shows "net_inv (atNode k f net)"
proof -
  obtain s m where ok: "net_ok s m net" using assms(1) by (auto simp: net_inv_def)
  note net = net_ok_parts [OF ok]
  let ?net = "atNode k f net"
  have bus: "list_all on_bus (bn_nodes net)" "list_all (\<lambda>n. sn_master n = None) (bn_clients net)"
    using ok by (simp_all add: net_ok_def)
  have eq: "bn_nodes ?net = (if k < length (bn_nodes net) then (bn_nodes net)[k := f (bn_nodes net ! k)] else bn_nodes net)"
    "bn_wire ?net = bn_wire net"
    by (cases k; simp add: atNode_def bn_nodes_def)+
  have all: "on_bus (f n)" "ident (f n) = ident n" "sn_master (f n) = sn_master n" if "n \<in> set (bn_nodes net)" for n
    using assms(2) bus(1) that by (auto simp: list_all_iff)
  then have ids: "map ident (bn_nodes ?net) = map ident (bn_nodes net)"
    "map sn_master (bn_nodes ?net) = map sn_master (bn_nodes net)"
    by (auto simp: eq map_update list_update_same_conv)
  have "list_all on_bus (bn_nodes ?net)" using bus(1) all(1) by (auto simp: eq list_all_iff dest!: set_update_subset_insert [THEN subsetD])
  moreover have "sn_master (bn_master ?net) = Some m" "ident (bn_master ?net) = ident (bn_master net)"
    using ids net(2) by (simp_all add: bn_nodes_def)
  moreover have "map sn_master (bn_clients ?net) = map sn_master (bn_clients net)" using ids by (simp add: bn_nodes_def)
  then have "list_all (\<lambda>n. sn_master n = None) (bn_clients ?net)" using bus(2) by (metis (mono_tags, lifting) list.pred_map list_all_cong comp_def list.pred_mono_strong)
  moreover have "booked (m_world m) (bn_nodes ?net)" using booked_keeps [OF net(5) ids(1) keeps_same [OF refl refl], of "{}"] by simp
  moreover have "addrOf (bn_master ?net) = addrOf (bn_master net)" using ids(1) by (simp add: bn_nodes_def ident_def)
  then have "conv s (m_world m) (addrOf (bn_master ?net)) (bn_nodes ?net) (bn_wire ?net)"
    using net(7) conv_ident [OF ids(1) refl refl] by (simp add: eq)
  ultimately have "net_ok s m ?net" using net by (simp add: net_ok_def)
  then show ?thesis by (auto simp: net_inv_def)
qed

lemma host_send_ok:
  assumes "length data < 2 ^ 14 - 4" and "on_bus n"
  shows "on_bus (nodeHostSend data dest ct n) \<and> ident (nodeHostSend data dest ct n) = ident n \<and>
    sn_master (nodeHostSend data dest ct n) = sn_master n"
proof -
  have "answer (fromHeader_SendPacket \<lparr>sp_m_type = messageType2Byte send_packet, sp_m_chType = c, sp_m_destAddr = d, sp_m_srcAddr = a\<rparr> @ data)" for c d a
    using assms(1) by (simp add: answer_def layout_simps frame_payload_def del: messageType2Byte.simps)
  then show ?thesis using assms(2)
    by (simp add: nodeHostSend_def msgHostTx_sendPacket_def sendPacket_def on_bus_def node_ok_def ident_def clientAddress_def Let_def)
qed

lemma mac_update_ok:
  assumes "length mac = 6" and "on_bus n"
  shows "on_bus (nodeMacUpdate mac n) \<and> ident (nodeMacUpdate mac n) = ident n \<and> sn_master (nodeMacUpdate mac n) = sn_master n"
proof -
  have "answer (fromHeader_MacUpdate \<lparr>mu_m_type = messageType2Byte mac_update, mu_m_destAddr = b, mu_m_srcAddr = a, mu_m_hintAddr = c, mu_m_mac = mac\<rparr>)" for a b c
    using assms(1) by (simp add: answer_def layout_simps frame_payload_def del: messageType2Byte.simps)
  then show ?thesis using assms(2)
    by (simp add: nodeMacUpdate_def msgHostTx_sendMacUpdate_def on_bus_def node_ok_def ident_def clientAddress_def Let_def)
qed

lemma client_started_facts:
  assumes "client_started n"
  shows "on_bus n" "sn_master n = None" "dynOf n \<Longrightarrow> addrOf n = null_addr"
proof -
  obtain sys cfg where "start sys cfg = Some (Inr (Some n))" "\<not> sc_startMaster cfg"
    using assms by (auto simp: client_started_def)
  from start_parts [OF this(1)] this(2)
  show "on_bus n" "sn_master n = None" "dynOf n \<Longrightarrow> addrOf n = null_addr" by (auto simp: on_bus_def)
qed

text \<open>The token in use is for an address that nodes without address do not have.\<close>

lemma token_not_null:
  assumes "at_rest s m" and "ac_action (currentAction (m_world m)) = send_token"
  shows "ac_address (currentAction (m_world m)) \<noteq> null_addr"
proof -
  let ?w = "m_world m"
  have books: "books_ok {#} 0 ?w" using assms(1) by (simp add: at_rest_def rest_ok_def core_ok_def)
  have "ac_address (currentAction ?w) \<in># tokens ?w"
    using assms(2) by (simp add: tokens_def inFlight_def doNothing_def)
  then have "ac_address (currentAction ?w) \<in># mset allAddresses"
    using books by (metis books_ok_def add.right_neutral union_iff)
  moreover have "null_addr \<notin> set allAddresses" by code_simp
  ultimately show ?thesis by auto
qed

lemma net_join_ok:
  assumes "net_inv net" and "bn_wire net = []" and "client_started n" and "compatible (bn_nodes net @ [n])"
    and "uidOf n \<notin> staticUids net"
  shows "net_inv (net\<lparr>bn_clients := bn_clients net @ [n]\<rparr>)"
proof -
  obtain s m where ok: "net_ok s m net" using assms(1) by (auto simp: net_inv_def)
  note net = net_ok_parts [OF ok] and n = client_started_facts [OF assms(3)]
  let ?net = "net\<lparr>bn_clients := bn_clients net @ [n]\<rparr>"
  have nodes: "bn_nodes ?net = bn_nodes net @ [n]" by (simp add: bn_nodes_def)
  have "booked (m_world m) (bn_nodes ?net)"
    using net(2,5) n(3) assms(4,5) unfolding nodes by (auto simp: booked_def staticUids_def)
  moreover have "conv s (m_world m) (addrOf (bn_master net)) (bn_nodes net @ [n]) []"
  proof (cases s)
    case st_waitClientPacketDone
    then have "ac_action (currentAction (m_world m)) = send_token" using net(4) by (simp add: at_rest_def rest_ok_def)
    then show ?thesis using net(7) assms(2) st_waitClientPacketDone n(3) token_not_null [OF net(4)] by auto
  qed (use net(7) assms(2) in auto)
  ultimately have "net_ok s m ?net" using ok n(1,2) assms(2) by (simp add: net_ok_def nodes)
  then show ?thesis by (auto simp: net_inv_def)
qed

lemma compatible_drop: "compatible (xs @ ys @ zs) \<Longrightarrow> compatible (xs @ zs)"
  by (auto simp: compatible_def)

lemma conv_subset:
  assumes "conv s w own ns wire" and "set ns' \<subseteq> set ns"
  shows "conv s w own ns' wire"
proof -
  have "fresh_uid w ns uid \<Longrightarrow> fresh_uid w ns' uid" for uid using assms(2) by (auto simp: fresh_uid_def)
  then show ?thesis using assms by (cases s) (auto, blast+)
qed

lemma net_leave_ok:
  assumes "net_inv net"
  shows "net_inv (net\<lparr>bn_clients := take k (bn_clients net) @ drop (Suc k) (bn_clients net)\<rparr>)"
proof -
  obtain s m where ok: "net_ok s m net" using assms by (auto simp: net_inv_def)
  note net = net_ok_parts [OF ok]
  let ?cs = "take k (bn_clients net) @ drop (Suc k) (bn_clients net)"
  let ?net = "net\<lparr>bn_clients := ?cs\<rparr>"
  have sub: "set ?cs \<subseteq> set (bn_clients net)" by (auto dest: in_set_takeD in_set_dropD)
  then have nodes: "set (bn_nodes ?net) \<subseteq> set (bn_nodes net)" by (auto simp: bn_nodes_def)
  have "drop k (bn_clients net) = take 1 (drop k (bn_clients net)) @ drop (Suc k) (bn_clients net)"
    by (metis append_take_drop_id drop_drop plus_1_eq_Suc)
  then have split: "bn_nodes net = (bn_master net # take k (bn_clients net)) @ take 1 (drop k (bn_clients net)) @ drop (Suc k) (bn_clients net)"
    by (metis append_Cons append_take_drop_id bn_nodes_def)
  have "compatible (bn_nodes net)" using net(5) by (simp add: booked_def)
  then have "compatible ((bn_master net # take k (bn_clients net)) @ drop (Suc k) (bn_clients net))"
    unfolding split by (rule compatible_drop)
  then have "compatible (bn_nodes ?net)" by (simp add: bn_nodes_def)
  then have "booked (m_world m) (bn_nodes ?net)" using net(5) nodes by (auto simp: booked_def)
  moreover have "list_all on_bus (bn_nodes ?net)" "list_all (\<lambda>n. sn_master n = None) ?cs"
    using ok nodes sub by (auto simp: net_ok_def list_all_iff)
  moreover have "conv s (m_world m) (addrOf (bn_master net)) (bn_nodes ?net) (bn_wire net)"
    using net(7) nodes by (rule conv_subset)
  ultimately have "net_ok s m ?net" using net by (simp add: net_ok_def)
  then show ?thesis by (auto simp: net_inv_def)
qed

lemma net_start_ok:
  assumes "start sys cfg = Some (Inr (Some n))" and "sc_startMaster cfg" and "1 \<le> ss_now sys"
    and "list_all client_started ns" and "compatible (n # ns)"
    and "net = \<lparr>bn_master = onWire n, bn_clients = ns, bn_wire = framesOf n\<rparr>"
    and "staticUids net \<inter> uidOf ` set (bn_nodes net) = {}"
  shows "net_inv net"
proof -
  obtain n0 where n0: "node_ok n0" "tq_txMsg (sn_txQueue n0) = []" "clientAddress (sn_txQueue n0) = sc_staticAddr cfg"
    "dynOf n0 = (sc_staticAddr cfg = null_addr)" "framesOf n0 = []" "setupMaster sys cfg n0 = Some (Inr n)"
    using start_parts [OF assms(1)] assms(2) by auto
  have q: "tq_sent (sn_txQueue n0) = []" using n0(1) by (simp add: node_ok_def)
  obtain m where m: "mkMaster (ss_uninit sys) (ss_now sys) (sn_txQueue n0) False = Some (Inr m)" "at_rest st_startMaster m"
    "mw_tx (m_world m) = sendMsg startedMsg (sn_txQueue n0)" "starts (m_world m) \<le> 1"
    "rows (m_world m) = (\<lambda>i. (toLocalAddress_int i, ss_uninit sys (toLocalAddress_int i), False)) ` {staticLowAddress .. staticHighAddress}"
    using mkMaster_speaks [OF assms(3)] by blast
  have "reachable m" using reachable.start [OF assms(3) m(1)] .
  then have n: "sn_master n = Some m" "node_ok n" "framesOf n = [frameOf Msg_Started]" "sn_txQueue n = (sn_txQueue n0)"
    using n0(1,5,6) m(1,3) q by (auto simp: setupMaster_def flushed_def flushTx_ok node_ok_def sendMsg_def)
  have wired: "map ident (bn_nodes net) = map ident (n # ns)" by (simp add: assms(6) bn_nodes_def ident_def)
  have dyn: "\<forall>n2 \<in> set (bn_nodes net). dynOf n2 \<longrightarrow> addrOf n2 = null_addr"
    using assms(4) client_started_facts(3) n(4) n0(3,4) by (auto simp: assms(6) bn_nodes_def list_all_iff)
  have "compatible (bn_nodes net)" using assms(5) wired unfolding compatible_ident by simp
  moreover have "\<forall>n2 \<in> set (bn_nodes net). \<forall>a. (a, uidOf n2, False) \<notin> rows (m_world m)"
    using assms(7) n(1) by (auto simp: staticUids_def assms(6) bn_nodes_def)
  ultimately have "booked (m_world m) (bn_nodes net)" using dyn by (auto simp: booked_def)
  moreover have "list_all on_bus (bn_nodes net)" "list_all (\<lambda>n. sn_master n = None) (bn_clients net)"
    using assms(4) client_started_facts n n0(2) by (auto simp: assms(6) bn_nodes_def list_all_iff on_bus_def)
  moreover have "conv st_startMaster (m_world m) (addrOf (bn_master net)) (bn_nodes net) (bn_wire net)"
    using n(3) dyn by (simp add: assms(6))
  ultimately have "net_ok st_startMaster m net" using m n(1) by (simp add: net_ok_def) (simp add: assms(6))
  then show ?thesis by (auto simp: net_inv_def)
qed

lemma net_reachable_inv: "net_reachable net \<Longrightarrow> net_inv net"
proof (induction rule: net_reachable.induct)
  case start
  then show ?case by (rule net_start_ok)
next
  case (deliver net f u net')
  obtain net2 where "netDeliver u f net = Some (Inr net2)" "net_inv net2"
    using deliver_ok [OF deliver.IH deliver.hyps(2,3)] by blast
  then show ?case using deliver.hyps(4) by simp
next
  case (timer net i net')
  obtain net2 where "netTimer i net = Some (Inr net2)" "net_inv net2"
    using net_timer_ok [OF timer.IH timer.hyps(2)] by blast
  then show ?case using timer.hyps(3) by simp
next
  case (host net data k dest ct)
  then show ?case using net_atNode_ok host_send_ok by blast
next
  case (mac net mac k)
  then show ?case using net_atNode_ok mac_update_ok by blast
qed (use net_time_ok net_join_ok net_leave_ok in blast)+

text \<open>The token of a node whose address the master knows.\<close>

lemma one_token:
  assumes "net_ok s m net" and "n \<in> set (bn_nodes net)" and "addrOf n \<in> set allAddresses"
  shows "count (tokens (m_world m)) (addrOf n) = 1"
proof -
  note net = net_ok_parts [OF assms(1)]
  let ?t = "dh_table (mw_dh (m_world m))"
  have books: "books_ok {#} 0 (m_world m)" using net(4) by (simp add: at_rest_def rest_ok_def core_ok_def)
  have "addrOf n \<in> al_address ` set ?t"
  proof (cases "dynOf n")
    case True
    have "null_addr \<notin> set allAddresses" by code_simp
    then have "addrOf n \<noteq> null_addr" using assms(3) by auto
    then show ?thesis using True net(5) assms(2) by (auto simp: booked_def rows_def)
  next
    case False
    then have "addrOf n \<notin> dynamicRange" using net(5) assms(2) by (auto simp: booked_def compatible_def)
    then have "addrOf n \<in> set (map toLocalAddress_int [staticLowAddress .. staticHighAddress])"
      using assms(3) by (auto simp: allAddresses_def dynamicRange_def)
    also have "\<dots> = al_address ` set (filter (\<lambda>l. \<not> al_isDynamic l) ?t)"
      using books by (metis (no_types, lifting) books_ok_def list.set_map)
    finally show ?thesis by auto
  qed
  moreover have "distinct (map al_address ?t)" by (rule store_parts(1) [OF books refl])
  moreover have "tokens (m_world m) = mset (map al_address ?t)" using books by (simp add: books_ok_def tableAddresses_def)
  ultimately show ?thesis by (simp add: distinct_count_atmost_1)
qed

section \<open>An example\<close>

text \<open>A master's node with the address 1 and a client with the address 2, just started.\<close>

definition exampleClientSystem :: StartSystem where
  "exampleClientSystem = exampleSystem\<lparr>ss_uniqueId := [8, 7, 6, 5, 4, 3, 2, 1]\<rparr>"

definition exampleNetOf :: "SerialNet \<Rightarrow> SerialNet \<Rightarrow> BusNetwork" where
  "exampleNetOf n c = \<lparr>bn_master = onWire n, bn_clients = [c], bn_wire = framesOf n\<rparr>"

definition startedNode :: "SerialNet option result option \<Rightarrow> SerialNet option" where
  "startedNode r = (case r of Some (Inr (Some n)) \<Rightarrow> Some n | _ \<Rightarrow> None)"

lemma startedNode_Some: "startedNode r = Some n \<longleftrightarrow> r = Some (Inr (Some n))"
  by (auto simp: startedNode_def split: option.splits sum.splits)

definition exampleNet :: "BusNetwork option" where
  "exampleNet = Option.bind (startedNode (start exampleSystem (exampleConfig 1 True))) (\<lambda>n.
     map_option (exampleNetOf n) (startedNode (start exampleClientSystem (exampleConfig 2 False))))"

lemma exampleNet_reachable:
  obtains net where "exampleNet = Some net" "net_reachable net" "map addrOf (bn_nodes net) = [1, 2]" "length (bn_wire net) = 1"
proof -
  have eval: "(case (startedNode (start exampleSystem (exampleConfig 1 True)), startedNode (start exampleClientSystem (exampleConfig 2 False))) of
      (Some n, Some c) \<Rightarrow> compatible [n, c] \<and> map uidOf [n, c] = [[1, 2, 3, 4, 5, 6, 7, 8], [8, 7, 6, 5, 4, 3, 2, 1]] \<and>
        map addrOf [n, c] = [1, 2] \<and> length (framesOf n) = 1 \<and>
        (case sn_master n of None \<Rightarrow> False
         | Some m \<Rightarrow> list_all (\<lambda>l. al_uniqueId l = [0, 0, 0, 0, 0, 0, 0, 0]) (dh_table (mw_dh (m_world m)))) | _ \<Rightarrow> False)"
    by code_simp
  then obtain n c m where s': "startedNode (start exampleSystem (exampleConfig 1 True)) = Some n"
    "startedNode (start exampleClientSystem (exampleConfig 2 False)) = Some c" "compatible [n, c]"
    "map uidOf [n, c] = [[1, 2, 3, 4, 5, 6, 7, 8], [8, 7, 6, 5, 4, 3, 2, 1]]" "map addrOf [n, c] = [1, 2]" "length (framesOf n) = 1"
    "sn_master n = Some m" "list_all (\<lambda>l. al_uniqueId l = [0, 0, 0, 0, 0, 0, 0, 0]) (dh_table (mw_dh (m_world m)))"
    by (auto split: option.splits)
  note s = s' [unfolded startedNode_Some]
  let ?net = "exampleNetOf n c"
  have "sc_startMaster (exampleConfig 1 True)" "1 \<le> ss_now exampleSystem" "\<not> sc_startMaster (exampleConfig 2 False)"
    by (simp_all add: exampleConfig_def exampleSystem_def mkSNConfig_def)
  moreover from this s(2) have "list_all client_started [c]" by (auto simp: client_started_def)
  moreover have "staticUids ?net \<inter> uidOf ` set (bn_nodes ?net) = {}"
    using s(4,7,8) by (auto simp: staticUids_def rows_def list_all_iff exampleNetOf_def bn_nodes_def)
  ultimately have "net_reachable ?net"
    using net_reachable.start [OF s(1) _ _ _ s(3), of ?net] by (simp add: exampleNetOf_def)
  moreover have "map addrOf (bn_nodes ?net) = [1, 2]" "length (bn_wire ?net) = 1"
    using s(5,6) by (simp_all add: exampleNetOf_def bn_nodes_def)
  moreover have "exampleNet = Some ?net" using s'(1,2) by (simp add: exampleNet_def)
  ultimately show thesis using that by metis
qed

section \<open>Properties\<close>



text \<open>
  C2: The network never fails. In every state that the network can reach, delivering the frame on
  the wire, and firing any timer of the master while the bus is quiet, ends normally in every node:
  no node crashes, fails an assertion or loops, and the timeout that would abort the master
  when it misses its own start message cannot occur.
\<close>

theorem network_never_fails:
  assumes "net_reachable net" and "length (snd u) = 4"
  shows "(bn_wire net = [f] \<longrightarrow> (\<exists>net'. netDeliver u f net = Some (Inr net') \<and> net_reachable net')) \<and>
    (bn_wire net = [] \<longrightarrow> (\<exists>net'. netTimer i net = Some (Inr net') \<and> net_reachable net'))"
proof -
  have inv: "net_inv net" by (rule net_reachable_inv [OF assms(1)])
  show ?thesis
  proof (intro conjI impI)
    assume wire: "bn_wire net = [f]"
    obtain net' where "netDeliver u f net = Some (Inr net')" using deliver_ok [OF inv wire assms(2)] by blast
    then show "\<exists>net'. netDeliver u f net = Some (Inr net') \<and> net_reachable net'"
      using net_reachable.deliver [OF assms(1) wire assms(2)] by blast
  next
    assume wire: "bn_wire net = []"
    obtain net' where "netTimer i net = Some (Inr net')" using net_timer_ok [OF inv wire] by blast
    then show "\<exists>net'. netTimer i net = Some (Inr net') \<and> net_reachable net'"
      using net_reachable.timer [OF assms(1) wire] by blast
  qed
qed

theorem network_never_fails_witness:
  "\<exists>net f net'. exampleNet = Some net \<and> bn_wire net = [f] \<and> netDeliver (0, [0, 0, 0, 0]) f net = Some (Inr net') \<and> net_reachable net'"
proof -
  obtain net where net: "exampleNet = Some net" "net_reachable net" "length (bn_wire net) = 1" by (rule exampleNet_reachable)
  then obtain f where f: "bn_wire net = [f]" by (auto simp: length_Suc_conv)
  have "length (snd (0 :: byte, [0, 0, 0, 0] :: Crc32)) = 4" by simp
  from network_never_fails [OF net(2) this, of f] show ?thesis using net(1) f by blast
qed



text \<open>
  C22: Every node is served. In every state that the network can reach, a node with an assigned
  address, or with a configured one that the master knows, has exactly one token with the master,
  waiting, ready or in use: as long as the node is on the bus its address is not taken away.
\<close>

theorem network_serves_every_node:
  assumes "net_reachable net" and "sn_master (bn_master net) = Some m" and "n \<in> set (bn_nodes net)"
    and "addrOf n \<in> set allAddresses"
  shows "count (tokens (m_world m)) (addrOf n) = 1"
proof -
  obtain s m' where ok: "net_ok s m' net" using net_reachable_inv [OF assms(1)] by (auto simp: net_inv_def)
  then have "m' = m" using net_ok_parts(2) [OF ok] assms(2) by simp
  then show ?thesis using one_token [OF ok assms(3,4)] by simp
qed

theorem network_serves_every_node_witness:
  "\<exists>net m. exampleNet = Some net \<and> sn_master (bn_master net) = Some m \<and> count (tokens (m_world m)) 2 = 1"
proof -
  obtain net where net: "exampleNet = Some net" "net_reachable net" "map addrOf (bn_nodes net) = [1, 2]"
    by (rule exampleNet_reachable)
  obtain s m where ok: "net_ok s m net" using net_reachable_inv [OF net(2)] by (auto simp: net_inv_def)
  have m: "sn_master (bn_master net) = Some m" by (rule net_ok_parts(2) [OF ok])
  have "2 \<in> set (map addrOf (bn_nodes net))" using net(3) by simp
  then obtain n where n: "n \<in> set (bn_nodes net)" "addrOf n = 2" by auto
  have "2 \<in> set allAddresses" by code_simp
  then show ?thesis using network_serves_every_node [OF net(2) m n(1)] n(2) net(1) m by auto
qed

end
