(* ===== verification/Network_Delivery.thy ===== *)
theory Network_Delivery
  imports Bus_Network "HOL-Library.Sublist"
begin

text \<open>
  What becomes of the data that the hosts hand to their nodes, on the network of \<open>Bus_Network\<close>: it
  waits in a queue, is on the wire once, and is then delivered to the hosts it is addressed to.
  The history of a run, the packets that were accepted and the packets that were transmitted, is kept by
  the inductive predicate \<open>net_log\<close>.
\<close>

section \<open>Packets\<close>

abbreviation deliveredAt :: "SerialNet \<Rightarrow> delivery list" where
  "deliveredAt n \<equiv> pc_delivered (sn_ptc n)"

abbreviation queueOf :: "SerialNet \<Rightarrow> byte_vec list" where
  "queueOf n \<equiv> tq_txMsg (sn_txQueue n)"

text \<open>The packets that carry something for a host, in contrast to those that pass the token on.\<close>

definition isData :: "byte_vec \<Rightarrow> bool" where
  "isData p \<longleftrightarrow> byte2MessageType (p ! 0) \<in> {Some send_packet, Some mac_update}"

text \<open>What a receiver finds in a frame.\<close>

definition packetsIn :: "byte_vec \<Rightarrow> byte_vec list" where
  "packetsIn f = (case receiveData f (mkFrameCodec True) of Inl e \<Rightarrow> [] | Inr (fc, ps) \<Rightarrow> ps)"

definition dataOn :: "byte_vec list \<Rightarrow> byte_vec list" where
  "dataOn wire = filter isData (concat (map packetsIn wire))"

text \<open>What a node hands to its host when it hears a packet.\<close>

definition receives :: "byte_vec \<Rightarrow> SerialNet \<Rightarrow> delivery list" where
  "receives p n =
     (if byte2MessageType (p ! 0) = Some send_packet \<and>
         (p ! 2 = addrOf n \<and> addrOf n \<noteq> null_addr \<or> addrOf n = broadcast \<or> p ! 2 = broadcast)
      then deliveryOf p (sn_txQueue n) else [])"

lemma packetsIn_encode: "frame_payload d \<Longrightarrow> packetsIn (encodePacket d) = [d]"
  using frames.dec_enc [of "mkFrameCodec True" d] by (auto simp: packetsIn_def codec_idle_def mkFrameCodec_def)

lemma dataOn_encode: "list_all frame_payload ds \<Longrightarrow> dataOn (map encodePacket ds) = filter isData ds"
  by (induction ds) (auto simp: dataOn_def packetsIn_encode)

section \<open>Queues\<close>

text \<open>A node sent some packets; the data among them came from the front of its queue, in order.\<close>

definition moves :: "TxQueue \<Rightarrow> TxQueue \<Rightarrow> bool" where
  "moves q q' \<longleftrightarrow> (\<exists>out. tq_sent q' = tq_sent q @ out \<and> list_all frame_payload out \<and>
     filter isData (tq_txMsg q) = filter isData out @ filter isData (tq_txMsg q')) \<and>
     list_all answer (tq_txMsg q') \<and> (\<forall>ct. getRxIf ct q' = getRxIf ct q)"

lemma moves_trans: "moves q q' \<Longrightarrow> moves q' q'' \<Longrightarrow> moves q q''"
proof -
  assume "moves q q'" "moves q' q''"
  then obtain out out' where o: "tq_sent q' = tq_sent q @ out" "list_all frame_payload out"
    "tq_sent q'' = tq_sent q' @ out'" "list_all frame_payload out'"
    and m: "filter isData (tq_txMsg q) = filter isData out @ filter isData (tq_txMsg q')"
    "filter isData (tq_txMsg q') = filter isData out' @ filter isData (tq_txMsg q'')"
    and h: "list_all answer (tq_txMsg q'')" "\<forall>ct. getRxIf ct q' = getRxIf ct q" "\<forall>ct. getRxIf ct q'' = getRxIf ct q'"
    unfolding moves_def by blast
  have "tq_sent q'' = tq_sent q @ (out @ out')" "list_all frame_payload (out @ out')" using o by simp_all
  moreover have "filter isData (tq_txMsg q) = filter isData (out @ out') @ filter isData (tq_txMsg q'')"
    using m by simp
  ultimately show "moves q q''" using h unfolding moves_def by metis
qed

lemma getRxIf_cong:
  "tq_rxIfRaw q' = tq_rxIfRaw q \<Longrightarrow> tq_rxIfTap q' = tq_rxIfTap q \<Longrightarrow> tq_rxIfTun q' = tq_rxIfTun q \<Longrightarrow> getRxIf ct q' = getRxIf ct q"
  by (cases ct; cases "the ct") simp_all

lemma moves_refl: "list_all answer (tq_txMsg q) \<Longrightarrow> moves q q"
  by (auto simp: moves_def)

text \<open>A message of the protocol that is not data, and a packet from the queue.\<close>

lemma moves_msg:
  assumes "list_all answer (tq_txMsg q)" and "frame_payload p" and "\<not> isData p"
  shows "moves q (sendMsg p q)"
  unfolding moves_def using assms getRxIf_cong [of "sendMsg p q" q]
  by (auto simp: sendMsg_def intro!: exI [of _ "[p]"])

lemma moves_head:
  assumes "list_all answer (tq_txMsg q)" and "tq_txMsg q = p # ps"
  shows "moves q ((sendMsg p q)\<lparr>tq_txMsg := ps\<rparr>)"
  unfolding moves_def using assms getRxIf_cong [of "(sendMsg p q)\<lparr>tq_txMsg := ps\<rparr>" q]
  by (auto simp: sendMsg_def answer_def intro!: exI [of _ "[p]"])

lemma not_data:
  assumes "wf_msg msg" and "\<And>p. msg \<noteq> Msg_Answer p"
  shows "\<not> isData (msgBytes msg)"
  using msg_facts(2) [OF assms(1)] assms(2) by (cases msg) (auto simp: isData_def)

lemma return_token_msg: "frame_payload (returnTokenMsg a)" "\<not> isData (returnTokenMsg a)"
  using answer_return [of a] by (simp_all add: answer_def isData_def returnTokenMsg_def del: messageType2Byte.simps)

lemma token_moves:
  assumes "list_all answer (tq_txMsg q)" and "sendClientPacketOrReturnToken q = Inr q'"
  shows "moves q q'"
proof (cases "tq_txMsg q")
  case Nil
  then have "q' = sendMsg (returnTokenMsg (clientAddress q)) q"
    using assms(2) by (simp add: sendClientPacketOrReturnToken_def sendReturnToken_def layout_simps returnTokenMsg_def clientAddress_def)
  then show ?thesis using moves_msg [OF assms(1) return_token_msg] by simp
next
  case (Cons p ps)
  then have "q' = (sendMsg p q)\<lparr>tq_txMsg := ps\<rparr>"
    using assms(2) by (simp add: sendClientPacketOrReturnToken_def sendClientPacket_def)
  then show ?thesis using moves_head [OF assms(1) Cons] by simp
qed

lemma speaks_moves:
  assumes "speaks s w q" and "list_all answer (tq_txMsg q)"
  shows "moves q (mw_tx w)"
proof -
  have msg: "moves q (sendMsg (msgBytes msg) q)" if "wf_msg msg" "\<And>p. msg \<noteq> Msg_Answer p" for msg
    using moves_msg [OF assms(2) msg_facts(1) [OF that(1)] not_data [OF that]] .
  show ?thesis
  proof (cases s)
    case st_waitClientPacketDone
    then show ?thesis using assms moves_head [OF assms(2)] by auto
  qed (use assms msg [of Msg_Started] msg [of "Msg_Grant (ac_address (currentAction w))"] msg [of Msg_Discovery] moves_refl
       in auto)
qed

section \<open>One node\<close>

text \<open>The dispatcher: what goes to the receive queue, and what is sent.\<close>

lemma dispatch_moves:
  assumes "wf_msg msg" and "list_all answer (tq_txMsg (pc_tx c))" and "pc_rxMsg c = []"
    and "rxCommand u (msgType msg) (msgBytes msg) c = Inr c1" and "length (pc_uniqueId c) = 8" and "length (snd u) = 4"
  shows "moves (pc_tx c) (pc_tx c1) \<and> pc_delivered c1 = pc_delivered c \<and>
    pc_rxMsg c1 = (if byte2MessageType (msgBytes msg ! 0) = Some send_packet \<and>
         (msgBytes msg ! 2 = clientAddress (pc_tx c) \<and> clientAddress (pc_tx c) \<noteq> null_addr \<or>
          clientAddress (pc_tx c) = broadcast \<or> msgBytes msg ! 2 = broadcast)
      then [msgBytes msg] else [])"
proof -
  note facts = msg_facts(2,3) [OF assms(1)]
  have addr: "moves q (q\<lparr>tq_ownAddress := oa, tq_newAddr := ns\<rparr>)" if "list_all answer (tq_txMsg q)" for q oa ns
    using that getRxIf_cong [of "q\<lparr>tq_ownAddress := oa, tq_newAddr := ns\<rparr>" q] by (auto simp: moves_def)
  show ?thesis
  proof (cases "msgType msg")
    case grant_token
    then show ?thesis using assms facts token_moves [OF assms(2)] moves_refl [OF assms(2)]
      by (auto simp: rxCommand_def toHeader_def rxToken_def Let_def rbind_eq_Inr split: if_splits)
  next
    case address_discovery
    have req: "moves (pc_tx c) (sendMsg (requestMsg u (pc_uniqueId c)) (pc_tx c))"
      using moves_msg [OF assms(2) msg_facts(1) not_data, of "Msg_Request u (pc_uniqueId c)"] assms(5,6) by simp
    then show ?thesis using assms address_discovery facts moves_refl [OF assms(2)]
      by (auto simp: rxCommand_def toHeader_def rxDiscoveryPacket_def sendMasterPacket_def requestMsg_def)
  next
    case address_reply
    then show ?thesis using assms facts addr [OF assms(2)] moves_refl [OF assms(2)]
      by (auto simp: rxCommand_def toHeader_def rxAddrReplyPacket_def setAddress_def split: prod.splits)
  next
    case master_started
    then show ?thesis using assms facts addr [OF assms(2)]
      by (auto simp: rxCommand_def txq_masterStarted_def split: prod.splits)
  next
    case send_packet
    then show ?thesis using assms facts moves_refl [OF assms(2)]
      by (auto simp: rxCommand_def toHeader_def layout_SendPacket_def Let_def)
  qed (use assms facts moves_refl [OF assms(2)] in \<open>auto simp: rxCommand_def split: option.splits if_splits\<close>)
qed

text \<open>Any node after a message.\<close>

definition nodeMoved :: "bus_msg \<Rightarrow> SerialNet \<Rightarrow> SerialNet \<Rightarrow> bool" where
  "nodeMoved msg n n' \<longleftrightarrow> deliveredAt n' = deliveredAt n @ receives (msgBytes msg) n \<and>
     filter isData (queueOf n) = dataOn (framesOf n') @ filter isData (queueOf n') \<and>
     (\<forall>ct. getRxIf ct (sn_txQueue n') = getRxIf ct (sn_txQueue n))"

lemma moved_by:
  assumes "on_bus n" and "frame_payload d" and "rxRawPacket nodeMasterRx u d (sn_ptc n) = Some (Inr c)"
    and "moves (sn_txQueue n) (pc_tx c)" and "nodeReceive u (encodePacket d) n = Some (Inr n')"
  shows "filter isData (queueOf n) = dataOn (framesOf n') @ filter isData (queueOf n') \<and>
    deliveredAt n' = pc_delivered c \<and> (\<forall>ct. getRxIf ct (sn_txQueue n') = getRxIf ct (sn_txQueue n))"
proof -
  have n: "node_ok n" "framesOf n = []" "tq_sent (sn_txQueue n) = []" using assms(1) by (simp_all add: on_bus_def node_ok_def)
  have n': "framesOf n' = map encodePacket (tq_sent (pc_tx c))" "sn_ptc n' = c\<lparr>pc_tx := (pc_tx c)\<lparr>tq_sent := []\<rparr>\<rparr>"
    using node_step [OF n(1) assms(2,3)] assms(5) n(2) by auto
  obtain out where "tq_sent (pc_tx c) = out" "list_all frame_payload out"
    "filter isData (queueOf n) = filter isData out @ filter isData (tq_txMsg (pc_tx c))"
    using assms(4) n(3) unfolding moves_def by auto
  moreover have "getRxIf ct (sn_txQueue n') = getRxIf ct (sn_txQueue n)" for ct
    using assms(4) getRxIf_cong [of "(pc_tx c)\<lparr>tq_sent := []\<rparr>" "pc_tx c" ct] n'(2) by (simp add: moves_def)
  ultimately show ?thesis using n' dataOn_encode [of out] by simp
qed

lemma client_moves:
  assumes "on_bus n" and "sn_master n = None" and "length (uidOf n) = 8" and "wf_msg msg" and "length (snd u) = 4"
    and "nodeReceive u (frameOf msg) n = Some (Inr n')"
  shows "nodeMoved msg n n'"
proof -
  note facts = msg_facts [OF assms(4)]
  have n: "list_all answer (queueOf n)" "pc_rxMsg (sn_ptc n) = []" "rxq_ok (sn_ptc n)"
    using assms(1) by (simp_all add: on_bus_def node_ok_def rxq_ok_def)
  obtain c1 where c1: "rxCommand u (msgType msg) (msgBytes msg) (sn_ptc n) = Inr c1"
    using rxCommand_total [OF facts(3) n(3), of u] by auto
  note dm = dispatch_moves [OF assms(4) n(1,2) c1 assms(3,5)]
  have long: "longEnough (msgBytes msg)" using facts by (auto simp: longEnough_iff frame_payload_def)
  define c where "c = rxAsClient u (msgBytes msg) (sn_ptc n)"
  have c: "pc_tx c = pc_tx c1" "pc_delivered c = pc_delivered c1 @ concat (map (\<lambda>bb. deliveryOf bb (pc_tx c1)) (pc_rxMsg c1))"
    using long facts(2) c1 by (simp_all add: c_def rxAsClient_def)
  have same: "deliveryOf bb (pc_tx c1) = deliveryOf bb (sn_txQueue n)" for bb
    using dm by (simp add: deliveryOf_def moves_def)
  have rx: "rxRawPacket nodeMasterRx u (msgBytes msg) (sn_ptc n) = Some (Inr c)"
    unfolding c_def by (rule rxRawPacket_client [OF assms(2) n(3)])
  have mv: "moves (sn_txQueue n) (pc_tx c)" using dm c(1) by simp
  have "pc_delivered c = deliveredAt n @ receives (msgBytes msg) n"
    using dm c(2) by (auto simp: receives_def same)
  then show ?thesis using moved_by [OF assms(1) facts(1) rx mv assms(6)] by (simp add: nodeMoved_def)
qed

lemma master_moves:
  assumes "on_bus n" and "sn_master n = Some m" and "length (uidOf n) = 8" and "wf_msg msg" and "length (snd u) = 4"
    and "nodeReceive u (frameOf msg) n = Some (Inr n')"
    and "\<And>q. list_all answer (tq_txMsg q) \<Longrightarrow>
      \<exists>m'. masterPacketReceived (Some (msgType msg)) (msgBytes msg) (m\<lparr>m_world := (m_world m)\<lparr>mw_tx := q\<rparr>\<rparr>) = Some (Inr m') \<and>
        moves q (mw_tx (m_world m'))"
  shows "nodeMoved msg n n'"
proof -
  note facts = msg_facts [OF assms(4)]
  have n: "list_all answer (queueOf n)" "pc_rxMsg (sn_ptc n) = []" "rxq_ok (sn_ptc n)"
    using assms(1) by (simp_all add: on_bus_def node_ok_def rxq_ok_def)
  obtain c1 where c1: "rxCommand u (msgType msg) (msgBytes msg) (sn_ptc n) = Inr c1" "rxq_ok c1" "pc_master c1 = Some m"
    using rxCommand_total [OF facts(3) n(3), of u] assms(2) by auto
  note dm = dispatch_moves [OF assms(4) n(1,2) c1(1) assms(3,5)]
  obtain m' where m': "masterPacketReceived (Some (msgType msg)) (msgBytes msg) (m\<lparr>m_world := (m_world m)\<lparr>mw_tx := pc_tx c1\<rparr>\<rparr>) = Some (Inr m')"
    "moves (pc_tx c1) (mw_tx (m_world m'))"
    using assms(7) [of "pc_tx c1"] dm by (auto simp: moves_def)
  define c2 where "c2 = c1\<lparr>pc_master := Some m', pc_tx := mw_tx (m_world m')\<rparr>"
  define c where "c = c2\<lparr>pc_rxMsg := [], pc_delivered := pc_delivered c2 @ concat (map (\<lambda>bb. deliveryOf bb (pc_tx c2)) (pc_rxMsg c2))\<rparr>"
  have long: "longEnough (msgBytes msg)" "msgBytes msg \<noteq> []" using facts by (auto simp: longEnough_iff frame_payload_def)
  have "callMaster nodeMasterRx (msgType msg) (msgBytes msg) c1 = Some (Inr c2)"
    using c1(3) m'(1) by (simp add: callMaster_def nodeMasterRx_def c2_def)
  moreover have "rxq_ok c2" using c1(2) by (simp add: rxq_ok_def c2_def)
  ultimately have rx: "rxRawPacket nodeMasterRx u (msgBytes msg) (sn_ptc n) = Some (Inr c)"
    using long facts(2) c1(1) by (simp add: rxRawPacket_def deliverRxQueue_eq c_def)
  have mv: "moves (sn_txQueue n) (pc_tx c)" using moves_trans [OF _ m'(2)] dm by (simp add: c_def c2_def)
  have same: "deliveryOf bb (pc_tx c2) = deliveryOf bb (sn_txQueue n)" for bb
    using mv by (simp add: deliveryOf_def moves_def c_def)
  have "pc_delivered c = pc_delivered c1 @ concat (map (\<lambda>bb. deliveryOf bb (sn_txQueue n)) (pc_rxMsg c1))"
    unfolding c_def by (simp add: same) (simp add: c2_def)
  then have "pc_delivered c = deliveredAt n @ receives (msgBytes msg) n"
    using dm by (auto simp: receives_def)
  then show ?thesis using moved_by [OF assms(1) facts(1) rx mv assms(6)] by (simp add: nodeMoved_def)
qed

section \<open>The network\<close>

definition masterHears :: "bus_msg \<Rightarrow> BusMaster \<Rightarrow> bool" where
  "masterHears msg m \<longleftrightarrow> (\<forall>q. list_all answer (tq_txMsg q) \<longrightarrow>
     (\<exists>m'. masterPacketReceived (Some (msgType msg)) (msgBytes msg) (m\<lparr>m_world := (m_world m)\<lparr>mw_tx := q\<rparr>\<rparr>) = Some (Inr m') \<and>
        moves q (mw_tx (m_world m'))))"

lemma settled_moves:
  assumes "settled A r w" and "list_all answer (tq_txMsg (mw_tx w))"
  shows "\<exists>m'. r = Some (Inr m') \<and> moves (mw_tx w) (mw_tx (m_world m'))"
  using assms speaks_moves by (auto simp: settled_def)

lemma hears_request:
  assumes "at_rest st_queryAddress m" and "length (snd v) = 4" and "length uid = 8" and "\<forall>a. (a, uid, False) \<notin> rows (m_world m)"
  shows "masterHears (Msg_Request v uid) m"
  unfolding masterHears_def
proof (intro allI impI)
  fix q :: TxQueue assume q: "list_all answer (tq_txMsg q)"
  let ?b = "requestMsg v uid" and ?m = "m\<lparr>m_world := (m_world m)\<lparr>mw_tx := q\<rparr>\<rparr>"
  let ?r = "layout_AddressRequest ?b"
  have wf: "wf_msg (Msg_Request v uid)" using assms(2,3) by simp
  have uid: "uid = aq_m_uniqueId ?r" using assms(2,3) by (simp add: requestMsg_def layout_simps)
  have "sizeofHeader address_request \<le> length ?b" using msg_facts(3) [OF wf] by simp
  from hear_request [OF at_rest_tx [OF assms(1)] this, of q] obtain m' where
    m': "masterPacketReceived (Some address_request) ?b ?m = Some (Inr m')"
    "mw_tx (m_world m') = mw_tx (receivedAddressRequest ?r (m_world ?m))" by auto
  have sched: "sched_ok (m_world ?m)" "\<forall>a. (a, uid, False) \<notin> rows (m_world ?m)"
    using at_rest_tx [OF assms(1), of q] assms(4) by (simp_all add: at_rest_def rest_ok_def core_ok_def)
  have "moves q (mw_tx (m_world m'))"
    using request_rows(4) [OF sched(1) uid sched(2) refl] m'(2) moves_refl [OF q]
      moves_msg [OF q msg_facts(1) not_data, of "Msg_Reply _ uid"] assms(3) by auto
  then show "\<exists>m'. masterPacketReceived (Some (msgType (Msg_Request v uid))) (msgBytes (Msg_Request v uid)) ?m = Some (Inr m') \<and>
    moves q (mw_tx (m_world m'))" using m'(1) by simp
qed

lemma hears_ignored:
  assumes "msgType msg \<in> {address_discovery, address_reply}"
  shows "masterHears msg m"
  using assms moves_refl by (auto simp: masterHears_def masterPacketReceived_def)

lemma wire_message:
  assumes "net_ok s m net" and "bn_wire net = [f]"
  shows "\<exists>msg. wf_msg msg \<and> f = frameOf msg \<and> masterHears msg m"
proof -
  note conv = net_ok_parts(7) [OF assms(1)] and rest = net_ok_parts(4) [OF assms(1)]
  show ?thesis
  proof (cases s)
    case st_queryAddress
    then consider "f = frameOf Msg_Discovery"
      | v uid where "length (snd v) = 4" "fresh_uid (m_world m) (bn_nodes net) uid" "f = frameOf (Msg_Request v uid)"
      using conv assms(2) by auto
    then show ?thesis
    proof cases
      case 1
      then show ?thesis using hears_ignored [of Msg_Discovery m] by force
    next
      case (2 v uid)
      then have "length uid = 8" "\<forall>a. (a, uid, False) \<notin> rows (m_world m)" by (simp_all add: fresh_uid_def)
      then show ?thesis using 2 hears_request [of m v uid] rest st_queryAddress by force
    qed
  next
    case st_waitAddressReply
    then obtain a uid where "length uid = 8" "f = frameOf (Msg_Reply a uid)" using conv assms(2) by (auto simp: fresh_uid_def)
    then show ?thesis using hears_ignored [of "Msg_Reply a uid" m] by force
  next
    case st_waitClientPacketDone
    then obtain p where p: "answer p" "f = frameOf (Msg_Answer p)" using conv assms(2) by auto
    have "msgType (Msg_Answer p) \<in> {send_packet, mac_update, return_token}" using p(1) by (auto simp: answer_def)
    then have "masterHears (Msg_Answer p) m"
      unfolding masterHears_def using settled_moves [OF hear_answer [OF at_rest_tx]] rest st_waitClientPacketDone by fastforce
    then show ?thesis using p by force
  next
    case st_sendingToken
    let ?a = "ac_address (currentAction (m_world m))"
    have "masterHears (Msg_Grant ?a) m"
      unfolding masterHears_def using hear_grant [OF at_rest_tx] rest st_sendingToken moves_refl by fastforce
    then show ?thesis using conv assms(2) st_sendingToken by force
  next
    case st_startMaster
    have "masterHears Msg_Started m"
      unfolding masterHears_def using hear_started [OF at_rest_tx] rest st_startMaster speaks_moves by fastforce
    then show ?thesis using conv assms(2) st_startMaster by force
  next
    case st_idle
    then show ?thesis using conv assms(2) by simp
  qed
qed

lemma hearAll_each:
  assumes "hearAll u f ns = Some (Inr (ns', fs))"
  shows "\<exists>ms. ns' = map onWire ms \<and> fs = concat (map framesOf ms) \<and> list_all2 (\<lambda>n n'. nodeReceive u f n = Some (Inr n')) ns ms"
  using assms
proof (induction ns arbitrary: ns' fs)
  case (Cons n ns)
  then obtain n1 ns1 fs1 where "nodeReceive u f n = Some (Inr n1)" "hearAll u f ns = Some (Inr (ns1, fs1))"
    "ns' = onWire n1 # ns1" "fs = framesOf n1 @ fs1"
    by (cases "nodeReceive u f n"; cases "the (nodeReceive u f n)") (auto simp: rbind_eq_Inr)
  moreover from Cons.IH [OF this(2)] obtain ms where "ns1 = map onWire ms" "fs1 = concat (map framesOf ms)"
    "list_all2 (\<lambda>n n'. nodeReceive u f n = Some (Inr n')) ns ms" by blast
  ultimately show ?case by (intro exI [of _ "n1 # ms"]) simp
qed simp

lemma dataOn_append [simp]: "dataOn (xs @ ys) = dataOn xs @ dataOn ys" "dataOn [] = []"
  by (simp_all add: dataOn_def)

lemma moved_all:
  assumes "list_all2 (nodeMoved msg) ns ms"
  shows "map deliveredAt ms = map (\<lambda>n. deliveredAt n @ receives (msgBytes msg) n) ns \<and>
    mset (filter isData (concat (map queueOf ms))) + mset (dataOn (concat (map framesOf ms))) =
    mset (filter isData (concat (map queueOf ns)))"
  using assms
proof (induction rule: list_all2_induct)
  case (Cons n ns n' ns')
  have "mset (filter isData (queueOf n)) = mset (dataOn (framesOf n')) + mset (filter isData (queueOf n'))"
    using Cons.hyps(1) unfolding nodeMoved_def by (metis mset_append)
  from this Cons.IH [THEN conjunct2, symmetric] show ?case using Cons
    by (simp add: nodeMoved_def ac_simps del: mset_filter)
qed simp

text \<open>What a delivery does to each node.\<close>

lemma netDeliver_each:
  assumes "net_inv net" and "bn_wire net = [f]" and "length (snd u) = 4" and "netDeliver u f net = Some (Inr net')"
  obtains msg ms where "wf_msg msg" and "f = frameOf msg" and "list_all2 (nodeMoved msg) (bn_nodes net) ms"
    and "bn_nodes net' = map onWire ms" and "bn_wire net' = concat (map framesOf ms)"
proof -
  obtain s m where ok: "net_ok s m net" using assms(1) by (auto simp: net_inv_def)
  obtain msg where msg: "wf_msg msg" "f = frameOf msg" "masterHears msg m" using wire_message [OF ok assms(2)] by blast
  obtain ns fs where h: "hearAll u f (bn_nodes net) = Some (Inr (ns, fs))"
    "net' = \<lparr>bn_master = hd ns, bn_clients = tl ns, bn_wire = fs\<rparr>"
    using assms(4) by (auto simp: netDeliver_def rbind_eq_Inr)
  obtain ms where ms: "ns = map onWire ms" "fs = concat (map framesOf ms)"
    "list_all2 (\<lambda>n n'. nodeReceive u f n = Some (Inr n')) (bn_nodes net) ms"
    using hearAll_each [OF h(1)] by blast
  have ne: "ns \<noteq> []" using ms(1,3) by (auto simp: bn_nodes_def)
  have net: "on_bus n \<and> length (uidOf n) = 8 \<and> (n = bn_master net \<or> sn_master n = None)" if "n \<in> set (bn_nodes net)" for n
    using ok that by (auto simp: net_ok_def bn_nodes_def booked_def compatible_def list_all_iff)
  have "nodeMoved msg n n'" if "n \<in> set (bn_nodes net)" "nodeReceive u f n = Some (Inr n')" for n n'
  proof (cases "sn_master n")
    case None
    then show ?thesis using client_moves [of n msg u n'] net [OF that(1)] that(2) msg(1,2) assms(3) by simp
  next
    case (Some m1)
    then have "n = bn_master net" "m1 = m" using net [OF that(1)] net_ok_parts(2) [OF ok] by auto
    then show ?thesis using master_moves [of n m msg u n'] net [OF that(1)] that(2) msg assms(3) Some by (simp add: masterHears_def)
  qed
  then have "list_all2 (nodeMoved msg) (bn_nodes net) ms"
    using ms(3) by (auto simp: list_all2_conv_all_nth)
  moreover have "bn_nodes net' = map onWire ms" "bn_wire net' = concat (map framesOf ms)"
    using ne h(2) ms(1,2) by (simp_all add: bn_nodes_def)
  ultimately show thesis using msg(1,2) by (intro that)
qed

lemma netDeliver_moves:
  assumes "net_inv net" and "bn_wire net = [f]" and "length (snd u) = 4" and "netDeliver u f net = Some (Inr net')"
  shows "map deliveredAt (bn_nodes net') = map (\<lambda>n. deliveredAt n @ concat (map (\<lambda>p. receives p n) (packetsIn f))) (bn_nodes net) \<and>
    mset (filter isData (concat (map queueOf (bn_nodes net')))) + mset (dataOn (bn_wire net')) =
    mset (filter isData (concat (map queueOf (bn_nodes net))))"
proof -
  obtain msg ms where msg: "wf_msg msg" "f = frameOf msg" and ms: "list_all2 (nodeMoved msg) (bn_nodes net) ms"
    "bn_nodes net' = map onWire ms" "bn_wire net' = concat (map framesOf ms)"
    by (rule netDeliver_each [OF assms])
  moreover have "packetsIn f = [msgBytes msg]" using packetsIn_encode [OF msg_facts(1) [OF msg(1)]] msg(2) by simp
  ultimately show ?thesis using moved_all [OF ms(1)] by (simp add: comp_def)
qed

lemma nodeTimer_parts:
  assumes "on_bus n" and "sn_master n = Some m" and "nodeTimer i n = Some (Inr n')"
  obtains b m2 where "timerFired i (m\<lparr>m_world := (m_world m)\<lparr>mw_tx := sn_txQueue n, mw_rxBusy := b\<rparr>\<rparr>) = Some (Inr m2)"
    and "sn_txQueue n' = (mw_tx (m_world m2))\<lparr>tq_sent := []\<rparr>" and "deliveredAt n' = deliveredAt n"
    and "framesOf n' = map encodePacket (tq_sent (mw_tx (m_world m2)))"
    and "sn_master n' = Some m2" and "pollsReceiver i m \<longrightarrow> \<not> b"
proof -
  have n: "framesOf n = []" "mb_hasByteIf (sn_adapter n)" "codec_idle (mb_codec (sn_adapter n))"
    using assms(1) by (simp_all add: on_bus_def node_ok_def)
  have poll: "packetRxInProgress (sn_now n) (sn_adapter n) = (False, sn_adapter n)"
    using n(3) by (simp add: packetRxInProgress_def checkTimeout_def codec_idle_def rxInProgress_def)
  define b where "b = (if pollsReceiver i m then False else mw_rxBusy (m_world m))"
  define m1 where "m1 = m\<lparr>m_world := (m_world m)\<lparr>mw_tx := sn_txQueue n, mw_rxBusy := b\<rparr>\<rparr>"
  have run: "nodeTimer i n = flushed (map_option (\<lambda>r. rbind r (\<lambda>m2.
      Inr (n\<lparr>sn_ptc := (sn_ptc n)\<lparr>pc_master := Some m2, pc_tx := mw_tx (m_world m2)\<rparr>\<rparr>))) (timerFired i m1))"
    using assms(2) poll by (auto simp: nodeTimer_def b_def m1_def)
  obtain m2 where m2: "timerFired i m1 = Some (Inr m2)"
    "flushTx (n\<lparr>sn_ptc := (sn_ptc n)\<lparr>pc_master := Some m2, pc_tx := mw_tx (m_world m2)\<rparr>\<rparr>) = Inr n'"
    using assms(3) [unfolded run] by (cases "timerFired i m1"; cases "the (timerFired i m1)") (auto simp: flushed_def)
  show thesis
    by (rule that [OF m2(1) [unfolded m1_def]]) (use m2(2) n(1,2) in \<open>auto simp: flushTx_ok b_def\<close>)
qed

lemma netTimer_each:
  assumes "net_inv net" and "bn_wire net = []" and "netTimer i net = Some (Inr net')"
  obtains n' where "net' = net\<lparr>bn_master := onWire n', bn_wire := framesOf n'\<rparr>" and "deliveredAt n' = deliveredAt (bn_master net)"
    and "filter isData (queueOf (bn_master net)) = dataOn (framesOf n') @ filter isData (queueOf n')"
    and "\<forall>ct. getRxIf ct (sn_txQueue n') = getRxIf ct (sn_txQueue (bn_master net))"
proof -
  let ?M = "bn_master net"
  obtain s m where ok: "net_ok s m net" using assms(1) by (auto simp: net_inv_def)
  note net = net_ok_parts [OF ok]
  obtain n' where n': "nodeTimer i ?M = Some (Inr n')" "net' = net\<lparr>bn_master := onWire n', bn_wire := framesOf n'\<rparr>"
    using assms(2,3) by (auto simp: netTimer_def rbind_eq_Inr)
  obtain b m2 where m2: "timerFired i (m\<lparr>m_world := (m_world m)\<lparr>mw_tx := sn_txQueue ?M, mw_rxBusy := b\<rparr>\<rparr>) = Some (Inr m2)"
    "sn_txQueue n' = (mw_tx (m_world m2))\<lparr>tq_sent := []\<rparr>" "deliveredAt n' = deliveredAt ?M"
    "framesOf n' = map encodePacket (tq_sent (mw_tx (m_world m2)))" "sn_master n' = Some m2" "pollsReceiver i m \<longrightarrow> \<not> b"
    by (rule nodeTimer_parts [OF net(1,2) n'(1)])
  define m1 where "m1 = m\<lparr>m_world := (m_world m)\<lparr>mw_tx := sn_txQueue ?M, mw_rxBusy := b\<rparr>\<rparr>"
  have rest: "at_rest s m1" unfolding m1_def using net(4) by (rule at_rest_world) simp_all
  have quiet: "conv s (m_world m1) (addrOf ?M) (bn_nodes net) [] \<and> s \<notin> {st_startMaster, st_sendingToken}"
    using net(7) assms(2) by (intro quiet_conv [of s "m_world m"]) (simp_all add: m1_def currentAction_def)
  then have idle: "s = st_idle \<longrightarrow> doNothing (currentAction (m_world m1))" by auto
  have q: "tq_sent (sn_txQueue ?M) = []" "list_all answer (queueOf ?M)" "mw_tx (m_world m1) = sn_txQueue ?M"
    using net(1) by (simp_all add: on_bus_def node_ok_def m1_def)
  have mv: "moves (sn_txQueue ?M) (mw_tx (m_world m2))"
    using timer_speaks [OF rest _ idle, of i] quiet settled_moves [of _ "timerFired i m1" "m_world m1"] m2(1) q(2,3) moves_refl
    by (auto simp: m1_def [symmetric])
  then obtain out where "tq_sent (mw_tx (m_world m2)) = out" "list_all frame_payload out"
    "filter isData (queueOf ?M) = filter isData out @ filter isData (tq_txMsg (mw_tx (m_world m2)))"
    using q(1) by (auto simp: moves_def)
  then have "filter isData (queueOf ?M) = dataOn (framesOf n') @ filter isData (queueOf n')"
    using m2(2,4) dataOn_encode [of out] by simp
  moreover have "\<forall>ct. getRxIf ct (sn_txQueue n') = getRxIf ct (sn_txQueue ?M)"
    using mv getRxIf_cong [of "(mw_tx (m_world m2))\<lparr>tq_sent := []\<rparr>" "mw_tx (m_world m2)"] m2(2) by (simp add: moves_def)
  ultimately show thesis by (rule that [OF n'(2) m2(3)])
qed

lemma netTimer_moves:
  assumes "net_inv net" and "bn_wire net = []" and "netTimer i net = Some (Inr net')"
  shows "map deliveredAt (bn_nodes net') = map deliveredAt (bn_nodes net) \<and>
    mset (filter isData (concat (map queueOf (bn_nodes net')))) + mset (dataOn (bn_wire net')) =
    mset (filter isData (concat (map queueOf (bn_nodes net))))"
proof -
  obtain n' where n': "net' = net\<lparr>bn_master := onWire n', bn_wire := framesOf n'\<rparr>" "deliveredAt n' = deliveredAt (bn_master net)"
    "filter isData (queueOf (bn_master net)) = dataOn (framesOf n') @ filter isData (queueOf n')"
    by (rule netTimer_each [OF assms])
  have "mset (filter isData (queueOf (bn_master net))) = mset (dataOn (framesOf n')) + mset (filter isData (queueOf n'))"
    using n'(3) by (metis mset_append)
  then show ?thesis using n'(1,2) by (simp add: bn_nodes_def ac_simps del: mset_filter)
qed

section \<open>The history of a run\<close>

definition waiting :: "BusNetwork \<Rightarrow> byte_vec multiset" where
  "waiting net = mset (filter isData (concat (map queueOf (bn_nodes net))))"

text \<open>A network with the data packets that the nodes accepted from their hosts, the ones that were transmitted, in order, and
  the ones that left the network with a node that had not sent them.\<close>

inductive net_log :: "BusNetwork \<Rightarrow> byte_vec multiset \<Rightarrow> byte_vec list \<Rightarrow> byte_vec multiset \<Rightarrow> bool" where
  start: "start sys cfg = Some (Inr (Some n)) \<Longrightarrow> sc_startMaster cfg \<Longrightarrow> 1 \<le> ss_now sys \<Longrightarrow>
    list_all client_started ns \<Longrightarrow> compatible (n # ns) \<Longrightarrow>
    net = \<lparr>bn_master = onWire n, bn_clients = ns, bn_wire = framesOf n\<rparr> \<Longrightarrow>
    staticUids net \<inter> uidOf ` set (bn_nodes net) = {} \<Longrightarrow> net_log net {#} [] {#}"
| deliver: "net_log net acc tra gone \<Longrightarrow> bn_wire net = [f] \<Longrightarrow> length (snd u) = 4 \<Longrightarrow>
    netDeliver u f net = Some (Inr net') \<Longrightarrow> net_log net' acc (tra @ dataOn [f]) gone"
| timer: "net_log net acc tra gone \<Longrightarrow> bn_wire net = [] \<Longrightarrow> netTimer i net = Some (Inr net') \<Longrightarrow> net_log net' acc tra gone"
| time: "net_log net acc tra gone \<Longrightarrow> net_log (netTime dt net) acc tra gone"
| host: "net_log net acc tra gone \<Longrightarrow> length data < 2 ^ 14 - 4 \<Longrightarrow> net' = atNode k (nodeHostSend data dest ct) net \<Longrightarrow>
    net_log net' (acc + (waiting net' - waiting net)) tra gone"
| mac: "net_log net acc tra gone \<Longrightarrow> length mac = 6 \<Longrightarrow> net' = atNode k (nodeMacUpdate mac) net \<Longrightarrow>
    net_log net' (acc + (waiting net' - waiting net)) tra gone"
| join: "net_log net acc tra gone \<Longrightarrow> bn_wire net = [] \<Longrightarrow> client_started n \<Longrightarrow> compatible (bn_nodes net @ [n]) \<Longrightarrow>
    uidOf n \<notin> staticUids net \<Longrightarrow> net_log (net\<lparr>bn_clients := bn_clients net @ [n]\<rparr>) acc tra gone"
| leave: "net_log net acc tra gone \<Longrightarrow> net' = net\<lparr>bn_clients := take k (bn_clients net) @ drop (Suc k) (bn_clients net)\<rparr> \<Longrightarrow>
    net_log net' acc tra (gone + (waiting net - waiting net'))"

lemma net_log_reachable: "net_log net acc tra gone \<Longrightarrow> net_reachable net"
proof (induction rule: net_log.induct)
  case start
  then show ?case by (rule net_reachable.start)
next
  case (deliver net acc tra gone f u net')
  then show ?case by (intro net_reachable.deliver [of net f u net'])
next
  case (timer net acc tra gone i net')
  then show ?case by (intro net_reachable.timer [of net i net'])
next
  case (host net acc tra gone data net' k dest ct)
  then show ?case using net_reachable.host [of net data k dest ct] by simp
next
  case (mac net acc tra gone mac net' k)
  then show ?case using net_reachable.mac [of net mac k] by simp
next
  case (leave net acc tra gone net' k)
  then show ?case using net_reachable.leave [of net k] by simp
qed (simp_all add: net_reachable.time net_reachable.join)

text \<open>Every run has a history.\<close>

lemma net_reachable_log: "net_reachable net \<Longrightarrow> \<exists>acc tra gone. net_log net acc tra gone"
proof (induction rule: net_reachable.induct)
  case (start sys cfg n ns net)
  then show ?case using net_log.start [of sys cfg n ns net] by blast
next
  case (deliver net f u net')
  then show ?case using net_log.deliver [of net _ _ _ f u net'] by blast
next
  case (timer net i net')
  then show ?case using net_log.timer [of net _ _ _ i net'] by blast
next
  case (time net dt)
  then show ?case using net_log.time [of net _ _ _ dt] by blast
next
  case (host net data k dest ct)
  then show ?case using net_log.host [OF _ _ refl, of net _ _ _ data k dest ct] by blast
next
  case (mac net mac k)
  then show ?case using net_log.mac [OF _ _ refl, of net _ _ _ mac k] by blast
next
  case (join net n)
  then show ?case using net_log.join [of net _ _ _ n] by blast
next
  case (leave net k)
  then show ?case using net_log.leave [OF _ refl, of net _ _ _ k] by blast
qed

text \<open>New nodes have nothing to send and have delivered nothing.\<close>

lemma start_delivered:
  assumes "start sys cfg = Some (Inr (Some n))"
  shows "deliveredAt n = []"
  using assms
  by (auto simp: start_def setupMaster_def flushed_def flushTx_def mkPacketTypeCodec_def Let_def rbind_eq_Inr map_sum_Some_Inr
      split: if_splits sum.splits)

lemma client_fresh:
  assumes "client_started n"
  shows "deliveredAt n = []" "queueOf n = []"
proof -
  obtain sys cfg where s: "start sys cfg = Some (Inr (Some n))" "\<not> sc_startMaster cfg"
    using assms by (auto simp: client_started_def)
  from start_delivered [OF s(1)] start_parts [OF s(1)] s(2) show "deliveredAt n = []" "queueOf n = []" by auto
qed

lemma atNode_nodes:
  "bn_nodes (atNode k f net) = (if k < length (bn_nodes net) then (bn_nodes net)[k := f (bn_nodes net ! k)] else bn_nodes net)"
  "bn_wire (atNode k f net) = bn_wire net"
  by (cases k; simp add: atNode_def bn_nodes_def)+

lemma atNode_waiting:
  assumes "\<And>n. \<exists>ps. queueOf (f n) = queueOf n @ ps"
  shows "waiting net \<subseteq># waiting (atNode k f net)"
proof (cases "k < length (bn_nodes net)")
  case True
  obtain ps where ps: "queueOf (f (bn_nodes net ! k)) = queueOf (bn_nodes net ! k) @ ps" using assms by blast
  have "bn_nodes net = take k (bn_nodes net) @ bn_nodes net ! k # drop (Suc k) (bn_nodes net)" using True by (rule id_take_nth_drop)
  then have "waiting net = mset (filter isData (concat (map queueOf (take k (bn_nodes net) @ bn_nodes net ! k # drop (Suc k) (bn_nodes net)))))"
    by (simp add: waiting_def)
  moreover have "waiting (atNode k f net) =
      mset (filter isData (concat (map queueOf (take k (bn_nodes net) @ f (bn_nodes net ! k) # drop (Suc k) (bn_nodes net)))))"
    using True by (simp add: waiting_def atNode_nodes upd_conv_take_nth_drop)
  ultimately show ?thesis using ps by (simp add: subset_mset.add_left_mono)
qed (simp add: waiting_def atNode_nodes)

lemma master_fresh:
  assumes "start sys cfg = Some (Inr (Some n))" and "sc_startMaster cfg" and "1 \<le> ss_now sys"
  shows "queueOf n = []" "dataOn (framesOf n) = []"
proof -
  obtain n0 where n0: "node_ok n0" "queueOf n0 = []" "framesOf n0 = []" "setupMaster sys cfg n0 = Some (Inr n)"
    using start_parts [OF assms(1)] assms(2) by auto
  obtain m where m: "mkMaster (ss_uninit sys) (ss_now sys) (sn_txQueue n0) False = Some (Inr m)"
    "mw_tx (m_world m) = sendMsg startedMsg (sn_txQueue n0)"
    using mkMaster_speaks [OF assms(3)] by blast
  have "queueOf n = [] \<and> framesOf n = map encodePacket [msgBytes Msg_Started]"
    using n0 m by (auto simp: setupMaster_def flushed_def flushTx_ok node_ok_def sendMsg_def)
  moreover have "dataOn (map encodePacket [msgBytes Msg_Started]) = []"
    using dataOn_encode [of "[msgBytes Msg_Started]"] msg_facts(1) [of Msg_Started] not_data [of Msg_Started] by simp
  ultimately show "queueOf n = []" "dataOn (framesOf n) = []" by simp_all
qed

lemma fresh_waiting: "list_all client_started ns \<Longrightarrow> concat (map queueOf ns) = []"
  by (induction ns) (simp_all add: client_fresh)

lemma hostSend_queue: "\<exists>ps. queueOf (nodeHostSend data dest ct n) = queueOf n @ ps" "\<exists>ps. queueOf (nodeMacUpdate mac n) = queueOf n @ ps"
  by (simp_all add: nodeHostSend_def nodeMacUpdate_def msgHostTx_sendPacket_def sendPacket_def msgHostTx_sendMacUpdate_def Let_def)

lemma leave_waiting:
  "waiting (net\<lparr>bn_clients := take k (bn_clients net) @ drop (Suc k) (bn_clients net)\<rparr>) \<subseteq># waiting net"
proof (cases "k < length (bn_clients net)")
  case True
  then have "bn_clients net = take k (bn_clients net) @ bn_clients net ! k # drop (Suc k) (bn_clients net)" by (rule id_take_nth_drop)
  then have "waiting net = mset (filter isData (concat (map queueOf
      (bn_master net # take k (bn_clients net) @ bn_clients net ! k # drop (Suc k) (bn_clients net)))))"
    by (simp add: waiting_def bn_nodes_def)
  then show ?thesis by (simp add: waiting_def bn_nodes_def)
qed (simp add: waiting_def bn_nodes_def)

lemma mset_balance:
  fixes T :: "'a multiset"
  shows "A \<subseteq># B \<Longrightarrow> T + w + A + g + (B - A) = T + w + B + g" and "B \<subseteq># A \<Longrightarrow> T + w + A + g = T + w + B + (g + (A - B))"
  by (auto simp: mset_subset_eq_exists_conv)

text \<open>What reaches a host: the data, the sender, the destination and the channel of a packet.\<close>

definition content :: "byte_vec \<Rightarrow> byte_vec \<times> LocalAddress \<times> LocalAddress \<times> ChannelType option" where
  "content p = (drop 4 p, p ! 3, p ! 2, byte2ChannelType (p ! 1))"

lemma receives_content: "receives p n = [] \<or> isData p \<and> map snd (receives p n) = [content p]"
  by (auto simp: receives_def deliveryOf_def content_def isData_def Let_def split: option.splits)

definition in_order :: "byte_vec list \<Rightarrow> SerialNet \<Rightarrow> bool" where
  "in_order tra n \<longleftrightarrow> (\<exists>ps. subseq ps tra \<and> map snd (deliveredAt n) = map content ps)"

lemma in_order_step:
  assumes "in_order tra n" and "deliveredAt n' = deliveredAt n @ concat (map (\<lambda>p. receives p n) ps)"
  shows "in_order (tra @ filter isData ps) n'"
proof -
  obtain qs where qs: "subseq qs tra" "map snd (deliveredAt n) = map content qs" using assms(1) by (auto simp: in_order_def)
  have "\<exists>rs. subseq rs (filter isData ps) \<and> map snd (concat (map (\<lambda>p. receives p n) ps)) = map content rs"
  proof (induction ps)
    case (Cons p ps)
    then obtain rs where rs: "subseq rs (filter isData ps)" "map snd (concat (map (\<lambda>p. receives p n) ps)) = map content rs" by blast
    show ?case
    proof (cases "receives p n = []")
      case True
      then show ?thesis using rs by auto
    next
      case False
      then have "isData p" "map snd (receives p n) = [content p]" using receives_content [of p n] by auto
      then show ?thesis using rs by (intro exI [of _ "p # rs"]) simp
    qed
  qed simp
  then obtain rs where "subseq rs (filter isData ps)" "map snd (concat (map (\<lambda>p. receives p n) ps)) = map content rs" by blast
  then have "subseq (qs @ rs) (tra @ filter isData ps)" "map snd (deliveredAt n') = map content (qs @ rs)"
    using qs assms(2) list_emb_append_mono by auto
  then show ?thesis unfolding in_order_def by blast
qed

lemma in_order_cong: "deliveredAt n' = deliveredAt n \<Longrightarrow> in_order tra n' = in_order tra n"
  by (simp add: in_order_def)

lemma list_all_map_eq:
  assumes "map f xs' = map f xs" and "list_all P xs" and "\<And>x x'. f x' = f x \<Longrightarrow> P x \<Longrightarrow> P x'"
  shows "list_all P xs'"
  using assms(1,2)
proof (induction xs arbitrary: xs')
  case (Cons x xs)
  then obtain x' ys where ys: "xs' = x' # ys" "f x' = f x" "map f ys = map f xs" by auto
  have "P x'" by (rule assms(3) [OF ys(2)]) (use Cons.prems in simp)
  moreover have "list_all P ys" by (rule Cons.IH [OF ys(3)]) (use Cons.prems in simp)
  ultimately show ?case by (simp add: ys(1))
qed simp

lemma log_in_order:
  assumes "net_log net acc tra gone"
  shows "list_all (in_order tra) (bn_nodes net)"
  using assms
proof (induction rule: net_log.induct)
  case (start sys cfg n ns net)
  have "in_order [] n2" if "deliveredAt n2 = []" for n2 using that by (simp add: in_order_def)
  then show ?case using start(4) start_delivered [OF start(1)] client_fresh(1)
    by (auto simp: start(6) bn_nodes_def list_all_iff)
next
  case (deliver net acc tra gone f u net')
  have "map deliveredAt (bn_nodes net') = map (\<lambda>n. deliveredAt n @ concat (map (\<lambda>p. receives p n) (packetsIn f))) (bn_nodes net)"
    using netDeliver_moves [OF net_reachable_inv [OF net_log_reachable [OF deliver(1)]] deliver(2-4)] by blast
  then have "list_all2 (\<lambda>n n'. deliveredAt n' = deliveredAt n @ concat (map (\<lambda>p. receives p n) (packetsIn f))) (bn_nodes net) (bn_nodes net')"
    by (auto simp: list_all2_conv_all_nth list_eq_iff_nth_eq)
  moreover have "dataOn [f] = filter isData (packetsIn f)" by (simp add: dataOn_def)
  ultimately show ?case using deliver(5) in_order_step
    by (auto simp: list_all2_conv_all_nth list_all_length)
next
  case (timer net acc tra gone i net')
  have "map deliveredAt (bn_nodes net') = map deliveredAt (bn_nodes net)"
    using netTimer_moves [OF net_reachable_inv [OF net_log_reachable [OF timer(1)]] timer(2,3)] by blast
  then show ?case using list_all_map_eq [of deliveredAt] timer(4) in_order_cong by blast
next
  case (time net acc tra gone dt)
  have "map deliveredAt (bn_nodes (netTime dt net)) = map deliveredAt (bn_nodes net)"
    by (simp add: bn_nodes_def netTime_def nodeTime_def)
  then show ?case using list_all_map_eq [of deliveredAt] time(2) in_order_cong by blast
next
  case (host net acc tra gone data net' k dest ct)
  have "map deliveredAt (bn_nodes net') = map deliveredAt (bn_nodes net)"
    by (simp add: host(3) atNode_nodes map_update list_update_same_conv nodeHostSend_def)
  then show ?case using list_all_map_eq [of deliveredAt] host(4) in_order_cong by blast
next
  case (mac net acc tra gone mac net' k)
  have "map deliveredAt (bn_nodes net') = map deliveredAt (bn_nodes net)"
    by (simp add: mac(3) atNode_nodes map_update list_update_same_conv nodeMacUpdate_def)
  then show ?case using list_all_map_eq [of deliveredAt] mac(4) in_order_cong by blast
next
  case (join net acc tra gone n)
  then show ?case using client_fresh(1) [OF join(3)] by (simp add: bn_nodes_def in_order_def)
next
  case (leave net acc tra gone net' k)
  have "set (bn_nodes net') \<subseteq> set (bn_nodes net)" by (auto simp: leave(2) bn_nodes_def dest: in_set_takeD in_set_dropD)
  then show ?case using leave(3) by (auto simp: list_all_iff)
qed

text \<open>A client with a packet to send that hears its token.\<close>

lemma client_token:
  assumes "on_bus n" and "sn_master n = None" and "queueOf n = p # ps"
    and "nodeReceive u (frameOf (Msg_Grant (addrOf n))) n = Some (Inr n')"
  shows "framesOf n' = [encodePacket p] \<and> queueOf n' = ps"
proof -
  let ?msg = "Msg_Grant (addrOf n)" and ?q = "(sendMsg p (sn_txQueue n))\<lparr>tq_txMsg := ps\<rparr>"
  have wf: "wf_msg ?msg" by simp
  have sent: "tq_sent (sn_txQueue n) = []" using assms(1) by (simp add: on_bus_def node_ok_def)
  have f: "sizeofHeader grant_token \<le> length (grantMsg (addrOf n))"
    "gt_m_tokenReceiver (layout_GrantToken (grantMsg (addrOf n))) = addrOf n"
    by (simp_all add: grantMsg_def mkGrantToken_def layout_simps)
  have "rxCommand u (msgType ?msg) (msgBytes ?msg) (sn_ptc n) = Inr ((sn_ptc n)\<lparr>pc_tx := ?q\<rparr>)"
    using f assms(3) by (simp add: rxCommand_def toHeader_def rxToken_def sendClientPacketOrReturnToken_def sendClientPacket_def Let_def)
  from node_hears_client [OF assms(1,2) msg_facts [OF wf] this] show ?thesis using assms(4) sent by (auto simp: sendMsg_def)
qed

text \<open>The token on the wire is for a client.\<close>

lemma grant_for_client:
  assumes "net_ok s m net" and "bn_wire net = [frameOf (Msg_Grant a)]"
  shows "addrOf (bn_master net) \<noteq> a"
proof -
  have p: "packetsIn (frameOf msg) = [msgBytes msg]" if "wf_msg msg" for msg using packetsIn_encode [OF msg_facts(1) [OF that]] .
  have eq: "msgBytes msg = msgBytes (Msg_Grant a)" if "wf_msg msg" "bn_wire net = [frameOf msg]" for msg
    using p [OF that(1)] p [of "Msg_Grant a"] that(2) assms(2) by simp
  have ty: "msgType msg = grant_token" if "wf_msg msg" "bn_wire net = [frameOf msg]" for msg
    using msg_facts(2) [OF that(1)] msg_facts(2) [of "Msg_Grant a"] eq [OF that] by simp
  have grant: "b = a" if "bn_wire net = [frameOf (Msg_Grant b)]" for b
    using eq [of "Msg_Grant b"] that by (simp add: grantMsg_def mkGrantToken_def layout_simps)
  have answer: "msgType (Msg_Answer p) \<noteq> grant_token" if "answer p" for p using that by (auto simp: answer_def)
  note conv = net_ok_parts(7) [OF assms(1)]
  show ?thesis
  proof (cases s)
    case st_sendingToken
    then show ?thesis using conv grant by auto
  next
    case st_waitClientPacketDone
    then obtain p where "answer p" "bn_wire net = [frameOf (Msg_Answer p)]" using conv assms(2) by auto
    then show ?thesis using ty [of "Msg_Answer p"] answer by simp
  next
    case st_queryAddress
    then consider "bn_wire net = [frameOf Msg_Discovery]" | v uid where "length (snd v) = 4" "length uid = 8" "bn_wire net = [frameOf (Msg_Request v uid)]"
      using conv assms(2) by (auto simp: fresh_uid_def)
    then show ?thesis using ty [of Msg_Discovery] ty [of "Msg_Request _ _"] by cases auto
  next
    case st_waitAddressReply
    then obtain b uid where "length uid = 8" "bn_wire net = [frameOf (Msg_Reply b uid)]" using conv assms(2) by (auto simp: fresh_uid_def)
    then show ?thesis using ty [of "Msg_Reply b uid"] by simp
  next
    case st_startMaster
    then show ?thesis using conv ty [of Msg_Started] by simp
  qed (use conv assms(2) in simp)
qed

lemma netDeliver_parts:
  assumes "netDeliver u f net = Some (Inr net')"
  obtains ms where "bn_nodes net' = map onWire ms" and "bn_wire net' = concat (map framesOf ms)"
    and "list_all2 (\<lambda>n n'. nodeReceive u f n = Some (Inr n')) (bn_nodes net) ms"
proof -
  obtain ns fs where h: "hearAll u f (bn_nodes net) = Some (Inr (ns, fs))"
    "net' = \<lparr>bn_master = hd ns, bn_clients = tl ns, bn_wire = fs\<rparr>"
    using assms by (auto simp: netDeliver_def rbind_eq_Inr)
  obtain ms where ms: "ns = map onWire ms" "fs = concat (map framesOf ms)"
    "list_all2 (\<lambda>n n'. nodeReceive u f n = Some (Inr n')) (bn_nodes net) ms"
    using hearAll_each [OF h(1)] by blast
  have "ns \<noteq> []" using ms(1,3) by (auto simp: bn_nodes_def)
  then have "bn_nodes net' = map onWire ms" using h(2) ms(1) by (simp add: bn_nodes_def)
  moreover have "bn_wire net' = concat (map framesOf ms)" using h(2) ms(2) by simp
  ultimately show thesis using ms(3) by (rule that)
qed

lemma token_sends_head:
  assumes "net_inv net" and "bn_wire net = [frameOf (Msg_Grant (addrOf (bn_nodes net ! i)))]" and "i < length (bn_nodes net)"
    and "queueOf (bn_nodes net ! i) = p # ps" and "length (snd u) = 4"
    and "netDeliver u (frameOf (Msg_Grant (addrOf (bn_nodes net ! i)))) net = Some (Inr net')"
  shows "bn_wire net' = [encodePacket p] \<and> queueOf (bn_nodes net' ! i) = ps"
proof -
  let ?n = "bn_nodes net ! i"
  obtain s m where ok: "net_ok s m net" using assms(1) by (auto simp: net_inv_def)
  have "addrOf (bn_master net) \<noteq> addrOf ?n" by (rule grant_for_client [OF ok assms(2)])
  moreover have mem: "?n \<in> set (bn_nodes net)" using assms(3) by simp
  ultimately have n: "on_bus ?n" "sn_master ?n = None"
    using ok by (auto simp: net_ok_def bn_nodes_def list_all_iff)
  obtain ms where ms: "bn_nodes net' = map onWire ms" "bn_wire net' = concat (map framesOf ms)"
    "list_all2 (\<lambda>n n'. nodeReceive u (frameOf (Msg_Grant (addrOf ?n))) n = Some (Inr n')) (bn_nodes net) ms"
    by (rule netDeliver_parts [OF assms(6)])
  have i: "i < length ms" "nodeReceive u (frameOf (Msg_Grant (addrOf ?n))) ?n = Some (Inr (ms ! i))"
    using ms(3) assms(3) by (auto simp: list_all2_conv_all_nth)
  have r: "framesOf (ms ! i) = [encodePacket p]" "queueOf (ms ! i) = ps"
    using client_token [OF n assms(4) i(2)] by simp_all
  have "net_inv net'" using deliver_ok [OF assms(1,2,5)] assms(6) by auto
  then obtain s' m' where "net_ok s' m' net'" by (auto simp: net_inv_def)
  from net_ok_parts(7) [OF this] have "length (bn_wire net') \<le> 1" by (cases s') auto
  moreover have "encodePacket p \<in> set (bn_wire net')" using i(1) r(1) unfolding ms(2) by (auto intro!: bexI [of _ "ms ! i"])
  ultimately have "bn_wire net' = [encodePacket p]" by (cases "bn_wire net'") auto
  then show ?thesis using r(2) ms(1) i(1) by simp
qed

section \<open>An example\<close>

text \<open>The dispatchers of all nodes hear a packet.\<close>

fun ptcsHear :: "byte \<times> Crc32 \<Rightarrow> byte_vec \<Rightarrow> BusMaster PacketTypeCodec list \<Rightarrow> (BusMaster PacketTypeCodec list \<times> byte_vec list) option" where
  "ptcsHear u d [] = Some ([], [])"
| "ptcsHear u d (c # cs) =
     (case (rxRawPacket nodeMasterRx u d c, ptcsHear u d cs) of
        (Some (Inr c'), Some (cs', out)) \<Rightarrow> Some (c'\<lparr>pc_tx := (pc_tx c')\<lparr>tq_sent := []\<rparr>\<rparr> # cs', tq_sent (pc_tx c') @ out)
      | _ \<Rightarrow> None)"

lemma ptcsHear_nodes:
  assumes "list_all2 (\<lambda>n n'. nodeReceive u (encodePacket d) n = Some (Inr n')) ns ms" and "list_all on_bus ns" and "frame_payload d"
  shows "\<exists>out. ptcsHear u d (map sn_ptc ns) = Some (map sn_ptc ms, out) \<and> concat (map framesOf ms) = map encodePacket out"
  using assms(1,2)
proof (induction rule: list_all2_induct)
  case (Cons n ns n' ns')
  then have n: "node_ok n" "framesOf n = []" by (simp_all add: on_bus_def)
  obtain c where "rxRawPacket nodeMasterRx u d (sn_ptc n) = Some (Inr c)" using rxPacket_total [OF n(1), of u d] by blast
  moreover from node_step [OF n(1) assms(3) this] have "sn_ptc n' = c\<lparr>pc_tx := (pc_tx c)\<lparr>tq_sent := []\<rparr>\<rparr>"
    "framesOf n' = map encodePacket (tq_sent (pc_tx c))" using Cons.hyps(1) n(2) by auto
  ultimately show ?case using Cons by auto
qed simp

definition exampleData :: byte_vec where
  "exampleData = [messageType2Byte send_packet, 2, 1, 2, 5]"

text \<open>The client's host sends one byte to the master's; the start of the master is heard; the client is asked.\<close>

lemma exampleTokenNet:
  obtains net acc tra gone where "net_log net acc tra gone" and "net_reachable net" and "map addrOf (bn_nodes net) = [1, 2]"
    and "map queueOf (bn_nodes net) = [[], [exampleData]]" and "bn_wire net = [encodePacket (grantMsg 2)]"
proof -
  let ?u = "(0, [0, 0, 0, 0]) :: byte \<times> Crc32"
  obtain net0 where net0: "exampleNet = Some net0" "net_reachable net0" by (rule exampleNet_reachable)
  define net1 where "net1 = atNode 1 (nodeHostSend [5] 1 tun_format) net0"
  have "case exampleNet of None \<Rightarrow> False | Some net \<Rightarrow> bn_wire net = [encodePacket startedMsg] \<and>
      (case ptcsHear (0, [0, 0, 0, 0]) startedMsg (map sn_ptc (bn_nodes (atNode 1 (nodeHostSend [5] 1 tun_format) net))) of None \<Rightarrow> False
       | Some (cs, out) \<Rightarrow> map (clientAddress \<circ> pc_tx) cs = [1, 2] \<and> map (tq_txMsg \<circ> pc_tx) cs = [[], [exampleData]] \<and> out = [grantMsg 2])"
    by code_simp
  note run = this [unfolded net0(1) option.case]
  have eval: "bn_wire net0 = [encodePacket startedMsg]"
      "case ptcsHear ?u startedMsg (map sn_ptc (bn_nodes net1)) of None \<Rightarrow> False
       | Some (cs, out) \<Rightarrow> map (clientAddress \<circ> pc_tx) cs = [1, 2] \<and> map (tq_txMsg \<circ> pc_tx) cs = [[], [exampleData]] \<and> out = [grantMsg 2]"
    unfolding net1_def by (rule run [THEN conjunct1], rule run [THEN conjunct2])
  have r1: "net_reachable net1" unfolding net1_def by (rule net_reachable.host [OF net0(2)]) simp
  have w1: "bn_wire net1 = [frameOf Msg_Started]" using eval(1) by (simp add: net1_def atNode_nodes)
  have u: "length (snd ?u) = 4" by simp
  obtain net2 where net2: "netDeliver ?u (frameOf Msg_Started) net1 = Some (Inr net2)"
    using deliver_ok [OF net_reachable_inv [OF r1] w1 u] by blast
  have r2: "net_reachable net2" by (rule net_reachable.deliver [OF r1 w1 u net2])
  obtain ms where ms: "bn_nodes net2 = map onWire ms" "bn_wire net2 = concat (map framesOf ms)"
    "list_all2 (\<lambda>n n'. nodeReceive ?u (frameOf Msg_Started) n = Some (Inr n')) (bn_nodes net1) ms"
    by (rule netDeliver_parts [OF net2])
  have bus: "list_all on_bus (bn_nodes net1)" using net_reachable_inv [OF r1] by (auto simp: net_inv_def net_ok_def)
  have "frame_payload (msgBytes Msg_Started)" by (rule msg_facts) simp
  from ptcsHear_nodes [OF ms(3) bus this] obtain out where
    out: "ptcsHear ?u startedMsg (map sn_ptc (bn_nodes net1)) = Some (map sn_ptc ms, out)" "concat (map framesOf ms) = map encodePacket out"
    by auto
  have res: "map addrOf (bn_nodes net2) = [1, 2]" "map queueOf (bn_nodes net2) = [[], [exampleData]]" "bn_wire net2 = [encodePacket (grantMsg 2)]"
    using eval(2) out ms(1,2) by (simp_all add: comp_def)
  obtain acc tra gone where "net_log net2 acc tra gone" using net_reachable_log [OF r2] by blast
  then show thesis using r2 res by (rule that)
qed

section \<open>Properties\<close>



text \<open>
  Delivery in order and at most once. In every run of the network, what a node has handed to its
  host are the contents of packets that were transmitted, in the order of their transmission, each
  at most as often as it was transmitted.\<close>

theorem network_delivers_in_order:
  assumes "net_log net acc tra gone" and "n \<in> set (bn_nodes net)"
  shows "\<exists>ps. subseq ps tra \<and> map snd (deliveredAt n) = map content ps"
  using log_in_order [OF assms(1)] assms(2) by (auto simp: list_all_iff in_order_def)

theorem network_delivers_in_order_witness:
  "\<exists>net acc tra gone n ps. net_log net acc tra gone \<and> n \<in> set (bn_nodes net) \<and> addrOf n = 1 \<and>
     subseq ps tra \<and> map snd (deliveredAt n) = map content ps"
proof -
  obtain net acc tra gone where net: "net_log net acc tra gone" "map addrOf (bn_nodes net) = [1, 2]" by (rule exampleTokenNet)
  have "1 \<in> set (map addrOf (bn_nodes net))" using net(2) by simp
  then obtain n where "n \<in> set (bn_nodes net)" "addrOf n = 1" by auto
  then show ?thesis using network_delivers_in_order [OF net(1)] net(1) by blast
qed

text \<open>
  C6: The token moves data. When the token for a node with a waiting packet is on the wire, its delivery puts the first
  packet of that node's queue, and nothing else, on the wire and delivers nothing; the delivery of that packet hands
  it, once, to the host of every node it is addressed to, and to no other.\<close>

theorem network_token_moves_data:
  assumes "net_reachable net" and "i < length (bn_nodes net)" and "queueOf (bn_nodes net ! i) = p # ps"
    and "bn_wire net = [encodePacket (grantMsg (addrOf (bn_nodes net ! i)))]" and "length (snd u) = 4"
  shows "\<exists>net1 net2. netDeliver u (hd (bn_wire net)) net = Some (Inr net1) \<and> bn_wire net1 = [encodePacket p] \<and>
    queueOf (bn_nodes net1 ! i) = ps \<and> map deliveredAt (bn_nodes net1) = map deliveredAt (bn_nodes net) \<and>
    netDeliver u (encodePacket p) net1 = Some (Inr net2) \<and>
    map deliveredAt (bn_nodes net2) = map (\<lambda>n. deliveredAt n @ receives p n) (bn_nodes net1)"
proof -
  let ?msg = "Msg_Grant (addrOf (bn_nodes net ! i))"
  have inv: "net_inv net" by (rule net_reachable_inv [OF assms(1)])
  have wire: "bn_wire net = [frameOf ?msg]" using assms(4) by simp
  obtain net1 where net1: "netDeliver u (frameOf ?msg) net = Some (Inr net1)" "net_inv net1"
    using deliver_ok [OF inv wire assms(5)] by blast
  note t = token_sends_head [OF inv wire assms(2,3,5) net1(1)]
  obtain net2 where net2: "netDeliver u (encodePacket p) net1 = Some (Inr net2)"
    using deliver_ok [OF net1(2) _ assms(5)] t by blast
  have "list_all on_bus (bn_nodes net)" using inv by (auto simp: net_inv_def net_ok_def)
  then have "list_all answer (queueOf (bn_nodes net ! i))" using assms(2) by (simp add: list_all_length on_bus_def)
  then have "answer p" using assms(3) by simp
  then have p: "packetsIn (encodePacket p) = [p]" by (intro packetsIn_encode) (simp add: answer_def)
  have g: "packetsIn (encodePacket (grantMsg (addrOf (bn_nodes net ! i)))) = [grantMsg (addrOf (bn_nodes net ! i))]"
    using packetsIn_encode [OF msg_facts(1) [of ?msg]] by simp
  have none: "receives (grantMsg a) n = []" for a n
    using msg_facts(2) [of "Msg_Grant a"] by (simp add: receives_def)
  have "map deliveredAt (bn_nodes net1) = map deliveredAt (bn_nodes net)"
    using netDeliver_moves [OF inv wire assms(5) net1(1)] by (simp add: g none)
  moreover have "map deliveredAt (bn_nodes net2) = map (\<lambda>n. deliveredAt n @ receives p n) (bn_nodes net1)"
    using netDeliver_moves [OF net1(2) _ assms(5) net2] t by (simp add: p)
  ultimately show ?thesis using net1(1) net2 t assms(4) by auto
qed

theorem network_token_moves_data_witness:
  "\<exists>net net1 net2. net_reachable net \<and> bn_wire net = [encodePacket (grantMsg 2)] \<and>
     netDeliver (0, [0, 0, 0, 0]) (encodePacket (grantMsg 2)) net = Some (Inr net1) \<and> bn_wire net1 = [encodePacket exampleData] \<and>
     netDeliver (0, [0, 0, 0, 0]) (encodePacket exampleData) net1 = Some (Inr net2)"
proof -
  obtain net where net: "net_reachable net" "map addrOf (bn_nodes net) = [1, 2]" "map queueOf (bn_nodes net) = [[], [exampleData]]"
    "bn_wire net = [encodePacket (grantMsg 2)]" by (rule exampleTokenNet)
  have l: "length (bn_nodes net) = 2" using arg_cong [OF net(2), of length] by simp
  then have i: "1 < length (bn_nodes net)" "addrOf (bn_nodes net ! 1) = 2" "queueOf (bn_nodes net ! 1) = [exampleData]"
    using net(2,3) by (simp_all add: map_eq_Cons_conv bn_nodes_def) (auto simp: map_eq_Cons_conv)
  have "length (snd (0 :: byte, [0, 0, 0, 0] :: Crc32)) = 4" by simp
  from network_token_moves_data [OF net(1) i(1,3) _ this] show ?thesis using net i(2) by auto
qed

text \<open>
  C23: Everything on the wire is a well-typed message: in every state that the network can reach,
  a receiver finds exactly one packet in the frame, its first byte is a known message type, its
  header is complete, and it is within the length limit of the frame format.\<close>

theorem wire_well_typed:
  assumes "net_reachable net" and "f \<in> set (bn_wire net)"
  shows "\<exists>p mt. packetsIn f = [p] \<and> byte2MessageType (p ! 0) = Some mt \<and> sizeofHeader mt \<le> length p \<and> frame_payload p"
proof -
  obtain s m where ok: "net_ok s m net" using net_reachable_inv [OF assms(1)] by (auto simp: net_inv_def)
  have "length (bn_wire net) \<le> 1" using net_ok_parts(7) [OF ok] by (cases s) auto
  then have "bn_wire net = [f]" using assms(2) by (cases "bn_wire net") auto
  then obtain msg where "wf_msg msg" "f = frameOf msg" using wire_message [OF ok] by blast
  then show ?thesis using msg_facts [of msg] packetsIn_encode [of "msgBytes msg"] by blast
qed

theorem wire_well_typed_witness:
  "\<exists>net f p mt. net_reachable net \<and> bn_wire net = [f] \<and> packetsIn f = [p] \<and> byte2MessageType (p ! 0) = Some mt \<and> sizeofHeader mt \<le> length p"
proof -
  obtain net where net: "net_reachable net" "bn_wire net = [encodePacket (grantMsg 2)]" by (rule exampleTokenNet)
  then show ?thesis using wire_well_typed [OF net(1), of "encodePacket (grantMsg 2)"] by force
qed

end
