(* ===== verification/Master_Line.thy ===== *)
theory Master_Line
  imports Master_Messages
begin

text \<open>
  The order in which the master works. The actions that can be started now form a line: the ready ones, then the
  waiting ones that are due. An input that ends an action takes the next one from the front of the line; tokens for
  the master's own node with nothing to send are skipped. Other inputs only append to the ready actions.
\<close>

section \<open>The line\<close>

definition readyLine :: "MasterWorld \<Rightarrow> Action list" where
  "readyLine w = vq_list (ms_ready (ah_scheduler (mw_ah w)))"

definition waitingEls :: "MasterWorld \<Rightarrow> QueueEl list" where
  "waitingEls w = ms_waiting (ah_scheduler (mw_ah w))"

definition dueLine :: "MasterWorld \<Rightarrow> Action list" where
  "dueLine w = map qe_action (filter (due (ts_now (mw_ts w))) (waitingEls w))"

definition lineup :: "MasterWorld \<Rightarrow> Action list" where
  "lineup w = readyLine w @ dueLine w"

lemma line_env:
  assumes "mw_ah w' = mw_ah w" and "ts_now (mw_ts w') = ts_now (mw_ts w)"
  shows "lineup w' = lineup w" "readyLine w' = readyLine w" "waitingEls w' = waitingEls w" "dueLine w' = dueLine w"
  using assms by (simp_all add: lineup_def readyLine_def dueLine_def waitingEls_def)

lemma filter_pq_push: "\<not> P x \<Longrightarrow> filter P (pq_push x q) = filter P q"
  by (induction q) auto

lemma nextTime_later: "now < nextTime st now"
  by (cases st) (simp_all add: nextTime_def addrDelayTokenPacketSent_def addrDelayTokenReturn_def addrDelayTokenTimeout_def
      addrDelayFreeAddress_def)

text \<open>Taking the next action from the line.\<close>

definition taken :: "Action list \<Rightarrow> MasterWorld \<Rightarrow> bool" where
  "taken L w' \<longleftrightarrow> dueLine w' = [] \<and>
     (case L of [] \<Rightarrow> doNothing (currentAction w') \<and> readyLine w' = [] | a # as \<Rightarrow> currentAction w' = a \<and> readyLine w' = as)"

lemma taken_check:
  assumes "core_ok {#} 0 w" and "doNothing (currentAction w)" and "checkNewAction w = Inr (w', evs)"
  shows "taken (lineup w) w'"
proof -
  let ?s = "ah_scheduler (mw_ah w)" and ?now = "ts_now (mw_ts w)"
  obtain b s where wk: "workToDo ?now ?s = (b, s)" by fastforce
  have inv: "sched_inv ?s" using assms(1) by (simp add: core_ok_def sched_ok_def)
  note spec = workToDo_spec [OF inv wk]
  have line: "vq_list (ms_ready s) = lineup w" using spec(2) by (simp add: lineup_def readyLine_def dueLine_def waitingEls_def)
  have now: "ts_now (mw_ts w') = ?now" using checkNewAction_spec [OF assms(1,2)] assms(3) by (auto simp: checked_def same_env_def)
  have nodue: "filter (due ?now) (ms_waiting s) = []" by (simp add: spec(3) filter_False)
  show ?thesis
  proof (cases "lineup w")
    case Nil
    then have "ah_scheduler (mw_ah w') = s" "currentAction w' = currentAction w"
      using assms(2,3) wk spec(4) line
      by (auto simp: checkNewAction_def currentAction_def makeTimeoutAbs_def timer_moveAssign_def Let_def split: if_splits)
    then show ?thesis using Nil line nodue now assms(2) by (simp add: taken_def readyLine_def dueLine_def waitingEls_def)
  next
    case (Cons a as)
    note pop = ms_pop_spec [OF spec(1) line [unfolded Cons]]
    have "ah_scheduler (mw_ah w') = ms_pop s" "currentAction w' = a"
      using assms(2,3) wk spec(4) line Cons pop(1)
      by (auto simp: checkNewAction_def currentAction_def startAction_def Let_def split: if_splits)
    then show ?thesis using Cons pop(3,5) nodue now by (simp add: taken_def readyLine_def dueLine_def waitingEls_def)
  qed
qed

lemma line_updateAddressLine:
  assumes "updateAddressLine addr st w = Inr w'"
  shows "lineup w' = lineup w"
proof -
  let ?t = "dh_table (mw_dh w)"
  obtain i where find: "findLine_addr addr ?t = Some i" using assms by (auto simp: updateAddressLine_def split: option.splits)
  let ?line = "setState st (?t ! i)"
  show ?thesis
  proof (cases "removeDynamic ?line")
    case True
    then have "mw_ah w' = mw_ah w" "mw_ts w' = mw_ts w" using assms find by (auto simp: updateAddressLine_def Let_def)
    then show ?thesis by (intro line_env(1)) simp_all
  next
    case False
    let ?w = "w\<lparr>mw_dh := (mw_dh w)\<lparr>dh_table := ?t[i := ?line]\<rparr>\<rparr>"
    have "w' = postAction (makeSendTokenAction addr) (nextTime (al_state ?line) (ts_now (mw_ts w))) ?w"
      using assms find False by (simp add: updateAddressLine_def Let_def)
    moreover have "\<not> due (ts_now (mw_ts w)) \<lparr>qe_nextTime = nextTime (al_state ?line) (ts_now (mw_ts w)), qe_action = x\<rparr>" for x
      using nextTime_later [of "ts_now (mw_ts w)" "al_state ?line"] by (simp add: due_def)
    ultimately show ?thesis
      by (simp add: lineup_def readyLine_def dueLine_def waitingEls_def postAction_def addAction_def filter_pq_push)
  qed
qed

lemma taken_report:
  assumes "core_ok {#} 0 w" and "fitting (ac_action (currentAction w)) rv" and "fsm_reportActionResult rv w = Inr (w', evs)"
  shows "taken (lineup w) w'"
proof -
  have busy: "\<not> doNothing (currentAction w)" using assms(2) by (auto simp: doNothing_def)
  let ?a = "currentAction w"
  define w1 where "w1 = w\<lparr>mw_fsm := (mw_fsm w)\<lparr>mf_currentAction := makeDoNothingAction\<rparr>,
      mw_ah := (mw_ah w)\<lparr>ah_currentAction := makeDoNothingAction\<rparr>\<rparr>"
  define T where "T = (if ac_action ?a = send_token then {#ac_address ?a#} else {#})"
  define n :: nat where "n = (if ac_action ?a = query_address then 1 else 0)"
  note w1 = clear_current [OF assms(1) busy w1_def T_def n_def]
  have line1: "lineup w1 = lineup w" by (simp add: w1_def lineup_def readyLine_def dueLine_def waitingEls_def)
  have cb: "ac_hasReportCB (mf_currentAction (mw_fsm w))"
    using assms(1) busy by (auto simp: core_ok_def current_ok_def)
  note report = assms(3) [unfolded fsm_reportActionResult_def ah_reportActionResult_def]
  have "\<exists>w2. checkNewAction w2 = Inr (w', evs) \<and> core_ok {#} 0 w2 \<and> doNothing (currentAction w2) \<and> lineup w2 = lineup w1"
  proof (cases "ac_action ?a")
    case send_token
    then have core: "core_ok {#ac_address ?a#} 0 w1" using w1 by (simp add: T_def n_def)
    define st where "st = (case rv of RV_client_packet_started \<Rightarrow> active | RV_rx_token_no_packet \<Rightarrow> idle | _ \<Rightarrow> badClient)"
    obtain w2 where w2: "updateAddressLine (ac_address ?a) st w1 = Inr w2" "core_ok {#} 0 w2"
      "currentAction w2 = currentAction w1"
      using updateAddressLine_spec [OF core, of st] by blast
    have "checkNewAction w2 = Inr (w', evs)"
      using report cb w2(1) send_token assms(2) by (auto simp: st_def w1_def currentAction_def Let_def)
    then show ?thesis using w2 w1 line_updateAddressLine [OF w2(1)] by auto
  next
    case query_address
    then have core: "core_ok {#} (Suc 0) w1" using w1 by (simp add: T_def n_def)
    have "checkNewAction (addressDiscoveryIsDone w1) = Inr (w', evs)"
      using report cb query_address assms(2) by (auto simp: w1_def currentAction_def Let_def)
    moreover have "lineup (addressDiscoveryIsDone w1) = lineup w1"
      by (rule line_env) (simp_all add: addressDiscoveryIsDone_def makeTimeoutAbs_def td_start_def Let_def)
    ultimately show ?thesis using addressDiscoveryIsDone_spec [OF core] w1 by auto
  next
    case send_master_start
    then have "checkNewAction w1 = Inr (w', evs)"
      using report cb assms(2) by (auto simp: w1_def currentAction_def Let_def)
    then show ?thesis using w1 send_master_start by (auto simp: T_def n_def)
  next
    case do_nothing
    then show ?thesis using busy by (simp add: doNothing_def)
  qed
  then show ?thesis using taken_check line1 by metis
qed

lemma lineup_busy:
  assumes "core_ok T n w" and "x \<in> set (lineup w)"
  shows "\<not> doNothing x"
proof -
  have "x \<in># sched_actions (ah_scheduler (mw_ah w))"
    using assms(2) by (auto simp: lineup_def readyLine_def dueLine_def waitingEls_def sched_actions_def)
  then show ?thesis using assms(1) by (auto simp: core_ok_def sched_ok_def)
qed

lemma taken_env:
  assumes "taken L w" and "mw_ah w' = mw_ah w" and "ts_now (mw_ts w') = ts_now (mw_ts w)"
  shows "taken L w'"
  using assms line_env [OF assms(2,3)] by (auto simp: taken_def currentAction_def split: list.splits)

lemma timer_now [simp]:
  "ts_now (mw_ts (startTimer t w)) = ts_now (mw_ts w)" "ts_now (mw_ts (cleanTimer w)) = ts_now (mw_ts w)"
  by (simp_all add: startTimer_def cleanTimer_def makeTimeout_def td_start_def timer_cancel_def td_cancel_def Let_def split: option.splits)

lemma construct_now [simp]: "ts_now (mw_ts (constructState s w)) = ts_now (mw_ts w)"
  by (cases s; simp add: MasterStart_construct_def SendingToken_construct_def WaitClientPacketDoneState_construct_def
      QueryAddressState_construct_def WaitAddressReply_construct_def sendMasterStart_def sendAddressDiscovery_def)

section \<open>Looking for the next action\<close>

text \<open>A token for the master's own node, which has nothing to send.\<close>

definition idleToken :: "TxQueue \<Rightarrow> Action \<Rightarrow> bool" where
  "idleToken q x \<longleftrightarrow> ac_action x = send_token \<and> ac_address x = clientAddress q \<and> tq_txMsg q = []"

text \<open>The master rests in a state after it went through the line \<open>L\<close>.\<close>

definition resumed :: "TxQueue \<Rightarrow> Action list \<Rightarrow> StateId \<Rightarrow> MasterWorld \<Rightarrow> bool" where
  "resumed q L s w' \<longleftrightarrow> dueLine w' = [] \<and>
     (if s = st_idle then list_all (idleToken q) L \<and> readyLine w' = []
      else (s = st_waitClientPacketDone \<longrightarrow> ac_address (currentAction w') = clientAddress q) \<and>
        (\<exists>skipped. L = skipped @ currentAction w' # readyLine w' \<and> list_all (idleToken q) skipped))"

lemma resumed_Cons: "resumed q L s w' \<Longrightarrow> idleToken q a \<Longrightarrow> resumed q (a # L) s w'"
  unfolding resumed_def by (auto intro: exI [of _ "a # _"])

lemma command_line:
  assumes "ready_ok w" and "masterEvent st_idle check_new_command w = Inr (s', w', evs)"
  shows "if s' = st_idle then idleToken (mw_tx w) (currentAction w) \<and> taken (lineup w) w' \<and> (evs = [] \<longrightarrow> doNothing (currentAction w'))
    else evs = [] \<and> currentAction w' = currentAction w \<and> readyLine w' = readyLine w \<and> dueLine w' = dueLine w \<and>
      (s' = st_waitClientPacketDone \<longrightarrow> ac_address (currentAction w) = clientAddress (mw_tx w))"
proof -
  have cur: "mf_currentAction (mw_fsm w) = currentAction w"
    using assms(1) by (simp add: ready_ok_def core_ok_def current_ok_def)
  have ev: "rbind (decodeAction (currentAction w) w) (\<lambda>(w1, req, evs1). case Option.bind req stateOf of
      None \<Rightarrow> Inr (st_idle, w1, evs1) | Some t \<Rightarrow> Inr (t, constructState t w1, evs1)) = Inr (s', w', evs)"
    using assms(2) cur by (cases "decodeAction (currentAction w) w")
      (auto simp: masterEvent_def Idle_event_def split: option.splits)
  note ev = ev [unfolded decodeAction_def]
  have same: "currentAction w' = currentAction w \<and> readyLine w' = readyLine w \<and> dueLine w' = dueLine w"
    if "mw_ah w' = mw_ah w" "ts_now (mw_ts w') = ts_now (mw_ts w)"
    using that line_env [OF that] by (simp add: currentAction_def)
  show ?thesis
  proof (cases "ac_action (currentAction w)")
    case do_nothing
    then show ?thesis using assms(1) by (simp add: ready_ok_def doNothing_def)
  next
    case send_token
    show ?thesis
    proof (cases "ac_address (currentAction w) = mp_clientAddress w")
      case False
      then have "s' = st_sendingToken" "evs = []" "w' = constructState st_sendingToken (sendToken (ac_address (currentAction w)) w)"
        using ev send_token by (auto simp: Let_def)
      then show ?thesis using same by (simp add: sendToken_def del: constructState.simps)
    next
      case own: True
      show ?thesis
      proof (cases "tq_txMsg (mw_tx w)")
        case Nil
        then obtain w1 evs1 where r: "fsm_reportActionResult RV_rx_token_no_packet w = Inr (w1, evs1)"
          "s' = st_idle" "w' = w1" "evs = evs1"
          using ev own send_token by (auto simp: Let_def mp_txQueueEmpty_def txQueueEmpty_def rbind_eq_Inr)
        have "idleToken (mw_tx w) (currentAction w)"
          using own send_token Nil by (simp add: idleToken_def mp_clientAddress_def)
        moreover have "taken (lineup w) w'"
          using taken_report [of w RV_rx_token_no_packet w1 evs1] assms(1) send_token r by (simp add: ready_ok_def)
        ultimately show ?thesis using r command_own_tx [OF assms(1) send_token r(1)] by simp
      next
        case (Cons p ps)
        then have "s' = st_waitClientPacketDone" "evs = []" "mw_ah w' = mw_ah w" "ts_now (mw_ts w') = ts_now (mw_ts w)"
          using ev own send_token
          by (auto simp: Let_def mp_txQueueEmpty_def txQueueEmpty_def mp_sendClientPacket_def sendClientPacket_def
              WaitClientPacketDoneState_construct_def)
        then show ?thesis using same own by (simp add: mp_clientAddress_def)
      qed
    qed
  next
    case query_address
    then have "s' = st_queryAddress" "evs = []" "w' = constructState st_queryAddress w" using ev by auto
    then show ?thesis using same by (simp del: constructState.simps)
  next
    case send_master_start
    then have "s' = st_startMaster" "evs = []" "w' = constructState st_startMaster w" using ev by auto
    then show ?thesis using same by (simp del: constructState.simps)
  qed
qed

lemma settle_idle_line:
  assumes "flat_at masterSetup (stateId st_idle) m" and "vq_list (m_eventQueue m) = [check_new_command]"
    and "ready_ok (m_world m)" and "dueLine (m_world m) = []"
  shows "\<exists>m' s. processQueue masterDescription m = Some (Inr m') \<and> at_rest s m' \<and>
    speaks s (m_world m') (mw_tx (m_world m)) \<and>
    resumed (mw_tx (m_world m)) (currentAction (m_world m) # readyLine (m_world m)) s (m_world m')"
  using assms
proof (induction "work (m_world m)" arbitrary: m rule: less_induct)
  case less
  let ?w = "m_world m"
  obtain s' w' evs where e: "masterEvent st_idle check_new_command ?w = Inr (s', w', evs)"
    "outcome s' w' evs" "evs \<noteq> [] \<longrightarrow> work w' < work ?w"
    using command_outcome [OF less.prems(3)] by blast
  note cmd = command_line [OF less.prems(3) e(1)] and sp = command_speaks [OF less.prems(3) e(1)]
  have line: "lineup ?w = readyLine ?w" using less.prems(4) by (simp add: lineup_def)
  have core: "core_ok {#} 0 ?w" using less.prems(3) by (simp add: ready_ok_def)
  have "flat_event masterDescription (stateId st_idle) check_new_command ?w = Inr (stateId s', w', evs)"
    using e(1) by (simp add: masterEvent_flat del: stateId.simps)
  from mfsm.processQueue_step [OF less.prems(1,2) this]
  obtain m1 where m1: "processQueue masterDescription m = processQueue masterDescription m1"
    "flat_at masterSetup (stateId s') m1" "m_world m1 = w'" "vq_list (m_eventQueue m1) = evs" by auto
  show ?case
  proof (cases "evs = []")
    case True
    then have rest: "at_rest s' m1" using e(2) m1 by (simp add: outcome_def at_rest_def)
    have "resumed (mw_tx ?w) (currentAction ?w # readyLine ?w) s' w'"
    proof (cases "s' = st_idle")
      case idle: True
      then have c: "idleToken (mw_tx ?w) (currentAction ?w)" "taken (readyLine ?w) w'" "doNothing (currentAction w')"
        using cmd True line by simp_all
      then have "readyLine ?w = []"
        using lineup_busy [OF core, of "currentAction w'"] line by (cases "readyLine ?w") (auto simp: taken_def)
      then show ?thesis using c idle by (simp add: resumed_def taken_def)
    next
      case False
      then show ?thesis using cmd less.prems(4) by (auto simp: resumed_def)
    qed
    then show ?thesis using m1 True rest sp mfsm.processQueue_empty [OF m1(2)] by auto
  next
    case False
    then have s': "s' = st_idle" "evs = [check_new_command]" "ready_ok w'" using e(2) by (auto simp: outcome_def)
    then have c: "idleToken (mw_tx ?w) (currentAction ?w)" "taken (readyLine ?w) w'" using cmd line by simp_all
    have tx: "mw_tx w' = mw_tx ?w" using sp False by simp
    have next': "readyLine ?w = currentAction w' # readyLine w'" "dueLine w' = []"
      using c(2) s'(3) by (auto simp: taken_def ready_ok_def split: list.splits)
    obtain m' s where m': "processQueue masterDescription m1 = Some (Inr m')" "at_rest s m'"
      "resumed (mw_tx ?w) (readyLine ?w) s (m_world m')" "speaks s (m_world m') (mw_tx ?w)"
      using less.hyps [of m1] m1 e(3) False s' next' tx by auto
    then show ?thesis using m1(1) resumed_Cons [OF m'(3) c(1)] by auto
  qed
qed

section \<open>Inputs that end an action\<close>

definition searches :: "BusMaster result option \<Rightarrow> MasterWorld \<Rightarrow> bool" where
  "searches r w \<longleftrightarrow> (\<exists>m s. r = Some (Inr m) \<and> at_rest s m \<and> speaks s (m_world m) (mw_tx w) \<and>
     resumed (mw_tx w) (lineup w) s (m_world m))"

lemma post_line:
  assumes "flat_at masterSetup (stateId s) m" and "vq_list (m_eventQueue m) = []"
    and "masterEvent s ev (m_world m) = Inr (st_idle, w', evs)" and "outcome st_idle w' evs"
    and "evs = [] \<longrightarrow> doNothing (currentAction w')" and "taken (lineup w) w'" and "core_ok {#} 0 w" and "mw_tx w' = mw_tx w"
  shows "searches (postEvent masterDescription ev m) w"
proof -
  obtain m1 where m1: "postEvent masterDescription ev m = processQueue masterDescription m1"
    "flat_at masterSetup (stateId s) m1" "m_world m1 = m_world m" "vq_list (m_eventQueue m1) = [ev]"
    using mfsm.postEvent_idle [OF assms(1,2), of ev] by blast
  have "flat_event masterDescription (stateId s) ev (m_world m1) = Inr (stateId st_idle, w', evs)"
    using assms(3) m1(3) by (simp add: masterEvent_flat)
  from mfsm.processQueue_step [OF m1(2,4) this]
  obtain m2 where m2: "processQueue masterDescription m1 = processQueue masterDescription m2"
    "flat_at masterSetup (stateId st_idle) m2" "m_world m2 = w'" "vq_list (m_eventQueue m2) = evs" by auto
  show ?thesis
  proof (cases "evs = []")
    case True
    then have "at_rest st_idle m2" using m2 assms(4) by (auto simp: at_rest_def outcome_def)
    moreover have "lineup w = []"
      using assms(5,6) True lineup_busy [OF assms(7), of "currentAction w'"] by (cases "lineup w") (auto simp: taken_def)
    then have "resumed (mw_tx w) (lineup w) st_idle (m_world m2)" using assms(6) m2(3) by (simp add: resumed_def taken_def)
    moreover have "speaks st_idle (m_world m2) (mw_tx w)" using assms(5,8) True m2(3) by simp
    ultimately show ?thesis using m1(1) m2 True mfsm.processQueue_empty [OF m2(2)] by (auto simp: searches_def simp del: speaks.simps)
  next
    case False
    then have r: "evs = [check_new_command]" "ready_ok w'" using assms(4) by (auto simp: outcome_def)
    then have l: "lineup w = currentAction w' # readyLine w'" "dueLine w' = []"
      using assms(6) by (auto simp: taken_def ready_ok_def split: list.splits)
    then show ?thesis using settle_idle_line [OF m2(2)] m1(1) m2 r assms(8) by (auto simp: searches_def simp del: speaks.simps)
  qed
qed

lemma report_line:
  assumes "flat_at masterSetup (stateId s) m" and "vq_list (m_eventQueue m) = []"
    and "at_event s ev (m_world m)" and "s \<noteq> st_idle" and "fitting (ac_action (currentAction (m_world m))) rv"
    and "eventState s ev (m_world m) = reportAndIdle rv (m_world m)"
    and "destructState s = (\<lambda>w. Inr (cleanTimer w, []))"
  shows "searches (postEvent masterDescription ev m) (m_world m)"
proof -
  note at = at_eventD [OF assms(3)]
  obtain w1 evs where r: "fsm_reportActionResult rv (m_world m) = Inr (w1, evs)" "checked (m_world m) w1 evs"
    using report_spec [OF at(1) assms(5)] by blast
  have step: "masterEvent s ev (m_world m) = Inr (st_idle, cleanTimer w1, evs)"
    using assms(6,7) r(1) by (simp add: masterEvent_def reportAndIdle_def)
  have out: "outcome st_idle (cleanTimer w1) evs" using checked_cleanTimer [OF r(2)] at(3) assms(4) by simp
  have "taken (lineup (m_world m)) (cleanTimer w1)"
    by (rule taken_env [OF taken_report [OF at(1) assms(5) r(1)]]) simp_all
  then show ?thesis using r(2) at(1)
    by (intro post_line [OF assms(1,2) step out]) (auto simp: checked_def same_env_def split: if_splits)
qed

lemma started_line:
  assumes "at_rest st_startMaster m"
  shows "searches (masterPacketReceived (Some master_started) bb m) (m_world m)"
proof -
  have ev: "rx_pkt_master_start_stop \<noteq> timer_timeout" by simp
  note at = at_rest_event [OF assms ev]
  have "ac_action (currentAction (m_world m)) = send_master_start" using at_eventD(2) [OF at(3)] by simp
  then show ?thesis using report_line [OF at, of RV_ok] by (auto simp: MasterStart_event_def masterPacketReceived_def)
qed

lemma answer_line:
  assumes "at_rest st_waitClientPacketDone m" and "mt \<in> {send_packet, mac_update, return_token}"
  shows "searches (masterPacketReceived (Some mt) bb m) (m_world m)"
proof -
  have "searches (postEvent masterDescription ev m) (m_world m)"
    if "ev = rx_pkt_client_packet \<and> rv = RV_client_packet_started \<or> ev = rx_return_token \<and> rv = RV_rx_token_no_packet" for ev rv
  proof -
    have ev: "ev \<noteq> timer_timeout" using that by auto
    note at = at_rest_event [OF assms(1) ev]
    show ?thesis using that at_eventD(2) [OF at(3)]
      using report_line [OF at, of rv] by (auto simp: WaitClientPacketDoneState_event_def)
  qed
  then show ?thesis using assms(2) by (auto simp: masterPacketReceived_def)
qed

section \<open>Timers\<close>

lemma timeout_line:
  assumes "flat_at masterSetup (stateId s) m" and "vq_list (m_eventQueue m) = []"
    and "at_event s timer_timeout (m_world m)" and "s \<in> {st_waitClientPacketDone, st_queryAddress, st_waitAddressReply}"
    and "\<not> mw_rxBusy (m_world m)"
  shows "searches (postEvent masterDescription timer_timeout m) (m_world m)"
proof -
  note at = at_eventD [OF assms(3)]
  consider "s = st_waitClientPacketDone" | "s = st_queryAddress" | "s = st_waitAddressReply" using assms(4) by blast
  then show ?thesis
  proof cases
    case 1
    then show ?thesis using at assms(5) report_line [OF assms(1-3), of RV_token_timeout]
      by (simp add: WaitClientPacketDoneState_event_def)
  next
    case 2
    then show ?thesis using at assms(5) report_line [OF assms(1-3), of RV_address_query_done]
      by (simp add: QueryAddressState_event_def)
  next
    case 3
    let ?w = "cleanTimer (m_world m)"
    have core: "core_ok {#} 0 ?w" using core_ok_cleanTimer [OF at(1)] by simp
    have fit: "fitting (ac_action (currentAction ?w)) RV_address_query_done" using at(2) 3 by simp
    then obtain w1 evs where r: "fsm_reportActionResult RV_address_query_done ?w = Inr (w1, evs)" "checked ?w w1 evs"
      using report_spec [OF core] by blast
    have step: "masterEvent s timer_timeout (m_world m) = Inr (st_idle, w1, evs)"
      using 3 assms(5) r(1) by (simp add: masterEvent_def WaitAddressReply_event_def WaitAddressReply_destruct_def)
    have "timers_ok (m_world m)" using at(1) by (simp add: core_ok_def)
    note c = cleanTimer_spec [OF this]
    have "cb_count CB_fsm_timeout w1 = 0" "cb_count CB_check_new_action ?w = 0"
      using r(2) c at(3) 3 by (simp_all add: checked_def same_env_def)
    then have out: "outcome st_idle w1 evs" using outcome_checked [OF r(2)] by simp
    have line: "lineup ?w = lineup (m_world m)" by (rule line_env) simp_all
    have "taken (lineup (m_world m)) w1" using taken_report [OF core fit r(1)] line by simp
    then show ?thesis using r(2) at(1)
      by (intro post_line [OF assms(1,2) step out]) (auto simp: checked_def same_env_def split: if_splits)
  qed
qed

lemma run_check_line:
  assumes "flat_at masterSetup (stateId st_idle) m" and "vq_list (m_eventQueue m) = []"
    and "core_ok {#} 0 (m_world m)" and "doNothing (currentAction (m_world m))"
    and "cb_count CB_fsm_timeout (m_world m) = 0" and "cb_count CB_check_new_action (m_world m) = 0"
  shows "searches (runCheckNewAction m) (m_world m)"
proof -
  let ?w = "m_world m"
  obtain w' evs where c: "checkNewAction ?w = Inr (w', evs)" "checked ?w w' evs"
    using checkNewAction_spec [OF assms(3,4)] by blast
  then have tx: "cb_count CB_fsm_timeout w' = 0" "mw_tx w' = mw_tx ?w"
    using assms(5) by (simp_all add: checked_def same_env_def)
  then have out: "outcome st_idle w' evs" using outcome_checked [OF c(2)] assms(6) by simp
  have taken: "taken (lineup ?w) w'" by (rule taken_check [OF assms(3,4) c(1)])
  let ?m = "m\<lparr>m_world := w'\<rparr>"
  have flat: "flat_at masterSetup (stateId st_idle) ?m" "vq_list (m_eventQueue ?m) = []"
    using assms(1,2) by simp_all
  show ?thesis
  proof (cases "evs = []")
    case True
    then have rest: "at_rest st_idle ?m" and idle: "doNothing (currentAction w')"
      using flat out c(2) by (auto simp: at_rest_def outcome_def checked_def split: if_splits)
    have "lineup ?w = []"
      using taken idle lineup_busy [OF assms(3), of "currentAction w'"] by (cases "lineup ?w") (auto simp: taken_def)
    then have "resumed (mw_tx ?w) (lineup ?w) st_idle w'" using taken by (simp add: resumed_def taken_def)
    moreover have "speaks st_idle w' (mw_tx ?w)" using idle tx(2) by simp
    ultimately show ?thesis using c(1) True rest by (auto simp: runCheckNewAction_def searches_def simp del: speaks.simps)
  next
    case False
    then have evs: "evs = [check_new_command]" "ready_ok w'" using out by (auto simp: outcome_def)
    then have l: "lineup ?w = currentAction w' # readyLine w'" "dueLine w' = []"
      using taken by (auto simp: taken_def ready_ok_def split: list.splits)
    obtain m1 where m1: "postEvent masterDescription check_new_command ?m = processQueue masterDescription m1"
      "flat_at masterSetup (stateId st_idle) m1" "m_world m1 = w'" "vq_list (m_eventQueue m1) = [check_new_command]"
      using mfsm.postEvent_idle [OF flat] by auto
    then show ?thesis using settle_idle_line [of m1] evs l tx c(1) by (auto simp: runCheckNewAction_def searches_def simp del: speaks.simps)
  qed
qed

lemma timerFired_armed:
  assumes "core_ok T n (m_world m)" and "(i, cb) \<in> ts_callbacks (mw_ts (m_world m))"
  shows "timerFired i m = timerCallback cb (m\<lparr>m_world := (m_world m)\<lparr>mw_ts := td_cancel i (mw_ts (m_world m))\<rparr>\<rparr>)"
proof -
  have inv: "ts_inv (mw_ts (m_world m))" using assms(1) by (simp add: core_ok_def timers_ok_def)
  obtain p where p: "p \<in> set (ts_pending (mw_ts (m_world m)))" "pt_id p = i" "pt_cb p = cb" using assms(2) by (auto simp: ts_callbacks_def)
  then have "td_active i (mw_ts (m_world m))" by (auto simp: td_active_def)
  then obtain cb' where cb': "td_cb i (mw_ts (m_world m)) = (Some cb', td_cancel i (mw_ts (m_world m)))" using td_cb_active by blast
  have "(i, cb') \<in> ts_callbacks (mw_ts (m_world m))" using td_cb_Some [OF inv cb'] by simp
  then have "cb' = cb" using assms(2) inv by (auto simp: ts_callbacks_def ts_inv_def distinct_map dest: inj_onD)
  then show ?thesis using cb' by (simp add: timerFired_def)
qed

text \<open>The timer that every state waits for.\<close>

definition wakeup :: "StateId \<Rightarrow> timer_cb" where
  "wakeup s = (if s = st_idle then CB_check_new_action else CB_fsm_timeout)"

lemma timer_line:
  assumes "at_rest s m" and "s \<notin> {st_startMaster, st_sendingToken}" and "s = st_idle \<longrightarrow> doNothing (currentAction (m_world m))"
    and "(i, wakeup s) \<in> ts_callbacks (mw_ts (m_world m))" and "s \<noteq> st_idle \<longrightarrow> \<not> mw_rxBusy (m_world m)"
  shows "searches (timerFired i m) (m_world m)"
proof -
  let ?w = "m_world m" and ?w' = "(m_world m)\<lparr>mw_ts := td_cancel i (mw_ts (m_world m))\<rparr>"
  let ?m = "m\<lparr>m_world := ?w'\<rparr>"
  have rest: "rest_ok s ?w" and core: "core_ok {#} 0 ?w"
    using assms(1) by (simp_all add: at_rest_def rest_ok_def)
  have fire: "timerFired i m = timerCallback (wakeup s) ?m" by (rule timerFired_armed [OF core assms(4)])
  note fired = core_ok_fired [OF core assms(4) refl]
  have count: "cb_count cb' ?w' + (if cb' = wakeup s then 1 else 0) = cb_count cb' ?w" for cb'
    using fired by blast
  have flat: "flat_at masterSetup (stateId s) ?m" "vq_list (m_eventQueue ?m) = []"
    using assms(1) by (simp_all add: at_rest_def)
  have line: "lineup ?w' = lineup ?w" by (rule line_env) (simp_all add: td_cancel_def)
  have same: "searches r ?w' = searches r ?w" for r by (simp add: searches_def line)
  show ?thesis
  proof (cases "s = st_idle")
    case True
    then have "searches (runCheckNewAction ?m) (m_world ?m)"
      using fired count [of CB_fsm_timeout] count [of CB_check_new_action] rest assms(3) flat
      by (intro run_check_line) (simp_all add: rest_ok_def wakeup_def)
    then show ?thesis using fire same True by (simp add: wakeup_def)
  next
    case False
    then have at: "at_event s timer_timeout (m_world ?m)"
      using fired count [of CB_fsm_timeout] count [of CB_check_new_action] rest
      by (simp add: at_event_def rest_ok_def wakeup_def)
    have "s \<in> {st_waitClientPacketDone, st_queryAddress, st_waitAddressReply}" using False assms(2) by (cases s) simp_all
    then have "searches (postEvent masterDescription timer_timeout ?m) (m_world ?m)"
      using timeout_line [OF flat at] assms(5) False by simp
    then show ?thesis using fire same False by (simp add: wakeup_def)
  qed
qed

section \<open>Inputs that go on with the action\<close>

definition lineKept :: "MasterWorld \<Rightarrow> MasterWorld \<Rightarrow> bool" where
  "lineKept w w' \<longleftrightarrow> currentAction w' = currentAction w \<and> waitingEls w' = waitingEls w \<and>
     ts_now (mw_ts w') = ts_now (mw_ts w) \<and> (\<exists>ys. readyLine w' = readyLine w @ ys)"

lemma lineKept_env: "mw_ah w' = mw_ah w \<Longrightarrow> ts_now (mw_ts w') = ts_now (mw_ts w) \<Longrightarrow> lineKept w w'"
  by (simp add: lineKept_def currentAction_def waitingEls_def readyLine_def)

lemma lineKept_trans: "lineKept w w' \<Longrightarrow> lineKept w' w'' \<Longrightarrow> lineKept w w''"
  unfolding lineKept_def by auto

lemma grant_kept:
  assumes "at_rest st_sendingToken m"
  shows "\<exists>m'. masterPacketReceived (Some grant_token) bb m = Some (Inr m') \<and> at_rest st_waitClientPacketDone m' \<and>
    lineKept (m_world m) (m_world m') \<and> mw_tx (m_world m') = mw_tx (m_world m)"
proof -
  let ?w = "m_world m" and ?w' = "startTimer masterTokenClientTimeout (cleanTimer (m_world m))"
  have ev: "rx_pkt_grant_token \<noteq> timer_timeout" by simp
  note at = at_rest_event [OF assms ev]
  have step: "masterEvent st_sendingToken rx_pkt_grant_token ?w = Inr (st_waitClientPacketDone, ?w', [])"
    by (simp add: masterEvent_def SendingToken_event_def WaitClientPacketDoneState_construct_def)
  then have rest: "rest_ok st_waitClientPacketDone ?w'"
    using sendingToken_outcome [OF at(3)] by (auto simp: outcome_def)
  obtain m' where "postEvent masterDescription rx_pkt_grant_token m = Some (Inr m')"
    "at_rest st_waitClientPacketDone m'" "m_world m' = ?w'"
    using post_moves [OF at(1,2) step rest] by blast
  then show ?thesis by (simp add: masterPacketReceived_def lineKept_env)
qed

lemma request_kept:
  assumes "at_rest st_queryAddress m" and "sizeofHeader address_request \<le> length bb"
  shows "\<exists>m'. masterPacketReceived (Some address_request) bb m = Some (Inr m') \<and> at_rest st_waitAddressReply m' \<and>
    lineKept (m_world m) (m_world m') \<and> tq_txMsg (mw_tx (m_world m')) = tq_txMsg (mw_tx (m_world m)) \<and>
    tq_ownAddress (mw_tx (m_world m')) = tq_ownAddress (mw_tx (m_world m))"
proof -
  let ?r = "layout_AddressRequest bb" and ?w = "m_world m"
  let ?w1 = "receivedAddressRequest ?r ?w"
  let ?w' = "startTimer masterTokenClientTimeout (cleanTimer ?w1)"
  have ev: "rx_pkt_address_request ?r \<noteq> timer_timeout" by simp
  note at = at_rest_event [OF assms(1) ev]
  have step: "masterEvent st_queryAddress (rx_pkt_address_request ?r) ?w = Inr (st_waitAddressReply, ?w', [])"
    by (simp add: masterEvent_def QueryAddressState_event_def WaitAddressReply_construct_def)
  then have rest: "rest_ok st_waitAddressReply ?w'"
    using queryAddress_outcome [OF at(3)] by (auto simp: outcome_def)
  obtain m' where m': "postEvent masterDescription (rx_pkt_address_request ?r) m = Some (Inr m')"
    "at_rest st_waitAddressReply m'" "m_world m' = ?w'"
    using post_moves [OF at(1,2) step rest] by blast
  have inv: "vq_inv (ms_ready (ah_scheduler (mw_ah ?w)))"
    using assms(1) by (simp add: at_rest_def rest_ok_def core_ok_def sched_ok_def sched_inv_def)
  have reply: "lineKept v (sendAddressReply b uid v)" "tq_txMsg (mw_tx (sendAddressReply b uid v)) = tq_txMsg (mw_tx v)"
    "tq_ownAddress (mw_tx (sendAddressReply b uid v)) = tq_ownAddress (mw_tx v)" for b uid v
    by (simp_all add: master_sends sendMsg_def) (simp add: lineKept_env sendAddressReply_def)
  have "lineKept ?w (assign ?r ?w)" "mw_tx (assign ?r ?w) = mw_tx ?w"
    using inv by (simp_all add: lineKept_def assign_def postActionNow_def addActionNow_def currentAction_def waitingEls_def readyLine_def)
  then have one: "lineKept ?w ?w1 \<and> tq_txMsg (mw_tx ?w1) = tq_txMsg (mw_tx ?w) \<and> tq_ownAddress (mw_tx ?w1) = tq_ownAddress (mw_tx ?w)"
    using reply lineKept_env [of ?w ?w] lineKept_trans [OF \<open>lineKept ?w (assign ?r ?w)\<close> reply(1)] unfolding receivedAddressRequest_eq
    by (simp split: option.splits)
  have "lineKept ?w1 ?w'" by (rule lineKept_env) simp_all
  then have "lineKept ?w ?w'" using one lineKept_trans by blast
  then show ?thesis using m' assms(2) one by (simp add: masterPacketReceived_def toHeader_def)
qed

end
