(* ===== verification/Network_Liveness.thy ===== *)
theory Network_Liveness
  imports Network_Delivery Master_Line
begin

text \<open>
  Progress of the network of \<open>Bus_Network\<close>: left to itself, with nothing but the bus that delivers frames and
  the clock that lets timers expire, the network comes to every packet that waits at a node the master knows. The
  master works through its line (\<open>Master_Line\<close>), every action ends after a few steps, and the token of a waiting
  node only moves forward.
\<close>

section \<open>Steps without the hosts\<close>

definition expired :: "nat \<Rightarrow> BusNetwork \<Rightarrow> bool" where
  "expired i net \<longleftrightarrow> (\<exists>m p. sn_master (bn_master net) = Some m \<and> p \<in> set (ts_pending (mw_ts (m_world m))) \<and> pt_id p = i \<and>
     pt_deadline p \<le> ts_now (mw_ts (m_world m)))"

inductive net_runs :: "BusNetwork \<Rightarrow> BusNetwork \<Rightarrow> bool" for net where
  here: "net_runs net net"
| deliver: "net_runs net net1 \<Longrightarrow> bn_wire net1 = [f] \<Longrightarrow> length (snd u) = 4 \<Longrightarrow> netDeliver u f net1 = Some (Inr net2) \<Longrightarrow>
    net_runs net net2"
| timer: "net_runs net net1 \<Longrightarrow> bn_wire net1 = [] \<Longrightarrow> expired i net1 \<Longrightarrow> netTimer i net1 = Some (Inr net2) \<Longrightarrow> net_runs net net2"
| time: "net_runs net net1 \<Longrightarrow> net_runs net (netTime dt net1)"

lemma net_runs_reachable: "net_runs net net' \<Longrightarrow> net_reachable net \<Longrightarrow> net_reachable net'"
  by (induction rule: net_runs.induct) (auto intro: net_reachable.intros)

lemma net_runs_trans:
  assumes "net_runs net net1" and "net_runs net1 net2"
  shows "net_runs net net2"
  using assms(2,1) by (induction rule: net_runs.induct) (auto intro: net_runs.intros)

section \<open>What a message leaves of the queues\<close>

lemma dispatch_queue:
  assumes "rxCommand u (msgType msg) (msgBytes msg) c = Inr c1" and "wf_msg msg" and "msg \<noteq> Msg_Grant (clientAddress (pc_tx c))"
  shows "tq_txMsg (pc_tx c1) = tq_txMsg (pc_tx c)"
proof (cases msg)
  case (Msg_Grant a)
  have "gt_m_tokenReceiver (layout_GrantToken (grantMsg a)) = a" by (simp add: grantMsg_def mkGrantToken_def layout_simps)
  then show ?thesis using assms(1,3) Msg_Grant by (auto simp: rxCommand_def toHeader_def Let_def split: if_splits)
next
  case (Msg_Answer p)
  then have "msgType msg \<in> {send_packet, mac_update, return_token}" using assms(2) by (auto simp: answer_def)
  then show ?thesis using assms(1) by (auto simp: rxCommand_def toHeader_def rbind_eq_Inr Let_def split: if_splits option.splits)
qed (use assms(1) in \<open>auto simp: rxCommand_def toHeader_def rxDiscoveryPacket_def rxAddrReplyPacket_def sendMasterPacket_def
    sendMsg_def setAddress_def txq_masterStarted_def rbind_eq_Inr Let_def split: if_splits option.splits prod.splits\<close>)

lemma client_after:
  assumes "on_bus n" and "sn_master n = None" and "length (uidOf n) = 8" and "wf_msg msg"
    and "nodeReceive u (frameOf msg) n = Some (Inr n')"
  shows "clientHeard u msg n n'" and "msg \<noteq> Msg_Grant (addrOf n) \<Longrightarrow> queueOf n' = queueOf n"
proof -
  have n: "tq_sent (sn_txQueue n) = []" "list_all answer (tq_txMsg (sn_txQueue n))"
    using assms(1) by (simp_all add: on_bus_def node_ok_def)
  show "clientHeard u msg n n'" using client_hears [OF assms(1-4), of u] assms(5) by auto
  obtain c1 where c1: "rxCommand u (msgType msg) (msgBytes msg) (sn_ptc n) = Inr c1"
    using dispatch_heard [OF assms(4) n assms(3)] by blast
  assume "msg \<noteq> Msg_Grant (addrOf n)"
  then show "queueOf n' = queueOf n"
    using node_hears_client [OF assms(1,2) msg_facts [OF assms(4)] c1] dispatch_queue [OF c1 assms(4)] assms(5) by auto
qed

lemma master_after:
  assumes "on_bus n" and "sn_master n = Some m" and "length (uidOf n) = 8" and "wf_msg msg"
    and "nodeReceive u (frameOf msg) n = Some (Inr n')"
  obtains q m' where "heard u msg (uidOf n) (sn_txQueue n) q" and "msg \<noteq> Msg_Grant (addrOf n) \<longrightarrow> tq_txMsg q = queueOf n"
    and "masterPacketReceived (Some (msgType msg)) (msgBytes msg) (m\<lparr>m_world := (m_world m)\<lparr>mw_tx := q\<rparr>\<rparr>) = Some (Inr m')"
    and "sn_master n' = Some m'" and "sn_txQueue n' = (mw_tx (m_world m'))\<lparr>tq_sent := []\<rparr>"
    and "framesOf n' = map encodePacket (tq_sent (mw_tx (m_world m')))"
proof -
  have n: "tq_sent (sn_txQueue n) = []" "list_all answer (tq_txMsg (sn_txQueue n))" "reachable m"
    using assms(1,2) by (simp_all add: on_bus_def node_ok_def)
  obtain c1 where c1: "rxCommand u (msgType msg) (msgBytes msg) (sn_ptc n) = Inr c1" "heard u msg (uidOf n) (sn_txQueue n) (pc_tx c1)"
    using dispatch_heard [OF assms(4) n(1,2) assms(3)] by blast
  obtain m' where m': "masterPacketReceived (Some (msgType msg)) (msgBytes msg) (m\<lparr>m_world := (m_world m)\<lparr>mw_tx := pc_tx c1\<rparr>\<rparr>) = Some (Inr m')"
    using reachable_step_total [OF reachable_tx [OF n(3)], of "Rx_Packet (Some (msgType msg)) (msgBytes msg)"] by auto
  have q: "msg \<noteq> Msg_Grant (addrOf n) \<longrightarrow> tq_txMsg (pc_tx c1) = queueOf n" using dispatch_queue [OF c1(1) assms(4)] by auto
  from node_hears_master [OF assms(1,2) msg_facts [OF assms(4)] c1(1) m'] show thesis
    using assms(5) by (auto intro: that [OF c1(2) q m'])
qed

lemma at_rest_unique: "at_rest s m \<Longrightarrow> at_rest s' m \<Longrightarrow> s = s'"
  using inState_flat [of s m] inState_flat [of s' m] by (auto simp: at_rest_def)

section \<open>A packet that waits\<close>

text \<open>The node \<open>i\<close> has the address \<open>a\<close>, which the master knows, and the packet \<open>p\<close> is the first of its queue.\<close>

definition waitsAt :: "nat \<Rightarrow> LocalAddress \<Rightarrow> byte_vec \<Rightarrow> byte_vec list \<Rightarrow> BusNetwork \<Rightarrow> bool" where
  "waitsAt i a p ps net \<longleftrightarrow> i < length (bn_nodes net) \<and> addrOf (bn_nodes net ! i) = a \<and> a \<in> set allAddresses \<and>
     queueOf (bn_nodes net ! i) = p # ps"

definition sentFrom :: "nat \<Rightarrow> byte_vec \<Rightarrow> byte_vec list \<Rightarrow> BusNetwork \<Rightarrow> bool" where
  "sentFrom i p ps net \<longleftrightarrow> i < length (bn_nodes net) \<and> bn_wire net = [encodePacket p] \<and> queueOf (bn_nodes net ! i) = ps"

definition isToken :: "LocalAddress \<Rightarrow> Action \<Rightarrow> bool" where
  "isToken a x \<longleftrightarrow> ac_action x = send_token \<and> ac_address x = a"

text \<open>The network after a step of the master that went through the line \<open>L\<close>: a token for \<open>a\<close> is now in use, not
  yet answered, or has moved forward.\<close>

definition wentThrough :: "LocalAddress \<Rightarrow> Action list \<Rightarrow> BusNetwork \<Rightarrow> bool" where
  "wentThrough a L net \<longleftrightarrow> (\<exists>s m. net_ok s m net \<and> (s = st_waitClientPacketDone \<longrightarrow> \<not> isToken a (currentAction (m_world m))) \<and>
     (\<forall>k < length L. isToken a (L ! k) \<longrightarrow> isToken a (currentAction (m_world m)) \<or>
        (\<exists>k' < k. k' < length (readyLine (m_world m)) \<and> isToken a (readyLine (m_world m) ! k'))))"

text \<open>What the master of the network before it has in line is in the line it went through.\<close>

definition inLine :: "MasterWorld \<Rightarrow> Action list \<Rightarrow> bool" where
  "inLine w L \<longleftrightarrow> (\<exists>ys. L = readyLine w @ ys) \<and> set (dueLine w) \<subseteq> set L"

lemma inLine_lineup: "inLine w (lineup w)"
  by (auto simp: inLine_def lineup_def)

lemma inLine_kept: "lineKept w w' \<Longrightarrow> inLine w' L \<Longrightarrow> inLine w L"
  by (auto simp: lineKept_def inLine_def dueLine_def)

lemma null_not_known: "null_addr \<notin> set allAddresses"
  by code_simp

text \<open>A search of the master does not skip the token of a node with something to send.\<close>

lemma resumed_token:
  assumes "resumed q L s w'" and "clientAddress q = a \<longrightarrow> tq_txMsg q \<noteq> []" and "k < length L" and "isToken a (L ! k)"
  shows "isToken a (currentAction w') \<or> (\<exists>k' < k. k' < length (readyLine w') \<and> isToken a (readyLine w' ! k'))"
proof -
  have busy: "\<not> idleToken q (L ! k)" using assms(2,4) by (auto simp: idleToken_def isToken_def)
  show ?thesis
  proof (cases "s = st_idle")
    case True
    then show ?thesis using assms(1,3) busy by (auto simp: resumed_def list_all_length)
  next
    case False
    then obtain skipped where L: "L = skipped @ currentAction w' # readyLine w'" "list_all (idleToken q) skipped"
      using assms(1) by (auto simp: resumed_def)
    have "length skipped \<le> k"
    proof (rule ccontr)
      assume "\<not> length skipped \<le> k"
      then show False using L busy by (simp add: nth_append list_all_length)
    qed
    then show ?thesis using L(1) assms(3,4)
      by (cases "k - length skipped") (auto simp: nth_append intro!: exI [of _ "k - length skipped - 1"])
  qed
qed

section \<open>Delivery\<close>

abbreviation theU :: "byte \<times> Crc32" where
  "theU \<equiv> (0, [0, 0, 0, 0])"

text \<open>All parts of the network after a frame.\<close>

lemma deliver_step:
  assumes "net_reachable net" and "net_ok s m net" and "bn_wire net = [frameOf msg]" and "wf_msg msg"
  obtains net' q m' s' where "net_runs net net'" and "net_reachable net'" and "net_ok s' m' net'"
    and "heard theU msg (uidOf (bn_master net)) (sn_txQueue (bn_master net)) q"
    and "msg \<noteq> Msg_Grant (addrOf (bn_master net)) \<longrightarrow> tq_txMsg q = queueOf (bn_master net)"
    and "masterPacketReceived (Some (msgType msg)) (msgBytes msg) (m\<lparr>m_world := (m_world m)\<lparr>mw_tx := q\<rparr>\<rparr>) = Some (Inr m')"
    and "sn_txQueue (bn_master net') = (mw_tx (m_world m'))\<lparr>tq_sent := []\<rparr>"
    and "list_all2 (\<lambda>n n'. addrOf n' = addrAfter msg (uidOf n) (sn_txQueue n) \<and> (msg \<noteq> Msg_Grant (addrOf n) \<longrightarrow> queueOf n' = queueOf n))
      (bn_clients net) (bn_clients net')"
    and "set (map encodePacket (tq_sent (mw_tx (m_world m')))) \<subseteq> set (bn_wire net')"
    and "\<forall>f \<in> set (bn_wire net'). f \<in> set (map encodePacket (tq_sent (mw_tx (m_world m')))) \<or>
      (\<exists>n \<in> set (bn_clients net). \<exists>out. says theU msg (uidOf n) (sn_txQueue n) out \<and> f \<in> set (map encodePacket out))"
proof -
  note net = net_ok_parts [OF assms(2)]
  have u: "length (snd theU) = 4" by simp
  have inv: "net_inv net" using assms(2) by (auto simp: net_inv_def)
  obtain net' where net': "netDeliver theU (frameOf msg) net = Some (Inr net')" "net_inv net'"
    using deliver_ok [OF inv assms(3) u] by blast
  obtain ms where ms: "bn_nodes net' = map onWire ms" "bn_wire net' = concat (map framesOf ms)"
    "list_all2 (\<lambda>n n'. nodeReceive theU (frameOf msg) n = Some (Inr n')) (bn_nodes net) ms"
    by (rule netDeliver_parts [OF net'(1)])
  obtain n' ns where n': "ms = n' # ns" "nodeReceive theU (frameOf msg) (bn_master net) = Some (Inr n')"
    "list_all2 (\<lambda>n n'. nodeReceive theU (frameOf msg) n = Some (Inr n')) (bn_clients net) ns"
    using ms(3) by (auto simp: bn_nodes_def list_all2_Cons1)
  obtain q m' where q: "heard theU msg (uidOf (bn_master net)) (sn_txQueue (bn_master net)) q"
    "msg \<noteq> Msg_Grant (addrOf (bn_master net)) \<longrightarrow> tq_txMsg q = queueOf (bn_master net)"
    "masterPacketReceived (Some (msgType msg)) (msgBytes msg) (m\<lparr>m_world := (m_world m)\<lparr>mw_tx := q\<rparr>\<rparr>) = Some (Inr m')"
    "sn_master n' = Some m'" "sn_txQueue n' = (mw_tx (m_world m'))\<lparr>tq_sent := []\<rparr>"
    "framesOf n' = map encodePacket (tq_sent (mw_tx (m_world m')))"
    by (rule master_after [OF net(1-3) assms(4) n'(2)])
  obtain s' m2 where ok: "net_ok s' m2 net'" using net'(2) by (auto simp: net_inv_def)
  have parts: "bn_master net' = onWire n'" "bn_clients net' = map onWire ns" using ms(1) n'(1) by (simp_all add: bn_nodes_def)
  then have "m2 = m'" using net_ok_parts(2) [OF ok] q(4) by simp
  have "on_bus n \<and> sn_master n = None \<and> length (uidOf n) = 8" if "n \<in> set (bn_clients net)" for n
    using assms(2) that by (auto simp: net_ok_def bn_nodes_def list_all_iff booked_def compatible_def)
  then have each: "clientHeard theU msg n n'" "msg \<noteq> Msg_Grant (addrOf n) \<longrightarrow> queueOf n' = queueOf n"
    if "n \<in> set (bn_clients net)" "nodeReceive theU (frameOf msg) n = Some (Inr n')" for n n'
    using client_after [OF _ _ _ assms(4) that(2)] that(1) by auto
  then have cl: "list_all2 (\<lambda>n n'. addrOf n' = addrAfter msg (uidOf n) (sn_txQueue n) \<and> (msg \<noteq> Msg_Grant (addrOf n) \<longrightarrow> queueOf n' = queueOf n))
      (bn_clients net) (bn_clients net')"
    using n'(3) unfolding parts(2) list_all2_map2 onWire_simps by (auto simp: clientHeard_def intro: list.rel_mono_strong)
  have "list_all2 (clientHeard theU msg) (bn_clients net) ns" using n'(3) each(1) by (auto intro: list.rel_mono_strong)
  then have said: "\<exists>n \<in> set (bn_clients net). \<exists>out. says theU msg (uidOf n) (sn_txQueue n) out \<and> framesOf n2 = map encodePacket out"
    if "n2 \<in> set ns" for n2
    using that by (metis (no_types, lifting) clientHeard_def in_set_conv_nth list_all2_conv_all_nth)
  show thesis
  proof (rule that)
    show "net_runs net net'" by (rule net_runs.deliver [OF net_runs.here assms(3) u net'(1)])
    then show "net_reachable net'" using net_runs_reachable assms(1) by blast
    show "net_ok s' m' net'" using ok \<open>m2 = m'\<close> by simp
    show "set (map encodePacket (tq_sent (mw_tx (m_world m')))) \<subseteq> set (bn_wire net')" using q(6) ms(2) n'(1) by simp
    show "\<forall>f \<in> set (bn_wire net'). f \<in> set (map encodePacket (tq_sent (mw_tx (m_world m')))) \<or>
      (\<exists>n \<in> set (bn_clients net). \<exists>out. says theU msg (uidOf n) (sn_txQueue n) out \<and> f \<in> set (map encodePacket out))"
    proof
      fix f assume "f \<in> set (bn_wire net')"
      then consider "f \<in> set (framesOf n')" | n2 where "n2 \<in> set ns" "f \<in> set (framesOf n2)" using ms(2) n'(1) by auto
      then show "f \<in> set (map encodePacket (tq_sent (mw_tx (m_world m')))) \<or>
        (\<exists>n \<in> set (bn_clients net). \<exists>out. says theU msg (uidOf n) (sn_txQueue n) out \<and> f \<in> set (map encodePacket out))"
        using q(6) by cases (simp, metis said)
    qed
  qed (use q parts cl in simp_all)
qed

lemma only_owner:
  assumes "net_ok s m net" and "waitsAt i a p ps net" and "addrOf (bn_master net) = a"
  shows "i = 0"
proof (rule ccontr)
  assume "i \<noteq> 0"
  note net = net_ok_parts [OF assms(1)]
  show False
    using length_filter_le_1D [OF addresses_unique [OF net(4,5), of a], of 0 i] assms(2,3) \<open>i \<noteq> 0\<close>
    by (simp add: waitsAt_def bn_nodes_def)
qed

text \<open>After a search of the master, the packet is on the wire, or it still waits and its token has moved forward.\<close>

lemma search_done:
  assumes "net_ok s m net" and "waitsAt i a p ps net" and "net_ok s' m' net'"
    and "clientAddress q = addrOf (bn_master net)" "tq_txMsg q = queueOf (bn_master net)" "tq_sent q = []"
    and "sn_txQueue (bn_master net') = (mw_tx (m_world m'))\<lparr>tq_sent := []\<rparr>"
    and "list_all2 (\<lambda>n n'. addrOf n' = addrOf n \<and> queueOf n' = queueOf n) (bn_clients net) (bn_clients net')"
    and "set (map encodePacket (tq_sent (mw_tx (m_world m')))) \<subseteq> set (bn_wire net')"
    and "resumed q L s' (m_world m')" and "speaks s' (m_world m') q"
  shows "sentFrom i p ps net' \<or> waitsAt i a p ps net' \<and> wentThrough a L net'"
proof -
  have len: "length (bn_clients net') = length (bn_clients net)" using list_all2_lengthD [OF assms(8)] by simp
  have own: "addrOf (bn_master net) = a \<Longrightarrow> i = 0" using only_owner [OF assms(1,2)] by simp
  have mine: "tq_txMsg q = p # ps" "clientAddress q = a" if "i = 0" using assms(2,4,5) that by (simp_all add: waitsAt_def bn_nodes_def)
  have short: "length (bn_wire net') \<le> 1" using net_ok_parts(7) [OF assms(3)] by (cases s') auto
  show ?thesis
  proof (cases "i = 0 \<and> s' = st_waitClientPacketDone")
    case True
    then have tx: "mw_tx (m_world m') = (sendMsg p q)\<lparr>tq_txMsg := ps\<rparr>" using assms(11) mine by auto
    then have "encodePacket p \<in> set (bn_wire net')" using assms(6,9) by (simp add: sendMsg_def)
    then have "bn_wire net' = [encodePacket p]" using short by (cases "bn_wire net'") auto
    then show ?thesis using True tx assms(7) by (simp add: sentFrom_def bn_nodes_def)
  next
    case False
    have "waitsAt i a p ps net'"
    proof (cases i)
      case 0
      then have "tq_txMsg (mw_tx (m_world m')) = tq_txMsg q" "clientAddress (mw_tx (m_world m')) = clientAddress q"
        using assms(11) False by (cases s'; simp add: sendMsg_def clientAddress_def)+
      then show ?thesis using mine 0 assms(2,7) by (simp add: waitsAt_def bn_nodes_def clientAddress_def)
    next
      case (Suc j)
      then show ?thesis using assms(2,8) len by (simp add: waitsAt_def bn_nodes_def list_all2_conv_all_nth)
    qed
    moreover have "s' = st_waitClientPacketDone \<longrightarrow> \<not> isToken a (currentAction (m_world m'))"
      using assms(4,10) own False by (auto simp: resumed_def isToken_def)
    moreover have "clientAddress q = a \<longrightarrow> tq_txMsg q \<noteq> []" using own mine assms(4) by auto
    ultimately show ?thesis using assms(3) resumed_token [OF assms(10)] unfolding wentThrough_def by blast
  qed
qed

lemma deliver_search:
  assumes "net_reachable net" and "net_ok s m net" and "bn_wire net = [frameOf msg]" and "wf_msg msg"
    and "\<And>b. msg \<noteq> Msg_Grant b" and "msg \<noteq> Msg_Discovery"
    and "\<forall>n \<in> set (bn_nodes net). addrAfter msg (uidOf n) (sn_txQueue n) = addrOf n"
    and "\<And>q. searches (masterPacketReceived (Some (msgType msg)) (msgBytes msg) (m\<lparr>m_world := (m_world m)\<lparr>mw_tx := q\<rparr>\<rparr>))
      ((m_world m)\<lparr>mw_tx := q\<rparr>)"
    and "waitsAt i a p ps net"
  shows "\<exists>net'. net_runs net net' \<and> net_reachable net' \<and>
    (sentFrom i p ps net' \<or> waitsAt i a p ps net' \<and> wentThrough a (lineup (m_world m)) net')"
proof -
  obtain net' q m' s' where r: "net_runs net net'" "net_reachable net'" "net_ok s' m' net'"
    "heard theU msg (uidOf (bn_master net)) (sn_txQueue (bn_master net)) q"
    "msg \<noteq> Msg_Grant (addrOf (bn_master net)) \<longrightarrow> tq_txMsg q = queueOf (bn_master net)"
    "masterPacketReceived (Some (msgType msg)) (msgBytes msg) (m\<lparr>m_world := (m_world m)\<lparr>mw_tx := q\<rparr>\<rparr>) = Some (Inr m')"
    "sn_txQueue (bn_master net') = (mw_tx (m_world m'))\<lparr>tq_sent := []\<rparr>"
    "list_all2 (\<lambda>n n'. addrOf n' = addrAfter msg (uidOf n) (sn_txQueue n) \<and> (msg \<noteq> Msg_Grant (addrOf n) \<longrightarrow> queueOf n' = queueOf n))
      (bn_clients net) (bn_clients net')"
    "set (map encodePacket (tq_sent (mw_tx (m_world m')))) \<subseteq> set (bn_wire net')"
    "\<forall>f \<in> set (bn_wire net'). f \<in> set (map encodePacket (tq_sent (mw_tx (m_world m')))) \<or>
      (\<exists>n \<in> set (bn_clients net). \<exists>out. says theU msg (uidOf n) (sn_txQueue n) out \<and> f \<in> set (map encodePacket out))"
    by (rule deliver_step [OF assms(1-4)])
  have rest: "at_rest s' m'" by (rule net_ok_parts(4) [OF r(3)])
  have "lineup ((m_world m)\<lparr>mw_tx := q\<rparr>) = lineup (m_world m)" by (rule line_env) simp_all
  then have res: "resumed q (lineup (m_world m)) s' (m_world m')" "speaks s' (m_world m') q"
    using assms(8) [of q] r(6) at_rest_unique [OF rest] by (auto simp: searches_def)
  have q: "clientAddress q = addrOf (bn_master net)" "tq_txMsg q = queueOf (bn_master net)" "tq_sent q = []"
    using r(4,5) assms(5-7) by (cases msg; auto simp: heard_def bn_nodes_def)+
  have cl: "list_all2 (\<lambda>n n'. addrOf n' = addrOf n \<and> queueOf n' = queueOf n) (bn_clients net) (bn_clients net')"
    using r(8) assms(5,7) by (auto simp: bn_nodes_def elim!: list.rel_mono_strong)
  from search_done [OF assms(2,9) r(3) q r(7) cl r(9) res] show ?thesis using r(1,2) by blast
qed

text \<open>A run to the end of the present action.\<close>

definition comesToLine :: "nat \<Rightarrow> LocalAddress \<Rightarrow> byte_vec \<Rightarrow> byte_vec list \<Rightarrow> BusMaster \<Rightarrow> BusNetwork \<Rightarrow> bool" where
  "comesToLine i a p ps m net \<longleftrightarrow> (\<exists>net'. net_runs net net' \<and> net_reachable net' \<and>
     (sentFrom i p ps net' \<or> waitsAt i a p ps net' \<and> (\<exists>L. inLine (m_world m) L \<and> wentThrough a L net')))"

lemma comesToLine_step:
  assumes "net_runs net net'" and "comesToLine i a p ps m' net'" and "inLine (m_world m') \<le> inLine (m_world m)"
  shows "comesToLine i a p ps m net"
proof -
  obtain net2 where r: "net_runs net' net2" "net_reachable net2"
    "sentFrom i p ps net2 \<or> waitsAt i a p ps net2 \<and> (\<exists>L. inLine (m_world m') L \<and> wentThrough a L net2)"
    using assms(2) by (auto simp: comesToLine_def)
  have "net_runs net net2" by (rule net_runs_trans [OF assms(1) r(1)])
  then show ?thesis using r(2,3) assms(3) unfolding comesToLine_def le_fun_def le_bool_def by blast
qed

lemma started_search:
  assumes "net_reachable net" and "net_ok st_startMaster m net" and "waitsAt i a p ps net"
  shows "comesToLine i a p ps m net"
proof -
  note net = net_ok_parts [OF assms(2)]
  have wire: "bn_wire net = [frameOf Msg_Started]" using net(7) by simp
  have stay: "\<forall>n \<in> set (bn_nodes net). addrAfter Msg_Started (uidOf n) (sn_txQueue n) = addrOf n" using net(7) by auto
  have wf: "wf_msg Msg_Started" "\<And>b. Msg_Started \<noteq> Msg_Grant b" "Msg_Started \<noteq> Msg_Discovery" by simp_all
  have search: "searches (masterPacketReceived (Some (msgType Msg_Started)) (msgBytes Msg_Started) (m\<lparr>m_world := (m_world m)\<lparr>mw_tx := q\<rparr>\<rparr>))
      ((m_world m)\<lparr>mw_tx := q\<rparr>)" for q
    using started_line [OF at_rest_tx [OF net(4)], of startedMsg q] by simp
  show ?thesis using deliver_search [OF assms(1,2) wire wf stay search assms(3)] inLine_lineup unfolding comesToLine_def by blast
qed

lemma answer_search:
  assumes "net_reachable net" and "net_ok st_waitClientPacketDone m net" and "waitsAt i a p ps net"
    and "answer d" and "bn_wire net = [frameOf (Msg_Answer d)]"
  shows "comesToLine i a p ps m net"
proof -
  note net = net_ok_parts [OF assms(2)]
  let ?msg = "Msg_Answer d"
  have ty: "msgType ?msg \<in> {send_packet, mac_update, return_token}" using assms(4) by (auto simp: answer_def)
  have wf: "wf_msg ?msg" "\<And>b. ?msg \<noteq> Msg_Grant b" "?msg \<noteq> Msg_Discovery"
    "\<forall>n \<in> set (bn_nodes net). addrAfter ?msg (uidOf n) (sn_txQueue n) = addrOf n" using assms(4) by simp_all
  have search: "searches (masterPacketReceived (Some (msgType ?msg)) (msgBytes ?msg) (m\<lparr>m_world := (m_world m)\<lparr>mw_tx := q\<rparr>\<rparr>))
      ((m_world m)\<lparr>mw_tx := q\<rparr>)" for q
    using answer_line [OF at_rest_tx [OF net(4)] ty, of "msgBytes ?msg" q] by simp
  show ?thesis using deliver_search [OF assms(1,2,5) wf search assms(3)] inLine_lineup unfolding comesToLine_def by blast
qed

section \<open>Time and timers\<close>

text \<open>The master after some time.\<close>

abbreviation later :: "time \<Rightarrow> BusMaster \<Rightarrow> BusMaster" where
  "later dt m \<equiv> m\<lparr>m_world := (m_world m)\<lparr>mw_ts := ts_advance \<bar>dt\<bar> (mw_ts (m_world m))\<rparr>\<rparr>"

lemma time_step:
  assumes "net_reachable net" and "net_ok s m net" and "waitsAt i a p ps net"
  shows "net_runs net (netTime dt net)" "net_reachable (netTime dt net)" "net_ok s (later dt m) (netTime dt net)"
    "waitsAt i a p ps (netTime dt net)" "bn_wire (netTime dt net) = bn_wire net"
    "inLine (m_world (later dt m)) \<le> inLine (m_world m)"
proof -
  show runs: "net_runs net (netTime dt net)" by (rule net_runs.time [OF net_runs.here])
  then show "net_reachable (netTime dt net)" using net_runs_reachable assms(1) by blast
  obtain s' m' where ok: "net_ok s' m' (netTime dt net)"
    using net_time_ok [of net dt] assms(2) by (auto simp: net_inv_def)
  have "sn_master (bn_master (netTime dt net)) = Some (later dt m)"
    using net_ok_parts(2) [OF assms(2)] by (simp add: netTime_def nodeTime_def)
  then have m': "m' = later dt m" using net_ok_parts(2) [OF ok] by simp
  have "at_rest s (later dt m)"
    using net_ok_parts(4) [OF assms(2)] rest_ok_advance [of s "m_world m" "\<bar>dt\<bar>"] by (simp add: at_rest_def)
  then have "s' = s" using net_ok_parts(4) [OF ok] m' at_rest_unique by blast
  then show "net_ok s (later dt m) (netTime dt net)" using ok m' by simp
  show "waitsAt i a p ps (netTime dt net)"
    using assms(3) by (cases i) (auto simp: waitsAt_def netTime_def bn_nodes_def nodeTime_def)
  show "bn_wire (netTime dt net) = bn_wire net" by (simp add: netTime_def)
  show "inLine (m_world (later dt m)) \<le> inLine (m_world m)"
    by (auto simp: inLine_def le_fun_def readyLine_def dueLine_def waitingEls_def due_def)
qed

lemma timer_search:
  assumes "net_reachable net" and "net_ok s m net" and "waitsAt i a p ps net" and "bn_wire net = []" and "expired j net"
    and "(j, wakeup s) \<in> ts_callbacks (mw_ts (m_world m))"
  shows "comesToLine i a p ps m net"
proof -
  let ?M = "bn_master net"
  note net = net_ok_parts [OF assms(2)]
  have inv: "net_inv net" using assms(2) by (auto simp: net_inv_def)
  obtain net' where net': "netTimer j net = Some (Inr net')" "net_inv net'" using net_timer_ok [OF inv assms(4)] by blast
  have runs: "net_runs net net'" by (rule net_runs.timer [OF net_runs.here assms(4,5) net'(1)])
  then have reach: "net_reachable net'" using net_runs_reachable assms(1) by blast
  obtain n' where n': "nodeTimer j ?M = Some (Inr n')" "net' = net\<lparr>bn_master := onWire n', bn_wire := framesOf n'\<rparr>"
    using assms(4) net'(1) by (auto simp: netTimer_def rbind_eq_Inr)
  obtain b m2 where m2: "timerFired j (m\<lparr>m_world := (m_world m)\<lparr>mw_tx := sn_txQueue ?M, mw_rxBusy := b\<rparr>\<rparr>) = Some (Inr m2)"
    "sn_txQueue n' = (mw_tx (m_world m2))\<lparr>tq_sent := []\<rparr>" "deliveredAt n' = deliveredAt ?M"
    "framesOf n' = map encodePacket (tq_sent (mw_tx (m_world m2)))" "sn_master n' = Some m2" "pollsReceiver j m \<longrightarrow> \<not> b"
    by (rule nodeTimer_parts [OF net(1,2) n'(1)])
  define m1 where "m1 = m\<lparr>m_world := (m_world m)\<lparr>mw_tx := sn_txQueue ?M, mw_rxBusy := b\<rparr>\<rparr>"
  have w1: "mw_ts (m_world m1) = mw_ts (m_world m)" "mw_tx (m_world m1) = sn_txQueue ?M" "mw_rxBusy (m_world m1) = b"
    "currentAction (m_world m1) = currentAction (m_world m)"
    by (simp_all add: m1_def currentAction_def)
  have line: "lineup (m_world m1) = lineup (m_world m)" by (rule line_env) (simp_all add: m1_def)
  have rest: "at_rest s m1" unfolding m1_def using net(4) by (rule at_rest_world) simp_all
  have s: "s \<notin> {st_startMaster, st_sendingToken}" and idle: "s = st_idle \<longrightarrow> doNothing (currentAction (m_world m1))"
    using net(7) assms(4) w1(4) by (cases s; auto)+
  have "\<And>t. inState t m \<longleftrightarrow> t = s" using net(4) inState_flat by (auto simp: at_rest_def)
  then have busy: "s \<noteq> st_idle \<longrightarrow> \<not> mw_rxBusy (m_world m1)"
    using m2(6) s assms(6) w1(3) by (cases s) (auto simp: pollsReceiver_def wakeup_def armed_iff)
  have fired: "timerFired j m1 = Some (Inr m2)" using m2(1) by (simp only: m1_def)
  have "searches (timerFired j m1) (m_world m1)"
    by (rule timer_line [OF rest s idle _ busy]) (simp add: w1(1) assms(6))
  then obtain s' where s': "at_rest s' m2" "speaks s' (m_world m2) (sn_txQueue ?M)"
    "resumed (sn_txQueue ?M) (lineup (m_world m)) s' (m_world m2)"
    using fired w1(2) line unfolding searches_def by auto
  obtain s2 where ok: "net_ok s2 m2 net'"
    using net'(2) net_ok_parts(2) m2(5) n'(2) by (fastforce simp: net_inv_def)
  then have "s2 = s'" using net_ok_parts(4) s'(1) at_rest_unique by blast
  have q: "tq_sent (sn_txQueue ?M) = []" using net(1) by (simp add: on_bus_def node_ok_def)
  have "sentFrom i p ps net' \<or> waitsAt i a p ps net' \<and> wentThrough a (lineup (m_world m)) net'"
    by (rule search_done [OF assms(2,3) ok refl refl q])
      (use s' \<open>s2 = s'\<close> m2(2,4) n'(2) in \<open>simp_all add: list_all2_refl del: speaks.simps\<close>)
  then show ?thesis using runs reach inLine_lineup unfolding comesToLine_def by blast
qed

text \<open>On a quiet bus, the timer that the master's state waits for ends the action.\<close>

lemma quiet_search:
  assumes "net_reachable net" and "net_ok s m net" and "waitsAt i a p ps net" and "bn_wire net = []"
  shows "comesToLine i a p ps m net"
proof -
  let ?w = "m_world m"
  note net = net_ok_parts [OF assms(2)]
  have "rest_ok s ?w" "s = st_idle \<longrightarrow> doNothing (currentAction ?w)" using net(4,7) by (auto simp: at_rest_def)
  then have "cb_count (wakeup s) ?w = 1" by (auto simp: rest_ok_def wakeup_def)
  then obtain t where t: "t \<in> set (ts_pending (mw_ts ?w))" "pt_cb t = wakeup s"
    unfolding cb_count_def by (metis (mono_tags, lifting) filter_False list.size(3) zero_neq_one)
  let ?dt = "\<bar>pt_deadline t - ts_now (mw_ts ?w)\<bar>"
  note ts = time_step [OF assms(1-3), of ?dt]
  have cb: "(pt_id t, wakeup s) \<in> ts_callbacks (mw_ts (m_world (later ?dt m)))"
    using t by (auto simp: ts_callbacks_def ts_advance_def)
  have "t \<in> set (ts_pending (mw_ts (m_world (later ?dt m))))" using t by (simp add: ts_advance_def)
  moreover have "pt_deadline t \<le> ts_now (mw_ts (m_world (later ?dt m)))" by simp
  ultimately have "expired (pt_id t) (netTime ?dt net)"
    using net_ok_parts(2) [OF ts(3)] unfolding expired_def by blast
  then have "comesToLine i a p ps (later ?dt m) (netTime ?dt net)"
    using timer_search [OF ts(2,3,4) _ _ cb] ts(5) assms(4) by simp
  then show ?thesis using comesToLine_step [OF ts(1) _ ts(6)] by blast
qed

section \<open>Frames in the middle of an action\<close>

lemma deliver_kept:
  assumes "net_reachable net" and "net_ok s m net" and "bn_wire net = [frameOf msg]" and "wf_msg msg"
    and "waitsAt i a p ps net" and "msg \<noteq> Msg_Grant a"
    and "addrAfter msg (uidOf (bn_nodes net ! i)) (sn_txQueue (bn_nodes net ! i)) = a"
    and "\<And>q. \<exists>m'. masterPacketReceived (Some (msgType msg)) (msgBytes msg) (m\<lparr>m_world := (m_world m)\<lparr>mw_tx := q\<rparr>\<rparr>) = Some (Inr m') \<and>
      at_rest s' m' \<and> lineKept ((m_world m)\<lparr>mw_tx := q\<rparr>) (m_world m') \<and> tq_txMsg (mw_tx (m_world m')) = tq_txMsg q \<and>
      tq_ownAddress (mw_tx (m_world m')) = tq_ownAddress q"
  shows "\<exists>net' m'. net_runs net net' \<and> net_reachable net' \<and> net_ok s' m' net' \<and> waitsAt i a p ps net' \<and>
    inLine (m_world m') \<le> inLine (m_world m) \<and>
    (msgType msg \<in> {address_discovery, address_reply} \<longrightarrow>
     (\<forall>f \<in> set (bn_wire net'). \<exists>n \<in> set (bn_nodes net). \<exists>out. says theU msg (uidOf n) (sn_txQueue n) out \<and> f \<in> set (map encodePacket out)))"
proof -
  obtain net' q m' s2 where r: "net_runs net net'" "net_reachable net'" "net_ok s2 m' net'"
    "heard theU msg (uidOf (bn_master net)) (sn_txQueue (bn_master net)) q"
    "msg \<noteq> Msg_Grant (addrOf (bn_master net)) \<longrightarrow> tq_txMsg q = queueOf (bn_master net)"
    "masterPacketReceived (Some (msgType msg)) (msgBytes msg) (m\<lparr>m_world := (m_world m)\<lparr>mw_tx := q\<rparr>\<rparr>) = Some (Inr m')"
    "sn_txQueue (bn_master net') = (mw_tx (m_world m'))\<lparr>tq_sent := []\<rparr>"
    "list_all2 (\<lambda>n n'. addrOf n' = addrAfter msg (uidOf n) (sn_txQueue n) \<and> (msg \<noteq> Msg_Grant (addrOf n) \<longrightarrow> queueOf n' = queueOf n))
      (bn_clients net) (bn_clients net')"
    "set (map encodePacket (tq_sent (mw_tx (m_world m')))) \<subseteq> set (bn_wire net')"
    "\<forall>f \<in> set (bn_wire net'). f \<in> set (map encodePacket (tq_sent (mw_tx (m_world m')))) \<or>
      (\<exists>n \<in> set (bn_clients net). \<exists>out. says theU msg (uidOf n) (sn_txQueue n) out \<and> f \<in> set (map encodePacket out))"
    by (rule deliver_step [OF assms(1-4)])
  have k: "at_rest s' m'" "lineKept ((m_world m)\<lparr>mw_tx := q\<rparr>) (m_world m')" "tq_txMsg (mw_tx (m_world m')) = tq_txMsg q"
    "tq_ownAddress (mw_tx (m_world m')) = tq_ownAddress q"
    using assms(8) [of q] r(6) by auto
  have "lineKept (m_world m) ((m_world m)\<lparr>mw_tx := q\<rparr>)" by (rule lineKept_env) simp_all
  then have "lineKept (m_world m) (m_world m')" using k(2) lineKept_trans by blast
  then have line: "inLine (m_world m') \<le> inLine (m_world m)" using inLine_kept by (auto simp: le_fun_def)
  have ok: "net_ok s' m' net'" using r(3) at_rest_unique [OF net_ok_parts(4) [OF r(3)] k(1)] by simp
  have "waitsAt i a p ps net'"
  proof (cases i)
    case 0
    then have "clientAddress q = a" "tq_txMsg q = p # ps" using r(4,5) assms(5-7) by (auto simp: heard_def waitsAt_def bn_nodes_def)
    then show ?thesis using 0 r(7) k(3,4) assms(5) by (simp add: waitsAt_def bn_nodes_def clientAddress_def)
  next
    case (Suc j)
    then show ?thesis using r(8) assms(5-7) by (auto simp: waitsAt_def bn_nodes_def list_all2_conv_all_nth)
  qed
  moreover have "\<exists>n \<in> set (bn_nodes net). \<exists>out. says theU msg (uidOf n) (sn_txQueue n) out \<and> f \<in> set (map encodePacket out)"
    if "msgType msg \<in> {address_discovery, address_reply}" "f \<in> set (bn_wire net')" for f
  proof -
    have "tq_sent (mw_tx (m_world m')) = tq_sent q" using r(6) that(1) by (auto simp: masterPacketReceived_def)
    then show ?thesis using r(4,10) that(2) by (auto simp: heard_def bn_nodes_def)
  qed
  ultimately show ?thesis using r(1,2) ok line by blast
qed

text \<open>The token for the node with the packet.\<close>

lemma grant_sends:
  assumes "net_reachable net" and "waitsAt i a p ps net" and "bn_wire net = [frameOf (Msg_Grant a)]"
  shows "\<exists>net'. net_runs net net' \<and> net_reachable net' \<and> sentFrom i p ps net'"
proof -
  have w: "i < length (bn_nodes net)" "addrOf (bn_nodes net ! i) = a" "queueOf (bn_nodes net ! i) = p # ps"
    using assms(2) by (simp_all add: waitsAt_def)
  have u: "length (snd theU) = 4" by simp
  have inv: "net_inv net" by (rule net_reachable_inv [OF assms(1)])
  obtain net' where net': "netDeliver theU (frameOf (Msg_Grant a)) net = Some (Inr net')"
    using deliver_ok [OF inv assms(3) u] by blast
  obtain ms where ms: "bn_nodes net' = map onWire ms" "bn_wire net' = concat (map framesOf ms)"
    "list_all2 (\<lambda>n n'. nodeReceive theU (frameOf (Msg_Grant a)) n = Some (Inr n')) (bn_nodes net) ms"
    by (rule netDeliver_parts [OF net'])
  have "length (bn_nodes net') = length (bn_nodes net)" using ms(1) list_all2_lengthD [OF ms(3)] by simp
  then have "sentFrom i p ps net'" using token_sends_head [OF inv _ w(1,3) u] assms(3) net' w(1,2) by (simp add: sentFrom_def)
  moreover have "net_runs net net'" by (rule net_runs.deliver [OF net_runs.here assms(3) u net'])
  ultimately show ?thesis using net_runs_reachable assms(1) by blast
qed

lemma grant_search:
  assumes "net_reachable net" and "net_ok st_sendingToken m net" and "waitsAt i a p ps net"
  shows "comesToLine i a p ps m net"
proof -
  note net = net_ok_parts [OF assms(2)]
  let ?b = "ac_address (currentAction (m_world m))"
  have wire: "bn_wire net = [frameOf (Msg_Grant ?b)]" using net(7) by simp
  show ?thesis
  proof (cases "?b = a")
    case True
    then show ?thesis using grant_sends [OF assms(1,3)] wire unfolding comesToLine_def by blast
  next
    case False
    have pre: "wf_msg (Msg_Grant ?b)" "Msg_Grant ?b \<noteq> Msg_Grant a"
      "addrAfter (Msg_Grant ?b) (uidOf (bn_nodes net ! i)) (sn_txQueue (bn_nodes net ! i)) = a"
      using False assms(3) by (simp_all add: waitsAt_def)
    have kept: "\<exists>m'. masterPacketReceived (Some (msgType (Msg_Grant ?b))) (msgBytes (Msg_Grant ?b)) (m\<lparr>m_world := (m_world m)\<lparr>mw_tx := q\<rparr>\<rparr>) = Some (Inr m') \<and>
      at_rest st_waitClientPacketDone m' \<and> lineKept ((m_world m)\<lparr>mw_tx := q\<rparr>) (m_world m') \<and> tq_txMsg (mw_tx (m_world m')) = tq_txMsg q \<and>
      tq_ownAddress (mw_tx (m_world m')) = tq_ownAddress q" for q
      using grant_kept [OF at_rest_tx [OF net(4)], of "grantMsg ?b" q] by auto
    obtain net' m' where n: "net_runs net net'" "net_reachable net'" "net_ok st_waitClientPacketDone m' net'" "waitsAt i a p ps net'"
      "inLine (m_world m') \<le> inLine (m_world m)"
      using deliver_kept [OF assms(1,2) wire pre(1) assms(3) pre(2,3) kept] by blast
    have "comesToLine i a p ps m' net'"
      using net_ok_parts(7) [OF n(3)] answer_search [OF n(2-4)] quiet_search [OF n(2-4)] by auto
    then show ?thesis using comesToLine_step [OF n(1) _ n(5)] by blast
  qed
qed

text \<open>The reply to a request does not change the address of a node that has one.\<close>

lemma reply_keeps_address:
  assumes "net_ok s m net" and "fresh_uid (m_world m) (bn_nodes net) uid" and "(b, uid, True) \<in> rows (m_world m)"
    and "n \<in> set (bn_nodes net)" and "addrOf n \<noteq> null_addr"
  shows "addrAfter (Msg_Reply b uid) (uidOf n) (sn_txQueue n) = addrOf n"
proof (cases "uid = uidOf n")
  case True
  note net = net_ok_parts [OF assms(1)]
  let ?t = "dh_table (mw_dh (m_world m))"
  have "dynOf n" using assms(2,4) True by (auto simp: fresh_uid_def)
  then have row: "(addrOf n, uid, True) \<in> rows (m_world m)" using net(5) assms(4,5) True by (auto simp: booked_def)
  have books: "books_ok {#} 0 (m_world m)" using net(4) by (simp add: at_rest_def rest_ok_def core_ok_def)
  have "inj_on al_uniqueId {l \<in> set ?t. al_isDynamic l}" using store_parts(2) [OF books refl] by (simp add: distinct_map)
  then have "b = addrOf n" using row assms(3) by (auto simp: rows_def inj_on_def)
  then show ?thesis using True by simp
qed simp

lemma reply_search:
  assumes "net_reachable net" and "net_ok st_waitAddressReply m net" and "waitsAt i a p ps net"
  shows "comesToLine i a p ps m net"
proof -
  note net = net_ok_parts [OF assms(2)]
  have w: "bn_nodes net ! i \<in> set (bn_nodes net)" "addrOf (bn_nodes net ! i) = a" "a \<noteq> null_addr"
    using assms(3) null_not_known by (auto simp: waitsAt_def)
  consider "bn_wire net = []" | b uid where "fresh_uid (m_world m) (bn_nodes net) uid" "(b, uid, True) \<in> rows (m_world m)"
    "bn_wire net = [frameOf (Msg_Reply b uid)]" using net(7) by auto
  then show ?thesis
  proof cases
    case 1
    then show ?thesis using quiet_search [OF assms] by simp
  next
    case (2 b uid)
    let ?msg = "Msg_Reply b uid"
    have pre: "wf_msg ?msg" "?msg \<noteq> Msg_Grant a" "addrAfter ?msg (uidOf (bn_nodes net ! i)) (sn_txQueue (bn_nodes net ! i)) = a"
      using 2(1) reply_keeps_address [OF assms(2) 2(1,2) w(1)] w(2,3) by (simp_all add: fresh_uid_def)
    have kept: "\<exists>m'. masterPacketReceived (Some (msgType ?msg)) (msgBytes ?msg) (m\<lparr>m_world := (m_world m)\<lparr>mw_tx := q\<rparr>\<rparr>) = Some (Inr m') \<and>
      at_rest st_waitAddressReply m' \<and> lineKept ((m_world m)\<lparr>mw_tx := q\<rparr>) (m_world m') \<and> tq_txMsg (mw_tx (m_world m')) = tq_txMsg q \<and>
      tq_ownAddress (mw_tx (m_world m')) = tq_ownAddress q" for q
      using at_rest_tx [OF net(4), of q] by (simp add: masterPacketReceived_def lineKept_env)
    obtain net' m' where n: "net_runs net net'" "net_reachable net'" "net_ok st_waitAddressReply m' net'" "waitsAt i a p ps net'"
      "inLine (m_world m') \<le> inLine (m_world m)" and
      said: "\<forall>f \<in> set (bn_wire net'). \<exists>n \<in> set (bn_nodes net). \<exists>out. says theU ?msg (uidOf n) (sn_txQueue n) out \<and> f \<in> set (map encodePacket out)"
      using deliver_kept [OF assms(1,2) 2(3) pre(1) assms(3) pre(2,3) kept] by auto
    have "bn_wire net' = []" using said by (cases "bn_wire net'") auto
    then show ?thesis using comesToLine_step [OF n(1) quiet_search [OF n(2-4)] n(5)] by blast
  qed
qed

lemma request_search:
  assumes "net_reachable net" and "net_ok st_queryAddress m net" and "waitsAt i a p ps net"
    and "length (snd v) = 4" and "length uid = 8" and "bn_wire net = [frameOf (Msg_Request v uid)]"
  shows "comesToLine i a p ps m net"
proof -
  note net = net_ok_parts [OF assms(2)]
  let ?msg = "Msg_Request v uid"
  have pre: "wf_msg ?msg" "?msg \<noteq> Msg_Grant a" "addrAfter ?msg (uidOf (bn_nodes net ! i)) (sn_txQueue (bn_nodes net ! i)) = a"
    using assms(3-5) by (simp_all add: waitsAt_def)
  have size: "sizeofHeader address_request \<le> length (msgBytes ?msg)" using msg_facts(3) [OF pre(1)] by simp
  have kept: "\<exists>m'. masterPacketReceived (Some (msgType ?msg)) (msgBytes ?msg) (m\<lparr>m_world := (m_world m)\<lparr>mw_tx := q\<rparr>\<rparr>) = Some (Inr m') \<and>
    at_rest st_waitAddressReply m' \<and> lineKept ((m_world m)\<lparr>mw_tx := q\<rparr>) (m_world m') \<and> tq_txMsg (mw_tx (m_world m')) = tq_txMsg q \<and>
    tq_ownAddress (mw_tx (m_world m')) = tq_ownAddress q" for q
    using request_kept [OF at_rest_tx [OF net(4)] size, of q] by auto
  obtain net' m' where n: "net_runs net net'" "net_reachable net'" "net_ok st_waitAddressReply m' net'" "waitsAt i a p ps net'"
    "inLine (m_world m') \<le> inLine (m_world m)"
    using deliver_kept [OF assms(1,2,6) pre(1) assms(3) pre(2,3) kept] by blast
  then show ?thesis using comesToLine_step [OF n(1) reply_search [OF n(2-4)] n(5)] by blast
qed

lemma query_search:
  assumes "net_reachable net" and "net_ok st_queryAddress m net" and "waitsAt i a p ps net"
  shows "comesToLine i a p ps m net"
proof -
  note net = net_ok_parts [OF assms(2)]
  have parts: "bn_wire net' = [frameOf Msg_Discovery] \<or> comesToLine i a p ps m' net'"
    if "net_reachable net'" "net_ok st_queryAddress m' net'" "waitsAt i a p ps net'" for net' m'
  proof -
    from net_ok_parts(7) [OF that(2)] consider "bn_wire net' = []" | "bn_wire net' = [frameOf Msg_Discovery]"
      | v uid where "length (snd v) = 4" "length uid = 8" "bn_wire net' = [frameOf (Msg_Request v uid)]" by (auto simp: fresh_uid_def)
    then show ?thesis by cases (use quiet_search [OF that] request_search [OF that] in blast)+
  qed
  show ?thesis
  proof (cases "bn_wire net = [frameOf Msg_Discovery]")
    case True
    let ?msg = "Msg_Discovery"
    have pre: "wf_msg ?msg" "?msg \<noteq> Msg_Grant a" "addrAfter ?msg (uidOf (bn_nodes net ! i)) (sn_txQueue (bn_nodes net ! i)) = a"
      using assms(3) by (simp_all add: waitsAt_def)
    have kept: "\<exists>m'. masterPacketReceived (Some (msgType ?msg)) (msgBytes ?msg) (m\<lparr>m_world := (m_world m)\<lparr>mw_tx := q\<rparr>\<rparr>) = Some (Inr m') \<and>
      at_rest st_queryAddress m' \<and> lineKept ((m_world m)\<lparr>mw_tx := q\<rparr>) (m_world m') \<and> tq_txMsg (mw_tx (m_world m')) = tq_txMsg q \<and>
      tq_ownAddress (mw_tx (m_world m')) = tq_ownAddress q" for q
      using at_rest_tx [OF net(4), of q] by (simp add: masterPacketReceived_def lineKept_env)
    obtain net' m' where n: "net_runs net net'" "net_reachable net'" "net_ok st_queryAddress m' net'" "waitsAt i a p ps net'"
      "inLine (m_world m') \<le> inLine (m_world m)" and
      said: "\<forall>f \<in> set (bn_wire net'). \<exists>n \<in> set (bn_nodes net). \<exists>out. says theU ?msg (uidOf n) (sn_txQueue n) out \<and> f \<in> set (map encodePacket out)"
      using deliver_kept [OF assms(1,2) True pre(1) assms(3) pre(2,3) kept] by auto
    have "bn_wire net' \<noteq> [frameOf ?msg]"
    proof
      assume "bn_wire net' = [frameOf ?msg]"
      then obtain n3 where n3: "n3 \<in> set (bn_nodes net)" "frameOf ?msg = frameOf (Msg_Request theU (uidOf n3))"
        using said by (auto split: if_splits)
      have wf: "wf_msg (Msg_Request theU (uidOf n3))" using n3(1) net(5) by (simp add: booked_def compatible_def)
      have "msgBytes ?msg = msgBytes (Msg_Request theU (uidOf n3))"
        using packetsIn_encode [OF msg_facts(1) [OF wf]] packetsIn_encode [OF msg_facts(1) [OF pre(1)]] n3(2) by simp
      then show False using msg_facts(2) [OF wf] msg_facts(2) [OF pre(1)] by simp
    qed
    then show ?thesis using comesToLine_step [OF n(1) _ n(5)] parts [OF n(2-4)] by blast
  qed (use parts [OF assms] in blast)
qed

text \<open>Whatever the master does at the moment, it comes to its line.\<close>

lemma comes_to_line:
  assumes "net_reachable net" and "net_ok s m net" and "waitsAt i a p ps net"
  shows "comesToLine i a p ps m net"
proof (cases s)
  case st_waitClientPacketDone
  then show ?thesis using net_ok_parts(7) [OF assms(2)] answer_search [OF assms(1)] quiet_search [OF assms] assms(2,3) by auto
qed (use assms started_search grant_search query_search reply_search quiet_search net_ok_parts(7) [OF assms(2)] in auto)

section \<open>Every token comes to the front\<close>

text \<open>The master has the token of every known node in use, in its line or among the waiting actions.\<close>

lemma token_somewhere:
  assumes "net_ok s m net" and "waitsAt i a p ps net"
  obtains "isToken a (currentAction (m_world m))" | k where "k < length (readyLine (m_world m))" "isToken a (readyLine (m_world m) ! k)"
    | el where "el \<in> set (waitingEls (m_world m))" "isToken a (qe_action el)"
proof -
  have "count (tokens (m_world m)) a = 1"
    using one_token [OF assms(1), of "bn_nodes net ! i"] assms(2) by (auto simp: waitsAt_def)
  then have "a \<in># tokens (m_world m)" by (simp flip: count_greater_zero_iff)
  then obtain x where "x \<in># inFlight (m_world m)" "isToken a x" by (auto simp: tokens_def isToken_def)
  then consider "isToken a (currentAction (m_world m))" | "x \<in> set (readyLine (m_world m))" | el where "el \<in> set (waitingEls (m_world m))" "x = qe_action el"
    by (auto simp: inFlight_def sched_actions_def readyLine_def waitingEls_def split: if_splits)
  then show thesis using that \<open>isToken a x\<close> by cases (auto simp: in_set_conv_nth)
qed

lemma token_in_use:
  assumes "net_reachable net" and "net_ok s m net" and "waitsAt i a p ps net"
    and "isToken a (currentAction (m_world m))" and "s \<noteq> st_waitClientPacketDone"
  shows "\<exists>net'. net_runs net net' \<and> sentFrom i p ps net'"
proof -
  note net = net_ok_parts [OF assms(2)]
  have "phase_ok s send_token" using net(4) assms(4) by (simp add: at_rest_def rest_ok_def isToken_def)
  moreover have "s \<noteq> st_idle" using net(7) assms(4) by (auto simp: isToken_def doNothing_def)
  ultimately have s: "s = st_sendingToken" using assms(5) by (cases s) simp_all
  then have "bn_wire net = [frameOf (Msg_Grant a)]" using net(7) assms(4) by (simp add: isToken_def)
  then show ?thesis using grant_sends [OF assms(1,3)] by blast
qed

text \<open>A token that moved forward in the line, or came to its front.\<close>

lemma token_in_line:
  assumes "net_reachable net" and "net_ok s m net" and "waitsAt i a p ps net"
    and "k < length (readyLine (m_world m))" and "isToken a (readyLine (m_world m) ! k)"
  shows "\<exists>net'. net_runs net net' \<and> sentFrom i p ps net'"
  using assms
proof (induction k arbitrary: net s m rule: less_induct)
  case (less k)
  obtain net1 where r: "net_runs net net1" "net_reachable net1"
    "sentFrom i p ps net1 \<or> waitsAt i a p ps net1 \<and> (\<exists>L. inLine (m_world m) L \<and> wentThrough a L net1)"
    using comes_to_line [OF less.prems(1-3)] by (auto simp: comesToLine_def)
  show ?case
  proof (cases "sentFrom i p ps net1")
    case True
    then show ?thesis using r(1) by blast
  next
    case False
    then obtain L where L: "waitsAt i a p ps net1" "inLine (m_world m) L" "wentThrough a L net1" using r(3) by blast
    have "k < length L" "isToken a (L ! k)" using L(2) less.prems(4,5) by (auto simp: inLine_def nth_append)
    then obtain s1 m1 where m1: "net_ok s1 m1 net1" "s1 = st_waitClientPacketDone \<longrightarrow> \<not> isToken a (currentAction (m_world m1))"
      "isToken a (currentAction (m_world m1)) \<or> (\<exists>k' < k. k' < length (readyLine (m_world m1)) \<and> isToken a (readyLine (m_world m1) ! k'))"
      using L(3) unfolding wentThrough_def by blast
    have "\<exists>net'. net_runs net1 net' \<and> sentFrom i p ps net'"
    proof (cases "isToken a (currentAction (m_world m1))")
      case True
      then show ?thesis using token_in_use [OF r(2) m1(1) L(1)] m1(2) by blast
    next
      case False
      then show ?thesis using m1(3) less.IH [OF _ r(2) m1(1) L(1)] by blast
    qed
    then show ?thesis using net_runs_trans [OF r(1)] by blast
  qed
qed

text \<open>A search after which the token is due brings it into the line.\<close>

lemma token_after_search:
  assumes "net_reachable net" and "waitsAt i a p ps net" and "wentThrough a L net" and "x \<in> set L" and "isToken a x"
  shows "\<exists>net'. net_runs net net' \<and> sentFrom i p ps net'"
proof -
  obtain k where "k < length L" "isToken a (L ! k)" using assms(4,5) by (auto simp: in_set_conv_nth)
  then obtain s m where m: "net_ok s m net" "s = st_waitClientPacketDone \<longrightarrow> \<not> isToken a (currentAction (m_world m))"
    "isToken a (currentAction (m_world m)) \<or> (\<exists>k' < k. k' < length (readyLine (m_world m)) \<and> isToken a (readyLine (m_world m) ! k'))"
    using assms(3) unfolding wentThrough_def by blast
  then show ?thesis using token_in_use [OF assms(1) m(1) assms(2)] token_in_line [OF assms(1) m(1) assms(2)] by blast
qed

lemma token_waiting:
  assumes "net_reachable net" and "net_ok s m net" and "waitsAt i a p ps net"
    and "el \<in> set (waitingEls (m_world m))" and "isToken a (qe_action el)"
  shows "\<exists>net'. net_runs net net' \<and> sentFrom i p ps net'"
proof -
  let ?dt = "\<bar>qe_nextTime el - ts_now (mw_ts (m_world m))\<bar>"
  note ts = time_step [OF assms(1-3), of ?dt]
  have due: "qe_action el \<in> set (dueLine (m_world (later ?dt m)))"
    using assms(4) by (auto simp: dueLine_def waitingEls_def due_def)
  obtain net1 where r: "net_runs (netTime ?dt net) net1" "net_reachable net1"
    "sentFrom i p ps net1 \<or> waitsAt i a p ps net1 \<and> (\<exists>L. inLine (m_world (later ?dt m)) L \<and> wentThrough a L net1)"
    using comes_to_line [OF ts(2-4)] by (auto simp: comesToLine_def)
  have "\<exists>net'. net_runs net1 net' \<and> sentFrom i p ps net'"
  proof (cases "sentFrom i p ps net1")
    case True
    then show ?thesis using net_runs.here by blast
  next
    case False
    then obtain L where L: "waitsAt i a p ps net1" "inLine (m_world (later ?dt m)) L" "wentThrough a L net1" using r(3) by blast
    have "qe_action el \<in> set L" using L(2) due by (auto simp: inLine_def)
    then show ?thesis using token_after_search [OF r(2) L(1,3) _ assms(5)] by blast
  qed
  then show ?thesis using net_runs_trans [OF ts(1)] net_runs_trans [OF r(1)] by blast
qed

lemma packet_gets_sent:
  assumes "net_reachable net" and "net_ok s m net" and "waitsAt i a p ps net"
  shows "\<exists>net'. net_runs net net' \<and> sentFrom i p ps net'"
proof -
  have moved: "\<exists>net'. net_runs net1 net' \<and> sentFrom i p ps net'"
    if "net_reachable net1" "net_ok s1 m1 net1" "waitsAt i a p ps net1" "s1 = st_waitClientPacketDone \<longrightarrow> \<not> isToken a (currentAction (m_world m1))" for net1 s1 m1
    by (rule token_somewhere [OF that(2,3)]) (use that token_in_use [OF that(1-3)] token_in_line [OF that(1-3)] token_waiting [OF that(1-3)] in blast)+
  obtain net1 where r: "net_runs net net1" "net_reachable net1"
    "sentFrom i p ps net1 \<or> waitsAt i a p ps net1 \<and> (\<exists>L. inLine (m_world m) L \<and> wentThrough a L net1)"
    using comes_to_line [OF assms] by (auto simp: comesToLine_def)
  have "\<exists>net'. net_runs net1 net' \<and> sentFrom i p ps net'"
    using r(2,3) moved [of net1] net_runs.here [of net1] unfolding wentThrough_def by blast
  then show ?thesis using net_runs_trans [OF r(1)] by blast
qed

section \<open>Properties\<close>

text \<open>
  C7: A waiting packet gets through. From every state that the network can reach, if a node with an address that the
  master knows has a packet in its queue, then the bus and the clock alone, frames that are delivered and timers that
  expire, without any help of a host, lead to a state in which the first packet of that queue is on the wire, and its
  delivery hands it, once, to the host of every node it is addressed to. No state is a dead end for any node,
  however long the line of the other tokens is.\<close>

theorem network_serves_waiting_packet:
  assumes "net_reachable net" and "i < length (bn_nodes net)" and "addrOf (bn_nodes net ! i) \<in> set allAddresses"
    and "queueOf (bn_nodes net ! i) = p # ps"
  shows "\<exists>net1 net2. net_runs net net1 \<and> bn_wire net1 = [encodePacket p] \<and> queueOf (bn_nodes net1 ! i) = ps \<and>
    net_runs net1 net2 \<and> map deliveredAt (bn_nodes net2) = map (\<lambda>n. deliveredAt n @ receives p n) (bn_nodes net1)"
proof -
  obtain s m where ok: "net_ok s m net" using net_reachable_inv [OF assms(1)] by (auto simp: net_inv_def)
  have "waitsAt i (addrOf (bn_nodes net ! i)) p ps net" using assms(2-4) by (simp add: waitsAt_def)
  from packet_gets_sent [OF assms(1) ok this] obtain net1 where net1: "net_runs net net1" "sentFrom i p ps net1" by blast
  have u: "length (snd theU) = 4" by simp
  have wire: "bn_wire net1 = [encodePacket p]" using net1(2) by (simp add: sentFrom_def)
  have inv: "net_inv net1" by (rule net_reachable_inv [OF net_runs_reachable [OF net1(1) assms(1)]])
  obtain net2 where net2: "netDeliver theU (encodePacket p) net1 = Some (Inr net2)" using deliver_ok [OF inv wire u] by blast
  have "list_all on_bus (bn_nodes net)" using ok by (simp add: net_ok_def)
  then have "list_all answer (queueOf (bn_nodes net ! i))" using assms(2) by (simp add: list_all_length on_bus_def)
  then have "answer p" using assms(4) by simp
  then have "packetsIn (encodePacket p) = [p]" by (intro packetsIn_encode) (simp add: answer_def)
  then have "map deliveredAt (bn_nodes net2) = map (\<lambda>n. deliveredAt n @ receives p n) (bn_nodes net1)"
    using netDeliver_moves [OF inv wire u net2] by simp
  moreover have "net_runs net1 net2" by (rule net_runs.deliver [OF net_runs.here wire u net2])
  ultimately show ?thesis using net1 wire unfolding sentFrom_def by blast
qed

text \<open>The client of the example sends its packet from the start: with the start message of the master on the wire.\<close>

theorem network_serves_waiting_packet_witness:
  "\<exists>net net1 net2. net_reachable net \<and> bn_wire net = [encodePacket startedMsg] \<and> net_runs net net1 \<and>
     bn_wire net1 = [encodePacket exampleData] \<and> queueOf (bn_nodes net1 ! 1) = [] \<and> net_runs net1 net2 \<and>
     map deliveredAt (bn_nodes net2) = map (\<lambda>n. deliveredAt n @ receives exampleData n) (bn_nodes net1)"
proof -
  obtain net0 where net0: "exampleNet = Some net0" "net_reachable net0" by (rule exampleNet_reachable)
  define net where "net = atNode 1 (nodeHostSend [5] 1 tun_format) net0"
  have "case exampleNet of None \<Rightarrow> False | Some net0 \<Rightarrow> 1 < length (bn_nodes (atNode 1 (nodeHostSend [5] 1 tun_format) net0)) \<and>
      addrOf (bn_nodes (atNode 1 (nodeHostSend [5] 1 tun_format) net0) ! 1) \<in> set allAddresses \<and>
      queueOf (bn_nodes (atNode 1 (nodeHostSend [5] 1 tun_format) net0) ! 1) = [exampleData] \<and>
      bn_wire (atNode 1 (nodeHostSend [5] 1 tun_format) net0) = [encodePacket startedMsg]"
    by code_simp
  note eval = this [unfolded net0(1) option.case, folded net_def]
  have i: "1 < length (bn_nodes net)" "addrOf (bn_nodes net ! 1) \<in> set allAddresses" "queueOf (bn_nodes net ! 1) = [exampleData]"
    and wire: "bn_wire net = [encodePacket startedMsg]"
    using eval by (blast)+
  have reach: "net_reachable net" unfolding net_def by (rule net_reachable.host [OF net0(2)]) simp
  from network_serves_waiting_packet [OF reach i] show ?thesis using reach wire by blast
qed

end
