(* ===== verification/Broadcast_Channel.thy ===== *)
theory Broadcast_Channel
  imports Network_Delivery
begin

text \<open>
  What the network promises to its hosts, without master, token, frames and timers: a broadcast channel that carries one packet
  at a time. Stations have a queue; packets enter at its end, and the first of some queue is transmitted when the channel is free;
  what is transmitted reaches every station at once. The locale \<open>channel_service\<close> is the interface to an
  implementation: the steps of the implementation are explained by events of the channel, and those that the hosts can
  see are the same.
\<close>

section \<open>The channel\<close>

record Station =
  st_queue :: "byte_vec list"
  st_addr :: LocalAddress
  st_hosts :: "ChannelType option \<Rightarrow> host_driver option"
  st_got :: "delivery list"

record Channel =
  ch_stations :: "Station list"
  ch_air :: "byte_vec list"

definition addressed :: "byte_vec \<Rightarrow> LocalAddress \<Rightarrow> bool" where
  "addressed p a \<longleftrightarrow> byte2MessageType (p ! 0) = Some send_packet \<and>
     (p ! 2 = a \<and> a \<noteq> null_addr \<or> a = broadcast \<or> p ! 2 = broadcast)"

definition stationGets :: "byte_vec \<Rightarrow> Station \<Rightarrow> delivery list" where
  "stationGets p s =
     (if addressed p (st_addr s)
      then case st_hosts s (byte2ChannelType (p ! 1)) of None \<Rightarrow> [] | Some host \<Rightarrow> [(host, content p)]
      else [])"

definition stationHears :: "byte_vec \<Rightarrow> Station \<Rightarrow> Station" where
  "stationHears p s = s\<lparr>st_got := st_got s @ stationGets p s\<rparr>"

text \<open>No two stations with an address have the same.\<close>

definition distinctAddrs :: "LocalAddress list \<Rightarrow> bool" where
  "distinctAddrs as \<longleftrightarrow> distinct (filter (\<lambda>a. a \<noteq> null_addr) as)"

text \<open>At the start nothing waits and nothing is on the air.\<close>

definition ch_init :: "Channel \<Rightarrow> bool" where
  "ch_init c \<longleftrightarrow> ch_air c = [] \<and> list_all (\<lambda>s. st_queue s = [] \<and> st_got s = []) (ch_stations c) \<and>
     distinctAddrs (map st_addr (ch_stations c))"

text \<open>A host hands in a packet; a station transmits; all stations receive; addresses are negotiated; a station joins
  or leaves.\<close>

datatype ch_event =
    Accept nat byte_vec
  | Transmit nat
  | Receive
  | Readdress "LocalAddress list"
  | Join Station
  | Leave nat

fun visible :: "ch_event \<Rightarrow> bool" where
  "visible (Accept i p) = True"
| "visible (Join s) = True"
| "visible (Leave i) = True"
| "visible _ = False"

definition atStation :: "nat \<Rightarrow> (Station \<Rightarrow> Station) \<Rightarrow> Channel \<Rightarrow> Channel" where
  "atStation i f c = c\<lparr>ch_stations := (ch_stations c)[i := f (ch_stations c ! i)]\<rparr>"

fun ch_do :: "ch_event \<Rightarrow> Channel \<Rightarrow> Channel option" where
  "ch_do (Accept i p) c =
     (if i < length (ch_stations c) then Some (atStation i (\<lambda>s. s\<lparr>st_queue := st_queue s @ [p]\<rparr>) c) else None)"
| "ch_do (Transmit i) c =
     (if i < length (ch_stations c) \<and> ch_air c = []
      then case st_queue (ch_stations c ! i) of
             [] \<Rightarrow> None
           | p # ps \<Rightarrow> Some ((atStation i (\<lambda>s. s\<lparr>st_queue := ps\<rparr>) c)\<lparr>ch_air := [p]\<rparr>)
      else None)"
| "ch_do Receive c =
     (case ch_air c of
        [p] \<Rightarrow> Some (c\<lparr>ch_stations := map (stationHears p) (ch_stations c), ch_air := []\<rparr>)
      | _ \<Rightarrow> None)"
| "ch_do (Readdress as) c =
     (if length as = length (ch_stations c) \<and> distinctAddrs as
      then Some (c\<lparr>ch_stations := map2 (\<lambda>s a. s\<lparr>st_addr := a\<rparr>) (ch_stations c) as\<rparr>) else None)"
| "ch_do (Join s) c =
     (if st_queue s = [] \<and> st_got s = [] \<and> distinctAddrs (map st_addr (ch_stations c @ [s]))
      then Some (c\<lparr>ch_stations := ch_stations c @ [s]\<rparr>) else None)"
| "ch_do (Leave i) c =
     (if i < length (ch_stations c)
      then Some (c\<lparr>ch_stations := take i (ch_stations c) @ drop (Suc i) (ch_stations c)\<rparr>) else None)"

fun ch_run :: "ch_event list \<Rightarrow> Channel \<Rightarrow> Channel option" where
  "ch_run [] c = Some c"
| "ch_run (e # es) c = Option.bind (ch_do e c) (ch_run es)"

lemma ch_run_append: "ch_run (es @ fs) c = Option.bind (ch_run es c) (ch_run fs)"
proof (induction es arbitrary: c)
  case (Cons e es)
  then show ?case by (cases "ch_do e c") simp_all
qed simp

section \<open>What the channel guarantees\<close>

text \<open>The packets that a host handed in, and the packets that were transmitted with their senders, in order.\<close>

fun accepted :: "nat \<Rightarrow> ch_event list \<Rightarrow> byte_vec list" where
  "accepted i [] = []"
| "accepted i (Accept k p # es) = (if k = i then p # accepted i es else accepted i es)"
| "accepted i (_ # es) = accepted i es"

fun isLeave :: "ch_event \<Rightarrow> bool" where
  "isLeave (Leave i) = True"
| "isLeave _ = False"

fun transmitted :: "ch_event \<Rightarrow> Channel \<Rightarrow> (nat \<times> byte_vec) list" where
  "transmitted (Transmit i) c = [(i, hd (st_queue (ch_stations c ! i)))]"
| "transmitted _ c = []"

fun ch_log :: "ch_event list \<Rightarrow> Channel \<Rightarrow> (nat \<times> byte_vec) list" where
  "ch_log [] c = []"
| "ch_log (e # es) c = transmitted e c @ (case ch_do e c of None \<Rightarrow> [] | Some c' \<Rightarrow> ch_log es c')"

abbreviation sentBy :: "nat \<Rightarrow> (nat \<times> byte_vec) list \<Rightarrow> byte_vec list" where
  "sentBy i tra \<equiv> map snd (filter (\<lambda>x. fst x = i) tra)"

lemma accepted_visible: "accepted i (filter visible es) = accepted i es"
  by (induction i es rule: accepted.induct) auto

lemma accepted_Cons: "accepted i (e # es) = accepted i [e] @ accepted i es"
  by (cases e) auto

lemma noLeave_visible: "list_all (\<lambda>e. \<not> isLeave e) (filter visible es) \<longleftrightarrow> list_all (\<lambda>e. \<not> isLeave e) es"
proof (induction es)
  case (Cons e es)
  then show ?case by (cases e) auto
qed simp

text \<open>One event: queues are first in first out, and deliveries are transmissions.\<close>

lemma ch_do_queue:
  assumes "ch_do e c = Some c'" and "\<not> isLeave e" and "i < length (ch_stations c)"
  shows "i < length (ch_stations c') \<and>
    st_queue (ch_stations c ! i) @ accepted i [e] = sentBy i (transmitted e c) @ st_queue (ch_stations c' ! i)"
  using assms by (cases e) (auto simp: atStation_def stationHears_def nth_append nth_list_update split: if_splits list.splits)

lemma stationGets_content: "\<exists>ps. subseq ps [p] \<and> map snd (stationGets p s) = map content ps"
proof (cases "stationGets p s = []")
  case False
  then show ?thesis by (intro exI [of _ "[p]"]) (auto simp: stationGets_def split: if_splits option.splits)
qed (auto intro: exI [of _ "[]"])

lemma ch_do_got:
  assumes "ch_do e c = Some c'" and "\<not> isLeave e" and "i < length (ch_stations c)"
  shows "\<exists>heard ps. ch_air c @ map snd (transmitted e c) = heard @ ch_air c' \<and> subseq ps heard \<and>
    map snd (st_got (ch_stations c' ! i)) = map snd (st_got (ch_stations c ! i)) @ map content ps"
proof (cases e)
  case Receive
  then obtain p where p: "ch_air c = [p]" "c' = c\<lparr>ch_stations := map (stationHears p) (ch_stations c), ch_air := []\<rparr>"
    using assms(1) by (auto split: list.splits)
  then show ?thesis using stationGets_content [of p "ch_stations c ! i"] assms(3) Receive
    by (auto simp: stationHears_def intro!: exI [of _ "[p]"])
next
  case (Transmit k)
  then show ?thesis using assms(1,3)
    by (auto simp: atStation_def nth_list_update split: if_splits list.splits intro!: exI [of _ "[]"])
qed (use assms in \<open>auto simp: atStation_def nth_list_update nth_append split: if_splits intro!: exI [of _ "[]"]\<close>)

text \<open>All events: one order of transmissions for all stations, which keeps the order of every sender.\<close>

lemma ch_run_queue:
  assumes "ch_run es c = Some c'" and "list_all (\<lambda>e. \<not> isLeave e) es" and "i < length (ch_stations c)"
  shows "i < length (ch_stations c') \<and>
    st_queue (ch_stations c ! i) @ accepted i es = sentBy i (ch_log es c) @ st_queue (ch_stations c' ! i)"
  using assms
proof (induction es arbitrary: c)
  case (Cons e es)
  then obtain c1 where c1: "ch_do e c = Some c1" "ch_run es c1 = Some c'" by (auto simp: bind_eq_Some_conv)
  have one: "i < length (ch_stations c1)"
    "st_queue (ch_stations c ! i) @ accepted i [e] = sentBy i (transmitted e c) @ st_queue (ch_stations c1 ! i)"
    using ch_do_queue [OF c1(1) _ Cons.prems(3)] Cons.prems(2) by simp_all
  have rest: "i < length (ch_stations c')"
    "st_queue (ch_stations c1 ! i) @ accepted i es = sentBy i (ch_log es c1) @ st_queue (ch_stations c' ! i)"
    using Cons.IH [OF c1(2) _ one(1)] Cons.prems(2) by simp_all
  have "st_queue (ch_stations c ! i) @ accepted i (e # es) = (st_queue (ch_stations c ! i) @ accepted i [e]) @ accepted i es"
    by (subst accepted_Cons) simp
  also have "\<dots> = sentBy i (transmitted e c) @ sentBy i (ch_log es c1) @ st_queue (ch_stations c' ! i)"
    unfolding one(2) using rest(2) by simp
  finally show ?case using rest(1) c1(1) by simp
qed simp

lemma ch_run_got:
  assumes "ch_run es c = Some c'" and "list_all (\<lambda>e. \<not> isLeave e) es" and "i < length (ch_stations c)"
  shows "\<exists>ps. subseq ps (ch_air c @ map snd (ch_log es c)) \<and>
    map snd (st_got (ch_stations c' ! i)) = map snd (st_got (ch_stations c ! i)) @ map content ps"
  using assms
proof (induction es arbitrary: c)
  case (Cons e es)
  then obtain c1 where c1: "ch_do e c = Some c1" "ch_run es c1 = Some c'" by (auto simp: bind_eq_Some_conv)
  have i: "i < length (ch_stations c1)" using ch_do_queue [OF c1(1) _ Cons.prems(3)] Cons.prems(2) by simp
  obtain ps where ps: "subseq ps (ch_air c1 @ map snd (ch_log es c1))"
    "map snd (st_got (ch_stations c' ! i)) = map snd (st_got (ch_stations c1 ! i)) @ map content ps"
    using Cons.IH [OF c1(2) _ i] Cons.prems(2) by auto
  obtain heard qs where qs: "ch_air c @ map snd (transmitted e c) = heard @ ch_air c1" "subseq qs heard"
    "map snd (st_got (ch_stations c1 ! i)) = map snd (st_got (ch_stations c ! i)) @ map content qs"
    using ch_do_got [OF c1(1) _ Cons.prems(3)] Cons.prems(2) by auto
  have "ch_air c @ map snd (ch_log (e # es) c) = heard @ ch_air c1 @ map snd (ch_log es c1)"
    using c1(1) arg_cong [OF qs(1), of "\<lambda>xs. xs @ map snd (ch_log es c1)"] by simp
  then have "subseq (qs @ ps) (ch_air c @ map snd (ch_log (e # es) c))"
    by (simp only:) (rule list_emb_append_mono [OF qs(2) ps(1)])
  then show ?case using qs(3) ps(2) by (intro exI [of _ "qs @ ps"]) simp
qed (auto intro: exI [of _ "[]"])

section \<open>Implementations\<close>

text \<open>Runs of an implementation with what the hosts see of them.\<close>

inductive traced :: "('a \<Rightarrow> 's \<Rightarrow> 's \<Rightarrow> bool) \<Rightarrow> ('a \<Rightarrow> 's \<Rightarrow> ch_event list) \<Rightarrow> 's \<Rightarrow> ch_event list \<Rightarrow> 's \<Rightarrow> bool"
  for step obs where
  none: "traced step obs s [] s"
| more: "traced step obs s vs s1 \<Longrightarrow> step a s1 s2 \<Longrightarrow> traced step obs s (vs @ obs a s1) s2"

locale channel_service =
  fixes step :: "'a \<Rightarrow> 's \<Rightarrow> 's \<Rightarrow> bool"
    and inv :: "'s \<Rightarrow> bool"
    and obs :: "'a \<Rightarrow> 's \<Rightarrow> ch_event list"
    and view :: "'s \<Rightarrow> Channel"
  assumes keeps: "inv s \<Longrightarrow> step a s s' \<Longrightarrow> inv s'"
    and simulates: "inv s \<Longrightarrow> step a s s' \<Longrightarrow> \<exists>es. ch_run es (view s) = Some (view s') \<and> filter visible es = obs a s"
begin

lemma trace_inv: "traced step obs s vs s' \<Longrightarrow> inv s \<Longrightarrow> inv s'"
  by (induction rule: traced.induct) (blast intro: keeps)+

lemma trace_refined:
  assumes "traced step obs s vs s'" and "inv s"
  shows "\<exists>es. ch_run es (view s) = Some (view s') \<and> filter visible es = vs"
  using assms
proof (induction rule: traced.induct)
  case (none s)
  then show ?case by (intro exI [of _ "[]"]) simp
next
  case (more s vs s1 a s2)
  obtain es where es: "ch_run es (view s) = Some (view s1)" "filter visible es = vs" using more.IH [OF more.prems] by blast
  obtain fs where "ch_run fs (view s1) = Some (view s2)" "filter visible fs = obs a s1"
    using simulates [OF trace_inv [OF more(1,4)] more(2)] by blast
  then show ?case using es by (intro exI [of _ "es @ fs"]) (simp add: ch_run_append)
qed

text \<open>Whoever implements the channel is an ordered broadcast.\<close>

lemma trace_ordered:
  assumes "traced step obs s vs s'" and "inv s" and "list_all (\<lambda>e. \<not> isLeave e) vs"
  shows "\<exists>tra. \<forall>i < length (ch_stations (view s)). i < length (ch_stations (view s')) \<and>
    st_queue (ch_stations (view s) ! i) @ accepted i vs = sentBy i tra @ st_queue (ch_stations (view s') ! i) \<and>
    (\<exists>ps. subseq ps (ch_air (view s) @ map snd tra) \<and>
      map snd (st_got (ch_stations (view s') ! i)) = map snd (st_got (ch_stations (view s) ! i)) @ map content ps)"
proof -
  obtain es where es: "ch_run es (view s) = Some (view s')" "filter visible es = vs" using trace_refined [OF assms(1,2)] by blast
  have stay: "list_all (\<lambda>e. \<not> isLeave e) es" using assms(3) es(2) noLeave_visible by blast
  have "accepted i vs = accepted i es" for i using accepted_visible [of i es] es(2) by simp
  then show ?thesis using ch_run_queue [OF es(1) stay] ch_run_got [OF es(1) stay]
    by (intro exI [of _ "ch_log es (view s)"]) simp
qed

end

end
