(* ===== verification/Network_Refinement.thy ===== *)
theory Network_Refinement
  imports Broadcast_Channel
begin

text \<open>
  The network of \<open>Bus_Network\<close> implements the broadcast channel of \<open>Broadcast_Channel\<close>: every step of nodes, bus, clock and
  hosts is explained by events of the channel, whose stations are the nodes. Tokens, address negotiation, timers and frames are
  invisible; what the hosts do is the same event in both.
\<close>

section \<open>A network as a channel\<close>

definition station :: "SerialNet \<Rightarrow> Station" where
  "station n = \<lparr>st_queue = filter isData (queueOf n), st_addr = addrOf n, st_hosts = (\<lambda>ct. getRxIf ct (sn_txQueue n)),
     st_got = deliveredAt n\<rparr>"

definition channelOf :: "BusNetwork \<Rightarrow> Channel" where
  "channelOf net = \<lparr>ch_stations = map station (bn_nodes net), ch_air = dataOn (bn_wire net)\<rparr>"

text \<open>The steps of the network, as in \<open>net_reachable\<close>, with the action that causes them.\<close>

datatype net_act =
    Net_Deliver "byte \<times> Crc32"
  | Net_Timer nat
  | Net_Time time
  | Net_Host nat byte_vec LocalAddress ChannelType
  | Net_Mac nat MacAddr
  | Net_Join SerialNet
  | Net_Leave nat

inductive net_step :: "net_act \<Rightarrow> BusNetwork \<Rightarrow> BusNetwork \<Rightarrow> bool" where
  deliver: "bn_wire net = [f] \<Longrightarrow> length (snd u) = 4 \<Longrightarrow> netDeliver u f net = Some (Inr net') \<Longrightarrow> net_step (Net_Deliver u) net net'"
| timer: "bn_wire net = [] \<Longrightarrow> netTimer i net = Some (Inr net') \<Longrightarrow> net_step (Net_Timer i) net net'"
| time: "net_step (Net_Time dt) net (netTime dt net)"
| host: "length data < 2 ^ 14 - 4 \<Longrightarrow> net_step (Net_Host k data dest ct) net (atNode k (nodeHostSend data dest ct) net)"
| mac: "length mac = 6 \<Longrightarrow> net_step (Net_Mac k mac) net (atNode k (nodeMacUpdate mac) net)"
| join: "bn_wire net = [] \<Longrightarrow> client_started n \<Longrightarrow> compatible (bn_nodes net @ [n]) \<Longrightarrow> uidOf n \<notin> staticUids net \<Longrightarrow>
    net_step (Net_Join n) net (net\<lparr>bn_clients := bn_clients net @ [n]\<rparr>)"
| leave: "net_step (Net_Leave k) net (net\<lparr>bn_clients := take k (bn_clients net) @ drop (Suc k) (bn_clients net)\<rparr>)"

text \<open>A packet is accepted by a node that has an address, and carries it as its source.\<close>

definition acceptAt :: "nat \<Rightarrow> (LocalAddress \<Rightarrow> byte_vec) \<Rightarrow> BusNetwork \<Rightarrow> ch_event list" where
  "acceptAt k packet net =
     (if k < length (bn_nodes net) \<and> addrOf (bn_nodes net ! k) \<noteq> null_addr
      then [Accept k (packet (addrOf (bn_nodes net ! k)))] else [])"

fun net_obs :: "net_act \<Rightarrow> BusNetwork \<Rightarrow> ch_event list" where
  "net_obs (Net_Host k data dest ct) net =
     acceptAt k (\<lambda>own. [messageType2Byte send_packet, channelType2Byte ct, dest, own] @ data) net"
| "net_obs (Net_Mac k mac) net = acceptAt k (\<lambda>own. [messageType2Byte mac_update, broadcast, own, own] @ mac) net"
| "net_obs (Net_Join n) net = [Join (station n)]"
| "net_obs (Net_Leave k) net = (if k < length (bn_clients net) then [Leave (Suc k)] else [])"
| "net_obs _ net = []"

lemma net_step_reachable:
  assumes "net_reachable net" and "net_step a net net'"
  shows "net_reachable net'"
  using assms(2,1) by (cases rule: net_step.cases) (auto intro: net_reachable.intros)

section \<open>Simulation\<close>

lemma station_eqI:
  "st_queue s = st_queue s' \<Longrightarrow> st_addr s = st_addr s' \<Longrightarrow> st_hosts s = st_hosts s' \<Longrightarrow> st_got s = st_got s' \<Longrightarrow> s = (s' :: Station)"
  by (cases s; cases s') simp

lemma station_onWire [simp]: "station (onWire n) = station n"
  by (simp add: station_def)

lemma station_gets: "stationGets p (station n) = receives p n"
  by (auto simp: stationGets_def station_def receives_def addressed_def deliveryOf_def content_def Let_def split: option.splits)

lemma concat_single:
  assumes "concat xs = [p]"
  shows "\<exists>i < length xs. xs ! i = [p] \<and> (\<forall>j < length xs. j \<noteq> i \<longrightarrow> xs ! j = [])"
  using assms
proof (induction xs)
  case (Cons x xs)
  show ?case
  proof (cases x)
    case Nil
    then obtain i where "i < length xs" "xs ! i = [p]" "\<forall>j < length xs. j \<noteq> i \<longrightarrow> xs ! j = []"
      using Cons.IH Cons.prems by auto
    then show ?thesis using Nil by (intro exI [of _ "Suc i"]) (auto simp: nth_Cons split: nat.splits)
  next
    case (Cons q qs)
    then have "x = [p]" "\<forall>y \<in> set xs. y = []" using Cons.prems by (auto simp: append_eq_Cons_conv)
    then show ?thesis by (intro exI [of _ 0]) (auto simp: nth_Cons split: nat.splits)
  qed
qed simp

text \<open>Addresses may change, and at most one station transmits.\<close>

lemma channel_settles:
  assumes len: "length outs = length sts" "length sts' = length sts"
    and each: "\<And>i. i < length sts \<Longrightarrow> st_got (sts' ! i) = st_got (sts ! i) \<and> st_hosts (sts' ! i) = st_hosts (sts ! i) \<and>
      st_queue (sts ! i) = outs ! i @ st_queue (sts' ! i)"
    and one: "length (concat outs) \<le> 1" and dist: "distinctAddrs (map st_addr sts')"
  shows "\<exists>es. ch_run es \<lparr>ch_stations = sts, ch_air = []\<rparr> = Some \<lparr>ch_stations = sts', ch_air = concat outs\<rparr> \<and> filter visible es = []"
proof -
  define sts1 where "sts1 = map2 (\<lambda>s a. s\<lparr>st_addr := a\<rparr>) sts (map st_addr sts')"
  have nth1: "sts1 ! i = (sts ! i)\<lparr>st_addr := st_addr (sts' ! i)\<rparr>" if "i < length sts" for i using that len by (simp add: sts1_def)
  have len1: "length sts1 = length sts" using len by (simp add: sts1_def)
  have first: "ch_do (Readdress (map st_addr sts')) \<lparr>ch_stations = sts, ch_air = []\<rparr> = Some \<lparr>ch_stations = sts1, ch_air = []\<rparr>"
    using len dist by (simp add: sts1_def)
  show ?thesis
  proof (cases "concat outs")
    case Nil
    then have "outs ! i = []" if "i < length sts" for i using that len(1) by (metis concat_eq_Nil_conv nth_mem)
    then have "sts1 ! i = sts' ! i" if "i < length sts" for i
      using that nth1 [OF that] each [OF that] by (auto intro!: station_eqI)
    then have "sts1 = sts'" using len(2) len1 by (auto intro: nth_equalityI)
    then show ?thesis using Nil first by (intro exI [of _ "[Readdress (map st_addr sts')]"]) simp
  next
    case (Cons p ps)
    then have p: "concat outs = [p]" using one by simp
    from concat_single [OF this] obtain k where
      k: "k < length outs" "outs ! k = [p]" "\<forall>j < length outs. j \<noteq> k \<longrightarrow> outs ! j = []" by blast
    have "st_queue (sts1 ! k) = p # st_queue (sts' ! k)" using k(1,2) len each [of k] nth1 [of k] by simp
    moreover have "sts1[k := (sts1 ! k)\<lparr>st_queue := st_queue (sts' ! k)\<rparr>] = sts'"
    proof (rule nth_equalityI)
      fix i assume "i < length (sts1[k := (sts1 ! k)\<lparr>st_queue := st_queue (sts' ! k)\<rparr>])"
      then have i: "i < length sts" using len1 by simp
      then show "sts1[k := (sts1 ! k)\<lparr>st_queue := st_queue (sts' ! k)\<rparr>] ! i = sts' ! i"
        using each [OF i] nth1 [OF i] k(3) len len1 by (cases "i = k") (auto intro!: station_eqI)
    qed (use len len1 in simp)
    ultimately have "ch_do (Transmit k) \<lparr>ch_stations = sts1, ch_air = []\<rparr> = Some \<lparr>ch_stations = sts', ch_air = [p]\<rparr>"
      using k(1) len len1 by (simp add: atStation_def)
    then show ?thesis using p first by (intro exI [of _ "[Readdress (map st_addr sts'), Transmit k]"]) simp
  qed
qed

lemma inv_distinctAddrs:
  assumes "net_inv net"
  shows "distinctAddrs (map st_addr (map station (bn_nodes net)))"
proof -
  obtain s m where ok: "net_ok s m net" using assms by (auto simp: net_inv_def)
  note net = net_ok_parts [OF ok]
  let ?ns = "filter (\<lambda>n. addrOf n \<noteq> null_addr) (bn_nodes net)"
  have "addrOf (?ns ! i) \<noteq> addrOf (?ns ! j)" if "i < j" "j < length ?ns" for i j
  proof -
    have "filter (\<lambda>n. addrOf n = addrOf (?ns ! i)) ?ns = filter (\<lambda>n. addrOf n = addrOf (?ns ! i)) (bn_nodes net)"
      using that nth_mem [of i ?ns] by (auto intro!: filter_cong simp del: nth_mem)
    then show ?thesis
      using length_filter_le_1D [of "\<lambda>n. addrOf n = addrOf (?ns ! i)" ?ns i j] addresses_unique [OF net(4,5), of "addrOf (?ns ! i)"] that
        nth_mem [of i ?ns] by auto
  qed
  then have "distinct (map addrOf ?ns)" by (simp add: distinct_conv_nth) (metis linorder_neqE_nat)
  moreover have "filter (\<lambda>a. a \<noteq> null_addr) (map st_addr (map station (bn_nodes net))) = map addrOf ?ns"
    by (simp add: filter_map comp_def station_def)
  ultimately show ?thesis by (simp add: distinctAddrs_def)
qed

lemma inv_air:
  assumes "net_inv net"
  shows "length (dataOn (bn_wire net)) \<le> 1"
proof -
  obtain s m where ok: "net_ok s m net" using assms by (auto simp: net_inv_def)
  have "length (bn_wire net) \<le> 1" using net_ok_parts(7) [OF ok] by (cases s) auto
  then consider "bn_wire net = []" | f where "bn_wire net = [f]" by (cases "bn_wire net") auto
  then show ?thesis
  proof cases
    case (2 f)
    then obtain msg where "wf_msg msg" "f = frameOf msg" using wire_message [OF ok] by blast
    then show ?thesis using 2 dataOn_encode [of "[msgBytes msg]"] msg_facts(1) [of msg] by simp
  qed simp
qed

lemma dataOn_concat: "dataOn (concat (map f xs)) = concat (map (\<lambda>x. dataOn (f x)) xs)"
  by (induction xs) simp_all

lemma deliver_simulated:
  assumes "net_inv net" and "net_inv net'" and "bn_wire net = [f]" and "length (snd u) = 4" and "netDeliver u f net = Some (Inr net')"
  shows "\<exists>es. ch_run es (channelOf net) = Some (channelOf net') \<and> filter visible es = []"
proof -
  obtain msg ms where msg: "wf_msg msg" "f = frameOf msg" and ms: "list_all2 (nodeMoved msg) (bn_nodes net) ms"
    "bn_nodes net' = map onWire ms" "bn_wire net' = concat (map framesOf ms)"
    by (rule netDeliver_each [OF assms(1,3,4,5)])
  let ?p = "msgBytes msg" and ?outs = "map (\<lambda>m. dataOn (framesOf m)) ms"
  define sts where "sts = map (\<lambda>n. stationHears ?p (station n)) (bn_nodes net)"
  have air: "dataOn (bn_wire net) = (if isData ?p then [?p] else [])"
    using dataOn_encode [of "[?p]"] msg_facts(1) [OF msg(1)] assms(3) msg(2) by simp
  have quiet: "stationHears ?p (station n) = station n" if "\<not> isData ?p" for n
    using that receives_content [of ?p n] by (simp add: stationHears_def station_gets)
  have heard: "ch_run (if isData ?p then [Receive] else []) (channelOf net) = Some \<lparr>ch_stations = sts, ch_air = []\<rparr>"
    using air quiet by (simp add: channelOf_def sts_def comp_def)
  have out: "dataOn (bn_wire net') = concat ?outs" using ms(3) by (simp add: dataOn_concat)
  have nodes': "map station (bn_nodes net') = map station ms" using ms(2) by simp
  have len: "length ms = length (bn_nodes net)" using ms(1) by (simp add: list_all2_lengthD)
  have "\<exists>es. ch_run es \<lparr>ch_stations = sts, ch_air = []\<rparr> = Some \<lparr>ch_stations = map station ms, ch_air = concat ?outs\<rparr> \<and> filter visible es = []"
  proof (rule channel_settles)
    fix i assume "i < length sts"
    then have "nodeMoved msg (bn_nodes net ! i) (ms ! i)" "i < length ms" "i < length (bn_nodes net)"
      using ms(1) len by (auto simp: sts_def list_all2_conv_all_nth)
    then show "st_got (map station ms ! i) = st_got (sts ! i) \<and> st_hosts (map station ms ! i) = st_hosts (sts ! i) \<and>
      st_queue (sts ! i) = ?outs ! i @ st_queue (map station ms ! i)"
      by (simp add: sts_def nodeMoved_def stationHears_def station_gets) (simp add: station_def)
  qed (use len inv_air [OF assms(2)] out inv_distinctAddrs [OF assms(2)] nodes' in \<open>simp_all add: sts_def\<close>)
  then obtain es where "ch_run es \<lparr>ch_stations = sts, ch_air = []\<rparr> = Some (channelOf net')" "filter visible es = []"
    using out nodes' by (auto simp: channelOf_def)
  then show ?thesis using heard
    by (intro exI [of _ "(if isData ?p then [Receive] else []) @ es"]) (simp add: ch_run_append)
qed

lemma timer_simulated:
  assumes "net_inv net" and "net_inv net'" and "bn_wire net = []" and "netTimer i net = Some (Inr net')"
  shows "\<exists>es. ch_run es (channelOf net) = Some (channelOf net') \<and> filter visible es = []"
proof -
  obtain n' where n': "net' = net\<lparr>bn_master := onWire n', bn_wire := framesOf n'\<rparr>" "deliveredAt n' = deliveredAt (bn_master net)"
    "filter isData (queueOf (bn_master net)) = dataOn (framesOf n') @ filter isData (queueOf n')"
    "\<forall>ct. getRxIf ct (sn_txQueue n') = getRxIf ct (sn_txQueue (bn_master net))"
    by (rule netTimer_each [OF assms(1,3,4)])
  let ?outs = "dataOn (framesOf n') # map (\<lambda>_. []) (bn_clients net)"
  have out: "dataOn (bn_wire net') = concat ?outs" using n'(1) by (simp add: map_replicate_const)
  have "\<exists>es. ch_run es \<lparr>ch_stations = map station (bn_nodes net), ch_air = []\<rparr> =
      Some \<lparr>ch_stations = map station (bn_nodes net'), ch_air = concat ?outs\<rparr> \<and> filter visible es = []"
  proof (rule channel_settles)
    fix i assume "i < length (map station (bn_nodes net))"
    then show "st_got (map station (bn_nodes net') ! i) = st_got (map station (bn_nodes net) ! i) \<and>
      st_hosts (map station (bn_nodes net') ! i) = st_hosts (map station (bn_nodes net) ! i) \<and>
      st_queue (map station (bn_nodes net) ! i) = ?outs ! i @ st_queue (map station (bn_nodes net') ! i)"
      using n' by (cases i) (auto simp: bn_nodes_def station_def)
  qed (use inv_air [OF assms(2)] inv_distinctAddrs [OF assms(2)] n'(1) in \<open>simp_all add: bn_nodes_def map_replicate_const\<close>)
  then show ?thesis using out assms(3) by (auto simp: channelOf_def)
qed

text \<open>The hosts' actions.\<close>

lemma accept_simulated:
  assumes "\<And>n. sn_txQueue (f n) = (if addrOf n = null_addr then sn_txQueue n
      else (sn_txQueue n)\<lparr>tq_txMsg := queueOf n @ [packet (addrOf n)]\<rparr>)"
    and "\<And>n. deliveredAt (f n) = deliveredAt n" and "\<And>a. isData (packet a)"
  shows "ch_run (acceptAt k packet net) (channelOf net) = Some (channelOf (atNode k f net))"
proof -
  have st: "station (f n) = (if addrOf n = null_addr then station n
      else (station n)\<lparr>st_queue := st_queue (station n) @ [packet (addrOf n)]\<rparr>)" for n
    using assms(2,3) getRxIf_cong [of "sn_txQueue (f n)" "sn_txQueue n"] by (auto simp: station_def assms(1) clientAddress_def)
  show ?thesis
  proof (cases "k < length (bn_nodes net)")
    case True
    have "map station (bn_nodes (atNode k f net)) = (map station (bn_nodes net))[k := station (f (bn_nodes net ! k))]"
      using True by (simp add: atNode_nodes map_update)
    moreover have "(map station (bn_nodes net))[k := station (bn_nodes net ! k)] = map station (bn_nodes net)"
      using True by (metis list_update_id nth_map)
    ultimately show ?thesis using True st [of "bn_nodes net ! k"]
      by (simp add: channelOf_def acceptAt_def atStation_def atNode_nodes(2))
  qed (simp add: acceptAt_def channelOf_def atNode_nodes)
qed

lemma hostSend_simulated: "ch_run (net_obs (Net_Host k data dest ct) net) (channelOf net) = Some (channelOf (atNode k (nodeHostSend data dest ct) net))"
  unfolding net_obs.simps
  by (rule accept_simulated)
    (auto simp: nodeHostSend_def msgHostTx_sendPacket_def sendPacket_def oa_valid_def clientAddress_def layout_simps Let_def isData_def
      simp del: messageType2Byte.simps)

lemma macUpdate_simulated: "ch_run (net_obs (Net_Mac k mac) net) (channelOf net) = Some (channelOf (atNode k (nodeMacUpdate mac) net))"
  unfolding net_obs.simps
  by (rule accept_simulated)
    (auto simp: nodeMacUpdate_def msgHostTx_sendMacUpdate_def oa_valid_def clientAddress_def layout_simps Let_def isData_def
      simp del: messageType2Byte.simps)

lemma join_simulated:
  assumes "net_inv (net\<lparr>bn_clients := bn_clients net @ [n]\<rparr>)" and "client_started n"
  shows "ch_run [Join (station n)] (channelOf net) = Some (channelOf (net\<lparr>bn_clients := bn_clients net @ [n]\<rparr>))"
  using inv_distinctAddrs [OF assms(1)] client_fresh [OF assms(2)]
  by (simp add: channelOf_def bn_nodes_def) (simp add: station_def)

lemma leave_simulated:
  "ch_run (net_obs (Net_Leave k) net) (channelOf net) =
    Some (channelOf (net\<lparr>bn_clients := take k (bn_clients net) @ drop (Suc k) (bn_clients net)\<rparr>))"
  by (simp add: channelOf_def bn_nodes_def take_map drop_map)

lemma time_view: "channelOf (netTime dt net) = channelOf net"
  by (simp add: channelOf_def bn_nodes_def netTime_def nodeTime_def station_def comp_def)

interpretation bus: channel_service net_step net_reachable net_obs channelOf
proof unfold_locales
  fix net a net' assume reach: "net_reachable net" and step: "net_step a net net'"
  show reach': "net_reachable net'" by (rule net_step_reachable [OF reach step])
  note inv = net_reachable_inv [OF reach] net_reachable_inv [OF reach']
  from step show "\<exists>es. ch_run es (channelOf net) = Some (channelOf net') \<and> filter visible es = net_obs a net"
  proof (cases rule: net_step.cases)
    case (deliver f u)
    then show ?thesis using deliver_simulated [OF inv, of f u] by simp
  next
    case (timer i)
    then show ?thesis using timer_simulated [OF inv, of i] by simp
  next
    case (time dt)
    then show ?thesis using time_view by (intro exI [of _ "[]"]) simp
  next
    case (host data k dest ct)
    then show ?thesis using hostSend_simulated [of k data dest ct net] by (intro exI [of _ "net_obs a net"]) (auto simp: acceptAt_def)
  next
    case (mac mac k)
    then show ?thesis using macUpdate_simulated [of k mac net] by (intro exI [of _ "net_obs a net"]) (auto simp: acceptAt_def)
  next
    case (join n)
    then show ?thesis using join_simulated [of net n] inv(2) by (intro exI [of _ "net_obs a net"]) simp
  next
    case (leave k)
    then show ?thesis using leave_simulated [of k net] by (intro exI [of _ "net_obs a net"]) auto
  qed
qed

text \<open>A network that starts is a channel at its start.\<close>

lemma start_channel:
  assumes "start sys cfg = Some (Inr (Some n))" and "sc_startMaster cfg" and "1 \<le> ss_now sys" and "list_all client_started ns"
    and "net = \<lparr>bn_master = onWire n, bn_clients = ns, bn_wire = framesOf n\<rparr>" and "net_inv net"
  shows "ch_init (channelOf net)"
proof -
  have "st_queue (station k) = [] \<and> st_got (station k) = []" if "k \<in> set (bn_nodes net)" for k
    using that assms(4,5) start_delivered [OF assms(1)] master_fresh(1) [OF assms(1-3)] client_fresh
    by (auto simp: bn_nodes_def station_def list_all_iff)
  then show ?thesis using inv_distinctAddrs [OF assms(6)] master_fresh(2) [OF assms(1-3)] assms(5)
    by (simp add: ch_init_def channelOf_def list_all_iff)
qed

lemma step_channel:
  assumes "\<exists>c es. ch_init c \<and> ch_run es c = Some (channelOf net)" and "net_reachable net" and "net_step a net net'"
  shows "\<exists>c es. ch_init c \<and> ch_run es c = Some (channelOf net')"
proof -
  obtain c es fs where "ch_init c" "ch_run es c = Some (channelOf net)" "ch_run fs (channelOf net) = Some (channelOf net')"
    using assms(1) bus.simulates [OF assms(2,3)] by blast
  then show ?thesis by (intro exI [of _ c] exI [of _ "es @ fs"]) (simp add: ch_run_append)
qed

lemma reachable_channel: "net_reachable net \<Longrightarrow> \<exists>c es. ch_init c \<and> ch_run es c = Some (channelOf net)"
proof (induction rule: net_reachable.induct)
  case (start sys cfg n ns net)
  have "ch_init (channelOf net)"
    by (rule start_channel [OF start(1-4,6) net_reachable_inv [OF net_reachable.start [OF start]]])
  then show ?case by (intro exI [of _ "channelOf net"] exI [of _ "[]"]) simp
qed (blast intro: step_channel net_step.intros)+

section \<open>An example\<close>

text \<open>The master's host sends a byte to the client while the client's token is on the wire; the token and then the client's
  packet are delivered.\<close>

definition exampleReply :: byte_vec where
  "exampleReply = [messageType2Byte send_packet, channelType2Byte tun_format, 2, 1, 7]"

lemma exampleTrace:
  obtains net net' where "net_reachable net" and "traced net_step net_obs net [Accept 0 exampleReply] net'"
    and "map queueOf (bn_nodes net) = [[], [exampleData]]" and "dataOn (bn_wire net) = []"
proof -
  let ?u = "(0, [0, 0, 0, 0]) :: byte \<times> Crc32"
  obtain net where net: "net_reachable net" "map addrOf (bn_nodes net) = [1, 2]" "map queueOf (bn_nodes net) = [[], [exampleData]]"
    "bn_wire net = [encodePacket (grantMsg 2)]" by (rule exampleTokenNet)
  define net1 where "net1 = atNode 0 (nodeHostSend [7] 2 tun_format) net"
  have len: "length (bn_nodes net) = 2" using arg_cong [OF net(2), of length] by simp
  then have n: "addrOf (bn_nodes net ! 0) = 1" "addrOf (bn_nodes net ! 1) = 2" "queueOf (bn_nodes net ! 1) = [exampleData]"
    using arg_cong [OF net(2), of "\<lambda>xs. xs ! 0"] arg_cong [OF net(2), of "\<lambda>xs. xs ! 1"] arg_cong [OF net(3), of "\<lambda>xs. xs ! 1"]
    by simp_all
  have obs: "net_obs (Net_Host 0 [7] 2 tun_format) net = [Accept 0 exampleReply]"
    using n(1) len by (simp add: acceptAt_def exampleReply_def null_addr_def del: messageType2Byte.simps channelType2Byte.simps)
  have s1: "net_step (Net_Host 0 [7] 2 tun_format) net net1" unfolding net1_def by (rule net_step.host) simp
  have r1: "net_inv net1" by (rule net_reachable_inv [OF net_step_reachable [OF net(1) s1]])
  have n1: "length (bn_nodes net1) = 2" "bn_nodes net1 ! 1 = bn_nodes net ! 1" "bn_wire net1 = [frameOf (Msg_Grant (addrOf (bn_nodes net1 ! 1)))]"
    using len net(4) n(2) by (simp_all add: net1_def atNode_nodes)
  have u: "length (snd ?u) = 4" by simp
  obtain net2 where net2: "netDeliver ?u (frameOf (Msg_Grant (addrOf (bn_nodes net1 ! 1)))) net1 = Some (Inr net2)" "net_inv net2"
    using deliver_ok [OF r1 n1(3) u] by blast
  have w2: "bn_wire net2 = [encodePacket exampleData]"
    using token_sends_head [OF r1 n1(3) _ _ u net2(1), of exampleData "[]"] n1 n(3) by simp
  obtain net3 where net3: "netDeliver ?u (encodePacket exampleData) net2 = Some (Inr net3)"
    using deliver_ok [OF net2(2) w2 u] by blast
  have "traced net_step net_obs net ((([] @ net_obs (Net_Host 0 [7] 2 tun_format) net) @ net_obs (Net_Deliver ?u) net1) @ net_obs (Net_Deliver ?u) net2) net3"
    using net_step.deliver [OF n1(3) u net2(1)] net_step.deliver [OF w2 u net3] s1 by (intro traced.more traced.none)
  then have run: "traced net_step net_obs net [Accept 0 exampleReply] net3" by (simp only: obs) simp
  have "dataOn (bn_wire net) = []"
    using dataOn_encode [of "[grantMsg 2]"] msg_facts(1) [of "Msg_Grant 2"] not_data [of "Msg_Grant 2"] net(4) by simp
  then show thesis by (rule that [OF net(1) run net(3)])
qed

section \<open>Properties\<close>

text \<open>
  C3: The network refines a broadcast channel. Every state that the network can reach is one that the channel reaches from its
  start, where nothing waits; and every run of the network from there, with frames delivered, timers,
  the clock, hosts that send and announce themselves, nodes that join and leave in any order, is a run of the channel: the nodes are its
  stations, their waiting data packets its queues, the data packet on the wire is on the air. The channel knows no master, no token
  and no frames: it carries one packet at a time, taken from the front of one queue, which reaches at once exactly the stations it is
  addressed to, and two stations never have the same address. The two runs show the same visible events, in the same order:
  the packets that the nodes accept from their hosts, and who joins and leaves.
\<close>

theorem network_refines_channel:
  assumes "net_reachable net" and "traced net_step net_obs net vs net'"
  shows "(\<exists>c es. ch_init c \<and> ch_run es c = Some (channelOf net)) \<and>
    (\<exists>es. ch_run es (channelOf net) = Some (channelOf net') \<and> filter visible es = vs)"
  using reachable_channel [OF assms(1)] bus.trace_refined [OF assms(2,1)] by blast

theorem network_refines_channel_witness:
  "\<exists>net net' es. net_reachable net \<and> traced net_step net_obs net [Accept 0 exampleReply] net' \<and>
     ch_run es (channelOf net) = Some (channelOf net') \<and> filter visible es = [Accept 0 exampleReply]"
proof -
  obtain net net' where net: "net_reachable net" "traced net_step net_obs net [Accept 0 exampleReply] net'" by (rule exampleTrace)
  then show ?thesis using network_refines_channel [OF net] by blast
qed

text \<open>
  C4: The network is an ordered broadcast. For every run of the network in which no node leaves there is one sequence of
  transmissions, each with its sender, that explains what happens at every node: the packets that were waiting at the node, followed by those that its
  host handed in during the run, are the node's transmissions followed by the packets that wait now, so that packets of one sender
  never overtake each other; and what the node's host was given are the contents of a subsequence of the packet that was on the wire and the
  transmissions, in the same order at all nodes.
\<close>

theorem network_ordered_broadcast:
  assumes "net_reachable net" and "traced net_step net_obs net vs net'" and "list_all (\<lambda>e. \<not> isLeave e) vs"
  shows "\<exists>tra. \<forall>i < length (bn_nodes net). i < length (bn_nodes net') \<and>
    filter isData (queueOf (bn_nodes net ! i)) @ accepted i vs =
      sentBy i tra @ filter isData (queueOf (bn_nodes net' ! i)) \<and>
    (\<exists>ps. subseq ps (dataOn (bn_wire net) @ map snd tra) \<and>
      map snd (deliveredAt (bn_nodes net' ! i)) = map snd (deliveredAt (bn_nodes net ! i)) @ map content ps)"
proof -
  have nth: "ch_stations (channelOf n) ! i = station (bn_nodes n ! i)" if "i < length (bn_nodes n)" for n i
    using that by (simp add: channelOf_def)
  have len: "length (ch_stations (channelOf n)) = length (bn_nodes n)" "ch_air (channelOf n) = dataOn (bn_wire n)" for n
    by (simp_all add: channelOf_def)
  have st: "st_queue (station n) = filter isData (queueOf n)" "st_got (station n) = deliveredAt n" for n
    by (simp_all add: station_def)
  from bus.trace_ordered [OF assms(2,1,3)] obtain tra where
    tra: "\<forall>i < length (bn_nodes net). i < length (bn_nodes net') \<and>
      st_queue (ch_stations (channelOf net) ! i) @ accepted i vs = sentBy i tra @ st_queue (ch_stations (channelOf net') ! i) \<and>
      (\<exists>ps. subseq ps (dataOn (bn_wire net) @ map snd tra) \<and>
        map snd (st_got (ch_stations (channelOf net') ! i)) = map snd (st_got (ch_stations (channelOf net) ! i)) @ map content ps)"
    unfolding len by blast
  show ?thesis
  proof (intro exI [of _ tra] allI impI)
    fix i assume i: "i < length (bn_nodes net)"
    then have i': "i < length (bn_nodes net')" using tra by blast
    show "i < length (bn_nodes net') \<and>
      filter isData (queueOf (bn_nodes net ! i)) @ accepted i vs = sentBy i tra @ filter isData (queueOf (bn_nodes net' ! i)) \<and>
      (\<exists>ps. subseq ps (dataOn (bn_wire net) @ map snd tra) \<and>
        map snd (deliveredAt (bn_nodes net' ! i)) = map snd (deliveredAt (bn_nodes net ! i)) @ map content ps)"
      using tra [rule_format, OF i] unfolding nth [OF i] nth [OF i'] st .
  qed
qed

theorem network_ordered_broadcast_witness:
  "\<exists>net net' tra. net_reachable net \<and> traced net_step net_obs net [Accept 0 exampleReply] net' \<and>
     [exampleReply] = sentBy 0 tra @ filter isData (queueOf (bn_nodes net' ! 0)) \<and>
     [exampleData] = sentBy 1 tra @ filter isData (queueOf (bn_nodes net' ! 1)) \<and>
     (\<exists>ps. subseq ps (map snd tra) \<and>
       map snd (deliveredAt (bn_nodes net' ! 0)) = map snd (deliveredAt (bn_nodes net ! 0)) @ map content ps)"
proof -
  obtain net net' where net: "net_reachable net" "traced net_step net_obs net [Accept 0 exampleReply] net'"
    "map queueOf (bn_nodes net) = [[], [exampleData]]" "dataOn (bn_wire net) = []" by (rule exampleTrace)
  have len: "length (bn_nodes net) = 2" using arg_cong [OF net(3), of length] by simp
  then have q: "queueOf (bn_nodes net ! 0) = []" "queueOf (bn_nodes net ! 1) = [exampleData]"
    using arg_cong [OF net(3), of "\<lambda>xs. xs ! 0"] arg_cong [OF net(3), of "\<lambda>xs. xs ! 1"] by simp_all
  have "isData exampleData" by (simp add: isData_def exampleData_def del: messageType2Byte.simps)
  moreover obtain tra where tra: "\<forall>i < length (bn_nodes net). i < length (bn_nodes net') \<and>
      filter isData (queueOf (bn_nodes net ! i)) @ accepted i [Accept 0 exampleReply] =
        sentBy i tra @ filter isData (queueOf (bn_nodes net' ! i)) \<and>
      (\<exists>ps. subseq ps (dataOn (bn_wire net) @ map snd tra) \<and>
        map snd (deliveredAt (bn_nodes net' ! i)) = map snd (deliveredAt (bn_nodes net ! i)) @ map content ps)"
    using network_ordered_broadcast [OF net(1,2)] by auto
  ultimately have "[exampleReply] = sentBy 0 tra @ filter isData (queueOf (bn_nodes net' ! 0))"
    "[exampleData] = sentBy 1 tra @ filter isData (queueOf (bn_nodes net' ! 1))"
    using tra [rule_format, of 0] tra [rule_format, of 1] q len by simp_all
  moreover have "\<exists>ps. subseq ps (map snd tra) \<and>
      map snd (deliveredAt (bn_nodes net' ! 0)) = map snd (deliveredAt (bn_nodes net ! 0)) @ map content ps"
    using tra [rule_format, of 0] net(4) len by simp
  ultimately show ?thesis using net(1,2) by blast
qed

end
