(* ===== verification/Event_Loop.thy ===== *)
theory Event_Loop
  imports SN_Prelude
begin

text \<open>
  The wrappers around the event loop and the life time of their objects
  (\<open>src/src/eventwrapper/EventLoop.{h,cpp}\<close>, \<open>IoWatcher.h\<close>, \<open>SignalWatcher.h\<close>, \<open>TimeoutWatcher.{h,cpp}\<close>
  and the class \<open>TimeWatcher\<close> of \<open>src/src/hal/TimeServiceEv.cpp\<close>).

  libev keeps pointers to watcher objects; the wrappers keep an object alive by a
  \<open>shared_ptr\<close> to itself (\<open>m_self\<close>, \<open>m_tw\<close>). The state holds the living objects with the number of
  other \<open>shared_ptr\<close>s to them, and the watchers for which \<open>ev_..._start\<close> was called and
  \<open>ev_..._stop\<close> was not. An object without references is destroyed; using it afterwards is the error
  \<open>Use_After_Free\<close>. What a callback does with watchers is a list of operations.
\<close>

section \<open>Objects\<close>

datatype WatcherKind = WK_Io | WK_Signal | WK_Timeout | WK_Time

text \<open>\<open>IoWatcher\<close>, \<open>SignalWatcher\<close>, \<open>TimeoutWatcher\<close>, \<open>TimeWatcher\<close>; the last two own a \<open>TimeoutData\<close>, whose
  \<open>m_watcher\<close> is only set by \<open>TimeoutWatcher\<close>.\<close>

record Watcher =
  wa_kind :: WatcherKind
  wa_active :: bool
  wa_self :: bool
  wa_handles :: nat

record EvLoop =
  el_next :: nat
  el_objects :: "nat \<Rightarrow> Watcher option"
  el_started :: "nat list"
  el_broken :: bool

definition mkEvLoop :: EvLoop where
  "mkEvLoop = \<lparr>el_next = 0, el_objects = (\<lambda>_. None), el_started = [], el_broken = False\<rparr>"

definition watcherAt :: "nat \<Rightarrow> EvLoop \<Rightarrow> Watcher result" where
  "watcherAt i l = (case el_objects l i of None \<Rightarrow> Inl Use_After_Free | Some w \<Rightarrow> Inr w)"

definition setWatcher :: "nat \<Rightarrow> Watcher \<Rightarrow> EvLoop \<Rightarrow> EvLoop" where
  "setWatcher i w l = l\<lparr>el_objects := (el_objects l)(i := Some w)\<rparr>"

definition ev_stop :: "nat \<Rightarrow> EvLoop \<Rightarrow> EvLoop" where
  "ev_stop i l = l\<lparr>el_started := filter (\<lambda>j. j \<noteq> i) (el_started l)\<rparr>"

text \<open>The destructor: \<open>~TimeoutData\<close> stops an active timer, the others do nothing.\<close>

definition destroyWatcher :: "nat \<Rightarrow> Watcher \<Rightarrow> EvLoop \<Rightarrow> EvLoop" where
  "destroyWatcher i w l =
     (let l' = (if wa_active w then ev_stop i l else l) in l'\<lparr>el_objects := (el_objects l')(i := None)\<rparr>)"

definition release :: "nat \<Rightarrow> EvLoop \<Rightarrow> EvLoop" where
  "release i l =
     (case el_objects l i of
        None \<Rightarrow> l
      | Some w \<Rightarrow> if \<not> wa_self w \<and> wa_handles w = 0 then destroyWatcher i w l else l)"

section \<open>Creating watchers\<close>

definition newWatcher :: "WatcherKind \<Rightarrow> bool \<Rightarrow> EvLoop \<Rightarrow> nat \<times> EvLoop" where
  "newWatcher k act l =
     (let i = el_next l in
      (i, l\<lparr>el_next := Suc i, el_started := el_started l @ [i],
            el_objects := (el_objects l)(i := Some \<lparr>wa_kind = k, wa_active = act, wa_self = True, wa_handles = 1\<rparr>)\<rparr>))"

definition mkIoWatch :: "EvLoop \<Rightarrow> nat \<times> EvLoop" where
  "mkIoWatch l = newWatcher WK_Io False l"

definition mkSignalWatch :: "EvLoop \<Rightarrow> nat \<times> EvLoop" where
  "mkSignalWatch l = newWatcher WK_Signal False l"

definition mkTimeoutWatch :: "EvLoop \<Rightarrow> nat \<times> EvLoop" where
  "mkTimeoutWatch l = newWatcher WK_Timeout True l"

definition tw_makeTimeout :: "EvLoop \<Rightarrow> nat \<times> EvLoop" where
  "tw_makeTimeout l = newWatcher WK_Time True l"

definition loopStop :: "EvLoop \<Rightarrow> EvLoop" where
  "loopStop l = l\<lparr>el_broken := True\<rparr>"

section \<open>Handles\<close>

text \<open>A client drops a handle: a \<open>shared_ptr\<close> to a watcher goes, or a \<open>Timer\<close> is overwritten by move assignment,
  which resets the old \<open>m_timer\<close> without cancelling it. A handle can be copied as long as there is one.\<close>

definition dropHandle :: "nat \<Rightarrow> EvLoop \<Rightarrow> EvLoop" where
  "dropHandle i l =
     (case el_objects l i of
        None \<Rightarrow> l
      | Some w \<Rightarrow> if wa_handles w = 0 then l else release i (setWatcher i (w\<lparr>wa_handles := wa_handles w - 1\<rparr>) l))"

definition copyHandle :: "nat \<Rightarrow> EvLoop \<Rightarrow> EvLoop" where
  "copyHandle i l =
     (case el_objects l i of
        None \<Rightarrow> l
      | Some w \<Rightarrow> if wa_handles w = 0 then l else setWatcher i (w\<lparr>wa_handles := wa_handles w + 1\<rparr>) l)"

text \<open>\<open>TimeoutData::cancel\<close>.\<close>

definition data_cancel :: "nat \<Rightarrow> Watcher \<Rightarrow> EvLoop \<Rightarrow> EvLoop" where
  "data_cancel i w l = setWatcher i (w\<lparr>wa_active := False\<rparr>) (ev_stop i l)"

text \<open>Cancelling by a handle: \<open>TimeoutWatcher::cancel\<close> also gives up the object's own reference (the handle stays);
  \<open>Timer::cancel\<close> and \<open>~Timer\<close> cancel and give up the handle. The other watchers have no such operation.\<close>

definition cancelHandle :: "nat \<Rightarrow> EvLoop \<Rightarrow> EvLoop" where
  "cancelHandle i l =
     (case el_objects l i of
        None \<Rightarrow> l
      | Some w \<Rightarrow>
          if wa_handles w = 0 then l
          else (case wa_kind w of
                  WK_Timeout \<Rightarrow> release i (data_cancel i (w\<lparr>wa_self := False\<rparr>) l)
                | WK_Time \<Rightarrow> dropHandle i (data_cancel i w l)
                | _ \<Rightarrow> l))"

datatype loop_op = Op_Io | Op_Signal | Op_Timeout | Op_Timer | Op_Copy nat | Op_Drop nat | Op_Cancel nat | Op_Stop

primrec applyOp :: "loop_op \<Rightarrow> EvLoop \<Rightarrow> EvLoop" where
  "applyOp Op_Io l = snd (mkIoWatch l)"
| "applyOp Op_Signal l = snd (mkSignalWatch l)"
| "applyOp Op_Timeout l = snd (mkTimeoutWatch l)"
| "applyOp Op_Timer l = snd (tw_makeTimeout l)"
| "applyOp (Op_Copy i) l = copyHandle i l"
| "applyOp (Op_Drop i) l = dropHandle i l"
| "applyOp (Op_Cancel i) l = cancelHandle i l"
| "applyOp Op_Stop l = loopStop l"

definition runOps :: "loop_op list \<Rightarrow> EvLoop \<Rightarrow> EvLoop" where
  "runOps ops l = fold applyOp ops l"

section \<open>Callbacks\<close>

text \<open>\<open>IoWatcher::cb\<close> and \<open>SignalWatcher::cb\<close>, with what the client's function does and returns.\<close>

definition io_cb :: "nat \<Rightarrow> loop_op list \<Rightarrow> bool \<Rightarrow> EvLoop \<Rightarrow> EvLoop result" where
  "io_cb i ops res l =
     rbind (watcherAt i l) (\<lambda>_.
       let l1 = runOps ops l in
       if res then Inr l1
       else rbind (watcherAt i l1) (\<lambda>w. Inr (release i (setWatcher i (w\<lparr>wa_self := False\<rparr>) (ev_stop i l1)))))"

definition signal_cb :: "nat \<Rightarrow> loop_op list \<Rightarrow> bool \<Rightarrow> EvLoop \<Rightarrow> EvLoop result" where
  "signal_cb i ops res l =
     rbind (watcherAt i l) (\<lambda>_.
       let l1 = runOps ops l in
       if res then Inr l1
       else rbind (watcherAt i l1) (\<lambda>w. Inr (release i (setWatcher i (w\<lparr>wa_self := False\<rparr>) (ev_stop i l1)))))"

text \<open>The function that a \<open>TimeWatcher\<close> hands to its \<open>TimeoutData\<close>: \<open>fkn(); m_tw.reset();\<close>\<close>

definition tw_fkn :: "nat \<Rightarrow> loop_op list \<Rightarrow> EvLoop \<Rightarrow> EvLoop result" where
  "tw_fkn i ops l =
     (let l1 = runOps ops l in
      rbind (watcherAt i l1) (\<lambda>w. Inr (release i (setWatcher i (w\<lparr>wa_self := False\<rparr>) l1))))"

text \<open>\<open>TimeoutData::cb\<close>.\<close>

definition data_cb :: "nat \<Rightarrow> loop_op list \<Rightarrow> EvLoop \<Rightarrow> EvLoop result" where
  "data_cb i ops l =
     rbind (watcherAt i l) (\<lambda>w.
       if \<not> wa_active w then Inr l
       else rbind (if wa_kind w = WK_Time then tw_fkn i ops (data_cancel i w l) else Inr (runOps ops (data_cancel i w l))) (\<lambda>l1.
         rbind (watcherAt i l1) (\<lambda>w1.
           if wa_kind w1 = WK_Timeout then Inr (release i (setWatcher i (w1\<lparr>wa_self := False\<rparr>) l1)) else Inr l1)))"

definition loopEvent :: "nat \<Rightarrow> loop_op list \<Rightarrow> bool \<Rightarrow> EvLoop \<Rightarrow> EvLoop result" where
  "loopEvent i ops res l =
     rbind (watcherAt i l) (\<lambda>w. case wa_kind w of
         WK_Io \<Rightarrow> io_cb i ops res l | WK_Signal \<Rightarrow> signal_cb i ops res l | _ \<Rightarrow> data_cb i ops l)"

section \<open>Life times\<close>

text \<open>Between two calls: libev only knows living objects, which keep themselves alive; a timer is
  active when it is started; no object is left without a reference.\<close>

definition loop_ok :: "EvLoop \<Rightarrow> bool" where
  "loop_ok l \<longleftrightarrow>
     (\<forall>i \<in> set (el_started l). \<exists>w. el_objects l i = Some w \<and> wa_self w) \<and>
     (\<forall>i w. el_objects l i = Some w \<longrightarrow>
        i < el_next l \<and> (wa_self w \<or> 0 < wa_handles w) \<and>
        (wa_active w \<longleftrightarrow> wa_kind w \<in> {WK_Timeout, WK_Time} \<and> i \<in> set (el_started l)))"

lemmas loop_defs = watcherAt_def setWatcher_def ev_stop_def destroyWatcher_def release_def newWatcher_def mkIoWatch_def
  mkSignalWatch_def mkTimeoutWatch_def tw_makeTimeout_def loopStop_def dropHandle_def copyHandle_def data_cancel_def cancelHandle_def

lemma loop_okD:
  assumes "loop_ok l"
  shows "i \<in> set (el_started l) \<Longrightarrow> \<exists>w. el_objects l i = Some w \<and> wa_self w"
    and "el_objects l i = Some w \<Longrightarrow> i < el_next l \<and> (wa_self w \<or> 0 < wa_handles w) \<and>
      (wa_active w \<longleftrightarrow> wa_kind w \<in> {WK_Timeout, WK_Time} \<and> i \<in> set (el_started l))"
  using assms by (auto simp: loop_ok_def)

lemma newWatcher_ok: "loop_ok l \<Longrightarrow> loop_ok (snd (newWatcher k (k \<in> {WK_Timeout, WK_Time}) l))"
  by (auto simp: loop_ok_def newWatcher_def Let_def less_Suc_eq)

text \<open>Changing one object, and destroying it when its last reference goes.\<close>

lemma release_ok:
  assumes "loop_ok l" and "el_objects l i = Some w" and "i \<in> set (el_started l) \<longrightarrow> wa_self w' \<and> wa_kind w' = wa_kind w \<and> wa_active w' = wa_active w"
    and "i \<notin> set (el_started l) \<longrightarrow> \<not> wa_active w'"
  shows "loop_ok (release i (setWatcher i w' l))"
proof (cases "\<not> wa_self w' \<and> wa_handles w' = 0")
  case True
  then show ?thesis using assms by (auto simp: loop_ok_def release_def setWatcher_def destroyWatcher_def Let_def)
next
  case False
  then show ?thesis using assms by (auto simp: loop_ok_def release_def setWatcher_def)
qed

lemma ev_stop_ok:
  assumes "loop_ok l" and "el_objects l i = Some w" and "wa_self w' \<or> 0 < wa_handles w'" and "\<not> wa_active w'"
  shows "loop_ok (setWatcher i w' (ev_stop i l))"
  using assms by (auto simp: loop_ok_def setWatcher_def ev_stop_def)

lemma data_cancel_ok:
  assumes "loop_ok l" and "el_objects l i = Some w" and "wa_self w' \<or> 0 < wa_handles w'"
  shows "loop_ok (data_cancel i w' l)"
  using ev_stop_ok [OF assms(1,2), of "w'\<lparr>wa_active := False\<rparr>"] assms(3) by (simp add: data_cancel_def)

lemma data_cancel_at [simp]:
  "el_objects (data_cancel i w l) i = Some (w\<lparr>wa_active := False\<rparr>)"
  "i \<notin> set (el_started (data_cancel i w l))"
  by (simp_all add: data_cancel_def setWatcher_def ev_stop_def)

lemma dropHandle_ok:
  assumes "loop_ok l"
  shows "loop_ok (dropHandle i l)"
proof (cases "el_objects l i")
  case (Some w)
  let ?w' = "w\<lparr>wa_handles := wa_handles w - 1\<rparr>"
  have "i \<in> set (el_started l) \<longrightarrow> wa_self ?w' \<and> wa_kind ?w' = wa_kind w \<and> wa_active ?w' = wa_active w"
    using loop_okD(1) [OF assms, of i] Some by auto
  moreover have "i \<notin> set (el_started l) \<longrightarrow> \<not> wa_active ?w'" using loop_okD(2) [OF assms Some] by auto
  ultimately have "loop_ok (release i (setWatcher i ?w' l))" by (rule release_ok [OF assms Some])
  then show ?thesis using Some assms by (simp add: dropHandle_def)
qed (use assms in \<open>simp add: dropHandle_def\<close>)

lemma copyHandle_ok: "loop_ok l \<Longrightarrow> loop_ok (copyHandle i l)"
  by (auto simp: copyHandle_def setWatcher_def loop_ok_def split: option.splits)

lemma cancelHandle_ok:
  assumes "loop_ok l"
  shows "loop_ok (cancelHandle i l)"
proof (cases "el_objects l i")
  case (Some w)
  show ?thesis
  proof (cases "wa_handles w = 0")
    case False
    then have ok: "loop_ok (data_cancel i w l)" "loop_ok (data_cancel i (w\<lparr>wa_self := False\<rparr>) l)"
      using data_cancel_ok [OF assms Some] by simp_all
    have "release i (data_cancel i (w\<lparr>wa_self := False\<rparr>) l) = data_cancel i (w\<lparr>wa_self := False\<rparr>) l"
      using False by (simp add: release_def)
    then show ?thesis using Some False assms ok dropHandle_ok [OF ok(1)] by (cases "wa_kind w") (simp_all add: cancelHandle_def)
  qed (use Some assms in \<open>simp add: cancelHandle_def\<close>)
qed (use assms in \<open>simp add: cancelHandle_def\<close>)

lemma loopStop_ok: "loop_ok l \<Longrightarrow> loop_ok (loopStop l)"
  by (simp add: loopStop_def loop_ok_def)

lemma applyOp_ok: "loop_ok l \<Longrightarrow> loop_ok (applyOp op l)"
  using newWatcher_ok [of l WK_Io] newWatcher_ok [of l WK_Signal] newWatcher_ok [of l WK_Timeout] newWatcher_ok [of l WK_Time]
  by (cases op) (simp_all add: mkIoWatch_def mkSignalWatch_def mkTimeoutWatch_def tw_makeTimeout_def
      copyHandle_ok dropHandle_ok cancelHandle_ok loopStop_ok)

lemma runOps_ok: "loop_ok l \<Longrightarrow> loop_ok (runOps ops l)"
  unfolding runOps_def by (induction ops arbitrary: l) (simp_all add: applyOp_ok)

text \<open>An object that refers to itself survives what clients do, unless it is a \<open>TimeoutWatcher\<close> that they
  cancel; it is not started again, and an I/O or signal watcher is not stopped.\<close>

definition survives :: "nat \<Rightarrow> Watcher \<Rightarrow> EvLoop \<Rightarrow> bool" where
  "survives i w l \<longleftrightarrow> (\<exists>w'. el_objects l i = Some w' \<and> wa_self w' \<and> wa_kind w' = wa_kind w)"

lemma applyOp_survives:
  assumes "loop_ok l" and "survives i w l" and "wa_kind w = WK_Timeout \<longrightarrow> op \<noteq> Op_Cancel i"
  shows "survives i w (applyOp op l)" and "i \<notin> set (el_started l) \<Longrightarrow> i \<notin> set (el_started (applyOp op l))"
    and "wa_kind w \<in> {WK_Io, WK_Signal} \<Longrightarrow> i \<in> set (el_started l) \<Longrightarrow> i \<in> set (el_started (applyOp op l))"
proof -
  obtain w' where w': "el_objects l i = Some w'" "wa_self w'" "wa_kind w' = wa_kind w" using assms(2) by (auto simp: survives_def)
  have i: "i < el_next l" using loop_okD(2) [OF assms(1) w'(1)] by simp
  show "survives i w (applyOp op l)"
    using w' i assms(3) by (cases op) (auto simp: survives_def loop_defs Let_def split: option.splits WatcherKind.splits if_splits)
  show "i \<notin> set (el_started l) \<Longrightarrow> i \<notin> set (el_started (applyOp op l))"
    using i by (cases op) (auto simp: loop_defs Let_def split: option.splits WatcherKind.splits if_splits)
  show "wa_kind w \<in> {WK_Io, WK_Signal} \<Longrightarrow> i \<in> set (el_started l) \<Longrightarrow> i \<in> set (el_started (applyOp op l))"
    using w' by (cases op) (auto simp: loop_defs Let_def split: option.splits WatcherKind.splits if_splits)
qed

lemma runOps_survives:
  assumes "loop_ok l" and "survives i w l" and "wa_kind w = WK_Timeout \<longrightarrow> Op_Cancel i \<notin> set ops"
  shows "survives i w (runOps ops l) \<and> (i \<notin> set (el_started l) \<longrightarrow> i \<notin> set (el_started (runOps ops l))) \<and>
    (wa_kind w \<in> {WK_Io, WK_Signal} \<longrightarrow> i \<in> set (el_started l) \<longrightarrow> i \<in> set (el_started (runOps ops l)))"
  using assms unfolding runOps_def
proof (induction ops arbitrary: l)
  case (Cons a ops)
  have no: "wa_kind w = WK_Timeout \<longrightarrow> a \<noteq> Op_Cancel i" "wa_kind w = WK_Timeout \<longrightarrow> Op_Cancel i \<notin> set ops" using Cons.prems(3) by auto
  note step = applyOp_survives [OF Cons.prems(1,2) no(1)]
  show ?case using Cons.IH [OF applyOp_ok [OF Cons.prems(1)] step(1) no(2)] step by simp
qed simp

text \<open>Giving up an object's own reference, once libev does not know it any more.\<close>

lemma selfReset_ok:
  assumes "loop_ok l" and "el_objects l i = Some w" and "i \<notin> set (el_started l)"
  shows "loop_ok (release i (setWatcher i (w\<lparr>wa_self := False\<rparr>) l))"
    and "el_started (release i (setWatcher i (w\<lparr>wa_self := False\<rparr>) l)) = el_started l"
proof -
  have idle: "\<not> wa_active w" using loop_okD(2) [OF assms(1,2)] assms(3) by simp
  show "loop_ok (release i (setWatcher i (w\<lparr>wa_self := False\<rparr>) l))"
    using assms(3) idle by (intro release_ok [OF assms(1,2)]) simp_all
  show "el_started (release i (setWatcher i (w\<lparr>wa_self := False\<rparr>) l)) = el_started l"
    using idle by (simp add: release_def setWatcher_def destroyWatcher_def)
qed

lemma watching_cb:
  assumes ok: "loop_ok l" and w: "el_objects l i = Some w" "wa_self w" and i: "i \<in> set (el_started l)" and k: "wa_kind w \<in> {WK_Io, WK_Signal}"
  shows "\<exists>l'. io_cb i ops res l = Inr l' \<and> loop_ok l' \<and> (i \<in> set (el_started l') \<longleftrightarrow> res)"
proof -
  have s: "survives i w l" using w by (simp add: survives_def)
  have r: "survives i w (runOps ops l)" "i \<in> set (el_started (runOps ops l))"
    using runOps_survives [OF ok s] k i by auto
  obtain w' where w': "el_objects (runOps ops l) i = Some w'" "wa_self w'" "wa_kind w' = wa_kind w" using r(1) by (auto simp: survives_def)
  note ok1 = runOps_ok [OF ok, of ops]
  have idle: "\<not> wa_active w'" using loop_okD(2) [OF ok1 w'(1)] w'(3) k by auto
  let ?l = "setWatcher i w' (ev_stop i (runOps ops l))"
  have okS: "loop_ok ?l" by (rule ev_stop_ok [OF ok1 w'(1)]) (simp_all add: w' idle)
  have at: "el_objects ?l i = Some w'" "i \<notin> set (el_started ?l)" by (simp_all add: setWatcher_def ev_stop_def)
  have "setWatcher i (w'\<lparr>wa_self := False\<rparr>) ?l = setWatcher i (w'\<lparr>wa_self := False\<rparr>) (ev_stop i (runOps ops l))"
    by (simp add: setWatcher_def)
  then show ?thesis using selfReset_ok [OF okS at] at(2) w(1) w'(1) ok1 r(2)
    by (cases res) (simp_all add: io_cb_def watcherAt_def Let_def)
qed

lemma data_cb_step:
  assumes ok: "loop_ok l" and w: "el_objects l i = Some w" "wa_self w" and i: "i \<in> set (el_started l)"
    and k: "wa_kind w \<in> {WK_Timeout, WK_Time}" and c: "wa_kind w = WK_Timeout \<longrightarrow> Op_Cancel i \<notin> set ops"
  obtains w' where "el_objects (runOps ops (data_cancel i w l)) i = Some w'" and "wa_self w'" and "wa_kind w' = wa_kind w"
    and "loop_ok (runOps ops (data_cancel i w l))" and "i \<notin> set (el_started (runOps ops (data_cancel i w l)))"
    and "wa_active w"
proof -
  have ok0: "loop_ok (data_cancel i w l)" using w(2) by (intro data_cancel_ok [OF ok w(1)]) simp
  have s: "survives i w (data_cancel i w l)" using w(2) by (simp add: survives_def)
  have r: "survives i w (runOps ops (data_cancel i w l))" "i \<notin> set (el_started (runOps ops (data_cancel i w l)))"
    using runOps_survives [OF ok0 s c] by simp_all
  have "wa_active w" using loop_okD(2) [OF ok w(1)] i k by simp
  then show ?thesis using that r runOps_ok [OF ok0, of ops] by (auto simp: survives_def)
qed

lemma timeout_cb:
  assumes ok: "loop_ok l" and w: "el_objects l i = Some w" "wa_self w" and i: "i \<in> set (el_started l)"
    and k: "wa_kind w = WK_Timeout" and c: "Op_Cancel i \<notin> set ops"
  shows "\<exists>l'. data_cb i ops l = Inr l' \<and> loop_ok l' \<and> i \<notin> set (el_started l')"
proof -
  have k': "wa_kind w \<in> {WK_Timeout, WK_Time}" "wa_kind w = WK_Timeout \<longrightarrow> Op_Cancel i \<notin> set ops" using k c by simp_all
  obtain w' where w': "el_objects (runOps ops (data_cancel i w l)) i = Some w'" "wa_kind w' = wa_kind w"
    and ok1: "loop_ok (runOps ops (data_cancel i w l))" and n: "i \<notin> set (el_started (runOps ops (data_cancel i w l)))"
    and act: "wa_active w"
    by (rule data_cb_step [OF ok w i k'])
  show ?thesis using selfReset_ok [OF ok1 w'(1) n] w(1) w' k act n by (simp add: data_cb_def watcherAt_def)
qed

lemma time_cb:
  assumes ok: "loop_ok l" and w: "el_objects l i = Some w" "wa_self w" and i: "i \<in> set (el_started l)" and k: "wa_kind w = WK_Time"
    and w': "el_objects (runOps ops (data_cancel i w l)) i = Some w'"
  shows "wa_handles w' = 0 \<Longrightarrow> data_cb i ops l = Inl Use_After_Free"
    and "0 < wa_handles w' \<Longrightarrow> \<exists>l'. data_cb i ops l = Inr l' \<and> loop_ok l' \<and> i \<notin> set (el_started l')"
proof -
  have k': "wa_kind w \<in> {WK_Timeout, WK_Time}" "wa_kind w = WK_Timeout \<longrightarrow> Op_Cancel i \<notin> set ops" using k by simp_all
  obtain w1 where w1: "el_objects (runOps ops (data_cancel i w l)) i = Some w1" "wa_kind w1 = wa_kind w"
    and ok1: "loop_ok (runOps ops (data_cancel i w l))" and n: "i \<notin> set (el_started (runOps ops (data_cancel i w l)))"
    and act: "wa_active w"
    by (rule data_cb_step [OF ok w i k'])
  have kk: "wa_kind w' = WK_Time" using w' w1 k by simp
  let ?l = "release i (setWatcher i (w'\<lparr>wa_self := False\<rparr>) (runOps ops (data_cancel i w l)))"
  have run: "data_cb i ops l = rbind (watcherAt i ?l) (\<lambda>w1. if wa_kind w1 = WK_Timeout then Inr (release i (setWatcher i (w1\<lparr>wa_self := False\<rparr>) ?l)) else Inr ?l)"
    using w(1) k act w' by (simp add: data_cb_def tw_fkn_def watcherAt_def Let_def)
  show "data_cb i ops l = Inl Use_After_Free" if "wa_handles w' = 0"
    using that unfolding run by (simp add: watcherAt_def release_def setWatcher_def destroyWatcher_def Let_def ev_stop_def)
  show "\<exists>l'. data_cb i ops l = Inr l' \<and> loop_ok l' \<and> i \<notin> set (el_started l')" if "0 < wa_handles w'"
  proof -
    have "el_objects ?l i = Some (w'\<lparr>wa_self := False\<rparr>)" using that by (simp add: release_def setWatcher_def)
    then show ?thesis using selfReset_ok [OF ok1 w' n] n kk unfolding run by (simp add: watcherAt_def)
  qed
qed

section \<open>Runs of the loop\<close>

text \<open>What the program does between two events, and an event of a watcher that libev knows.\<close>

inductive loop_steps :: "EvLoop \<Rightarrow> EvLoop \<Rightarrow> bool" for l where
  start: "loop_steps l l"
| client: "loop_steps l m \<Longrightarrow> loop_steps l (applyOp op m)"
| event: "loop_steps l m \<Longrightarrow> i \<in> set (el_started m) \<Longrightarrow> loopEvent i ops res m = Inr m' \<Longrightarrow> loop_steps l m'"

lemma signal_cb_eq: "signal_cb = io_cb"
  by (intro ext) (simp add: signal_cb_def io_cb_def)

lemma loopEvent_kind:
  assumes "el_objects l i = Some w"
  shows "wa_kind w \<in> {WK_Io, WK_Signal} \<Longrightarrow> loopEvent i ops res l = io_cb i ops res l"
    and "wa_kind w \<in> {WK_Timeout, WK_Time} \<Longrightarrow> loopEvent i ops res l = data_cb i ops l"
  using assms by (auto simp: loopEvent_def watcherAt_def signal_cb_eq)

lemma WatcherKind_pairs: "wa_kind w \<in> {WK_Io, WK_Signal} \<or> wa_kind w = WK_Timeout \<or> wa_kind w = WK_Time"
  by (cases "wa_kind w") simp_all

lemma applyOp_next: "el_next l \<le> el_next (applyOp op l)"
  by (cases op) (auto simp: loop_defs Let_def split: option.splits WatcherKind.splits)

lemma applyOp_not_started:
  assumes "i < el_next l" and "i \<notin> set (el_started l)"
  shows "i \<notin> set (el_started (applyOp op l))"
  using assms by (cases op) (auto simp: loop_defs Let_def split: option.splits WatcherKind.splits)

lemma runOps_not_started:
  assumes "i < el_next l" and "i \<notin> set (el_started l)"
  shows "i \<notin> set (el_started (runOps ops l)) \<and> i < el_next (runOps ops l)"
  using assms unfolding runOps_def
proof (induction ops arbitrary: l)
  case (Cons a ops)
  have "i < el_next (applyOp a l)" using Cons.prems(1) applyOp_next [of l a] by (rule less_le_trans)
  then show ?case using Cons.IH [of "applyOp a l"] applyOp_not_started [OF Cons.prems, of a] by simp
qed simp

lemma timeout_cb_ok:
  assumes ok: "loop_ok l" and w: "el_objects l i = Some w" "wa_self w" "wa_kind w = WK_Timeout"
    and r: "data_cb i ops l = Inr l'"
  shows "loop_ok l' \<and> i \<notin> set (el_started l')"
proof (cases "wa_active w")
  case False
  then show ?thesis using r w ok loop_okD(2) [OF ok w(1)] by (simp add: data_cb_def watcherAt_def)
next
  case True
  let ?m = "runOps ops (data_cancel i w l)"
  have ok0: "loop_ok (data_cancel i w l)" using w(2) by (intro data_cancel_ok [OF ok w(1)]) simp
  have ok1: "loop_ok ?m" by (rule runOps_ok [OF ok0])
  have "i < el_next (data_cancel i w l)" using loop_okD(2) [OF ok0, of i] by simp
  then have n: "i \<notin> set (el_started ?m)" using runOps_not_started [of i "data_cancel i w l" ops] by simp
  show ?thesis
  proof (cases "el_objects ?m i")
    case None
    then show ?thesis using r w True by (simp add: data_cb_def watcherAt_def)
  next
    case (Some w1)
    then show ?thesis using r w True ok1 n selfReset_ok [OF ok1 Some n]
      by (auto simp: data_cb_def watcherAt_def split: if_splits)
  qed
qed

lemma time_cb_ok:
  assumes ok: "loop_ok l" and w: "el_objects l i = Some w" "wa_self w" and i: "i \<in> set (el_started l)" and k: "wa_kind w = WK_Time"
    and r: "data_cb i ops l = Inr l'"
  shows "loop_ok l' \<and> i \<notin> set (el_started l')"
proof -
  have k': "wa_kind w \<in> {WK_Timeout, WK_Time}" "wa_kind w = WK_Timeout \<longrightarrow> Op_Cancel i \<notin> set ops" using k by simp_all
  obtain w' where w': "el_objects (runOps ops (data_cancel i w l)) i = Some w'" by (rule data_cb_step [OF ok w i k'])
  show ?thesis using time_cb [OF ok w i k w'] r by (cases "wa_handles w' = 0") auto
qed

lemma loopEvent_ok:
  assumes ok: "loop_ok l" and i: "i \<in> set (el_started l)" and r: "loopEvent i ops res l = Inr l'"
  shows "loop_ok l'"
proof -
  obtain w where w: "el_objects l i = Some w" "wa_self w" using loop_okD(1) [OF ok i] by auto
  show ?thesis
    using WatcherKind_pairs [of w] watching_cb [OF ok w i, of ops res] timeout_cb_ok [OF ok w, of ops l'] time_cb_ok [OF ok w i, of ops l']
      loopEvent_kind [OF w(1), of ops res] r by auto
qed

lemma mkEvLoop_ok: "loop_ok mkEvLoop"
  by (simp add: loop_ok_def mkEvLoop_def)

lemma loop_steps_ok: "loop_steps l m \<Longrightarrow> loop_ok l \<Longrightarrow> loop_ok m"
  by (induction rule: loop_steps.induct) (auto intro: applyOp_ok loopEvent_ok)

lemma reached_watcher:
  assumes "loop_steps mkEvLoop l" and "i \<in> set (el_started l)"
  obtains w where "loop_ok l" and "el_objects l i = Some w" and "wa_self w"
  using loop_steps_ok [OF assms(1) mkEvLoop_ok] loop_okD(1) [OF _ assms(2)] that by auto

text \<open>How many handles a client has left.\<close>

definition handlesOf :: "nat \<Rightarrow> EvLoop \<Rightarrow> nat" where
  "handlesOf i l = (case el_objects l i of None \<Rightarrow> 0 | Some w \<Rightarrow> wa_handles w)"

lemma applyOp_handles:
  assumes "i < el_next l"
  shows "op \<noteq> Op_Copy i \<Longrightarrow> handlesOf i (applyOp op l) \<le> handlesOf i l"
    and "op \<notin> {Op_Drop i, Op_Cancel i} \<Longrightarrow> handlesOf i l \<le> handlesOf i (applyOp op l)"
  using assms by (cases op; auto simp: handlesOf_def loop_defs Let_def split: option.splits WatcherKind.splits)+

lemma runOps_handles:
  assumes "i < el_next l"
  shows "Op_Copy i \<notin> set ops \<Longrightarrow> handlesOf i (runOps ops l) \<le> handlesOf i l"
    and "Op_Drop i \<notin> set ops \<Longrightarrow> Op_Cancel i \<notin> set ops \<Longrightarrow> handlesOf i l \<le> handlesOf i (runOps ops l)"
  using assms unfolding runOps_def
proof (induction ops arbitrary: l)
  case (Cons a ops)
  have n: "i < el_next (applyOp a l)" if "i < el_next l" for l using that applyOp_next [of l a] by (rule less_le_trans)
  { case 1
    then show ?case using Cons.IH(1) [OF _ n] applyOp_handles(1) [of i l a] by fastforce
  next
    case 2
    then show ?case using Cons.IH(2) [OF _ _ n] applyOp_handles(2) [of i l a] by fastforce }
qed simp_all

lemma cancel_last_handle:
  assumes "loop_ok l" and "survives i w l" and "wa_kind w = WK_Time" and "handlesOf i l \<le> 1"
  shows "handlesOf i (cancelHandle i l) = 0"
  using assms by (auto simp: survives_def handlesOf_def cancelHandle_def dropHandle_def data_cancel_def ev_stop_def setWatcher_def release_def)

lemma runOps_cancelled:
  assumes "loop_ok l" and "survives i w l" and "wa_kind w = WK_Time" and "handlesOf i l \<le> 1"
    and "Op_Copy i \<notin> set ops" and "Op_Cancel i \<in> set ops"
  shows "handlesOf i (runOps ops l) = 0"
proof -
  obtain us vs where ops: "ops = us @ Op_Cancel i # vs" using split_list [OF assms(6)] by auto
  let ?m = "runOps us l" and ?m' = "cancelHandle i (runOps us l)"
  have lt: "i < el_next l" if "loop_ok l" "survives i w l" for l using that loop_okD(2) [of l i] by (auto simp: survives_def)
  have m: "loop_ok ?m" "survives i w ?m" "handlesOf i ?m \<le> 1"
    using runOps_ok [OF assms(1)] runOps_survives [OF assms(1,2), of us] runOps_handles(1) [OF lt [OF assms(1,2)], of us] assms(3,4,5) ops by auto
  have m': "loop_ok ?m'" "survives i w ?m'"
    using cancelHandle_ok [OF m(1)] applyOp_survives(1) [OF m(1,2), of "Op_Cancel i"] assms(3) by simp_all
  have "handlesOf i (runOps vs ?m') \<le> 0"
    using runOps_handles(1) [OF lt [OF m'], of vs] cancel_last_handle [OF m(1,2) assms(3) m(3)] assms(5) ops by simp
  then show ?thesis using ops by (simp add: runOps_def)
qed

text \<open>What an event of one watcher leaves alone, apart from what the client's function does.\<close>

definition same_at :: "nat \<Rightarrow> EvLoop \<Rightarrow> EvLoop \<Rightarrow> bool" where
  "same_at i l l' \<longleftrightarrow> el_objects l' i = el_objects l i \<and> (i \<in> set (el_started l') \<longleftrightarrow> i \<in> set (el_started l))"

lemma other_same:
  assumes "j \<noteq> i"
  shows "same_at i l (data_cancel j w l)" and "same_at i l (release j (setWatcher j w l))"
    and "same_at i l (release j (setWatcher j w (ev_stop j l)))"
  using assms by (auto simp: same_at_def data_cancel_def ev_stop_def setWatcher_def release_def destroyWatcher_def Let_def)

lemma same_survives: "same_at i l l' \<Longrightarrow> survives i w l' \<longleftrightarrow> survives i w l"
  by (simp add: same_at_def survives_def)

lemma same_trans: "same_at i l l' \<Longrightarrow> same_at i l' l'' \<Longrightarrow> same_at i l l''"
  by (simp add: same_at_def)

lemma loopEvent_frame:
  assumes ok: "loop_ok l" and j: "j \<in> set (el_started l)" "j \<noteq> i" and r: "loopEvent j ops res l = Inr l'"
  obtains m where "loop_ok m" and "same_at i l m" and "same_at i (runOps ops m) l'"
proof -
  obtain w where w: "el_objects l j = Some w" "wa_self w" using loop_okD(1) [OF ok j(1)] by auto
  have refl: "same_at i k k" for k by (simp add: same_at_def)
  show thesis
  proof (cases "wa_kind w \<in> {WK_Io, WK_Signal}")
    case True
    then have "same_at i (runOps ops l) l'"
      using r w(1) other_same(3) [OF j(2)] refl
      by (auto simp: loopEvent_kind(1) [OF w(1)] io_cb_def watcherAt_def Let_def split: if_splits option.splits)
    then show thesis by (rule that [OF ok refl])
  next
    case False
    then have k: "wa_kind w \<in> {WK_Timeout, WK_Time}" using WatcherKind_pairs [of w] by auto
    have act: "wa_active w" using loop_okD(2) [OF ok w(1)] j(1) k by simp
    have ok0: "loop_ok (data_cancel j w l)" using w(2) by (intro data_cancel_ok [OF ok w(1)]) simp
    have "same_at i (runOps ops (data_cancel j w l)) l'"
      using r w(1) act other_same(2) [OF j(2)] refl same_trans [OF other_same(2) [OF j(2)] other_same(2) [OF j(2)]]
      by (auto simp: loopEvent_kind(2) [OF w(1) k] data_cb_def tw_fkn_def watcherAt_def Let_def split: if_splits option.splits)
    then show thesis by (rule that [OF ok0 other_same(1) [OF j(2)]])
  qed
qed

lemma idle_survives_event:
  assumes "loop_ok l" and "survives i w l" and "i \<notin> set (el_started l)" and "wa_kind w = WK_Time"
    and "j \<in> set (el_started l)" and "j \<noteq> i" and "loopEvent j ops res l = Inr l'"
  shows "survives i w l' \<and> i \<notin> set (el_started l')"
proof -
  obtain m where m: "loop_ok m" "same_at i l m" "same_at i (runOps ops m) l'" by (rule loopEvent_frame [OF assms(1,5,6,7)])
  have "survives i w m" "i \<notin> set (el_started m)" using m(2) assms(2,3) same_survives [OF m(2)] unfolding same_at_def by simp_all
  then have "survives i w (runOps ops m) \<and> i \<notin> set (el_started (runOps ops m))"
    using runOps_survives [OF m(1), of i w ops] assms(4) by simp
  then show ?thesis using m(3) same_survives [OF m(3)] unfolding same_at_def by simp
qed

section \<open>Properties\<close>

text \<open>
  C29: In every run of the event loop, an event of a registered watcher that is not a time service timer is
  handled without touching a destroyed object (provided a \<open>TimeoutWatcher\<close> is not cancelled by its own
  callback), whatever the client's function does with this and with other watchers. Afterwards an I/O or signal
  watcher is still registered exactly when the function returned true, and a timeout is not
  registered any more.\<close>

theorem watcher_event_safe:
  assumes "loop_steps mkEvLoop l" and "i \<in> set (el_started l)" and "map_option wa_kind (el_objects l i) \<noteq> Some WK_Time"
    and "map_option wa_kind (el_objects l i) = Some WK_Timeout \<longrightarrow> Op_Cancel i \<notin> set ops"
  shows "\<exists>l'. loopEvent i ops res l = Inr l' \<and> loop_steps mkEvLoop l' \<and>
    (i \<in> set (el_started l') \<longleftrightarrow> res \<and> map_option wa_kind (el_objects l i) \<noteq> Some WK_Timeout)"
proof -
  obtain w where ok: "loop_ok l" and w: "el_objects l i = Some w" "wa_self w" by (rule reached_watcher [OF assms(1,2)])
  have "\<exists>l'. loopEvent i ops res l = Inr l' \<and> (i \<in> set (el_started l') \<longleftrightarrow> res \<and> wa_kind w \<noteq> WK_Timeout)"
    using WatcherKind_pairs [of w] watching_cb [OF ok w assms(2), of ops res] timeout_cb [OF ok w assms(2), of ops]
      loopEvent_kind [OF w(1), of ops res] assms(3,4) w(1) by auto
  then show ?thesis using loop_steps.event [OF assms(1,2), of ops res] w(1) by auto
qed

theorem watcher_event_safe_witness:
  "\<exists>l'. loopEvent 0 [Op_Drop 0, Op_Timer] False (applyOp Op_Io mkEvLoop) = Inr l' \<and> loop_steps mkEvLoop l' \<and> 0 \<notin> set (el_started l')"
  using watcher_event_safe [OF loop_steps.client [OF loop_steps.start, of mkEvLoop Op_Io], of 0 "[Op_Drop 0, Op_Timer]" False]
  by (simp add: mkIoWatch_def newWatcher_def mkEvLoop_def Let_def)

text \<open>
  C30: A fired timer of the time service: when its callback lets go of the last handle (as \<open>cleanTimer\<close> of the
  master's states does), the timer object is destroyed inside its own callback and \<open>TimeoutData::cb\<close> reads it
  afterwards; when the handle is kept, the event is handled.\<close>

theorem time_watcher_outlives_callback:
  assumes "loop_steps mkEvLoop l" and "i \<in> set (el_started l)" and "map_option wa_kind (el_objects l i) = Some WK_Time"
  shows "(handlesOf i l \<le> 1 \<longrightarrow> Op_Copy i \<notin> set ops \<longrightarrow> Op_Cancel i \<in> set ops \<longrightarrow> loopEvent i ops res l = Inl Use_After_Free) \<and>
    (0 < handlesOf i l \<longrightarrow> Op_Drop i \<notin> set ops \<longrightarrow> Op_Cancel i \<notin> set ops \<longrightarrow>
      (\<exists>l'. loopEvent i ops res l = Inr l' \<and> i \<notin> set (el_started l')))"
proof (intro conjI)
  obtain w where ok: "loop_ok l" and w: "el_objects l i = Some w" "wa_self w" by (rule reached_watcher [OF assms(1,2)])
  have k: "wa_kind w = WK_Time" using assms(3) w(1) by simp
  have k': "wa_kind w \<in> {WK_Timeout, WK_Time}" "wa_kind w = WK_Timeout \<longrightarrow> Op_Cancel i \<notin> set ops" using k by simp_all
  obtain w' where w': "el_objects (runOps ops (data_cancel i w l)) i = Some w'" by (rule data_cb_step [OF ok w assms(2) k'])
  have ok0: "loop_ok (data_cancel i w l)" using w(2) by (intro data_cancel_ok [OF ok w(1)]) simp
  have s: "survives i w (data_cancel i w l)" using w(2) by (simp add: survives_def)
  have h: "handlesOf i (data_cancel i w l) = handlesOf i l" using w(1) by (simp add: handlesOf_def)
  have lt: "i < el_next (data_cancel i w l)" using loop_okD(2) [OF ok0, of i] by simp
  have h': "handlesOf i (runOps ops (data_cancel i w l)) = wa_handles w'" using w' by (simp add: handlesOf_def)
  show "handlesOf i l \<le> 1 \<longrightarrow> Op_Copy i \<notin> set ops \<longrightarrow> Op_Cancel i \<in> set ops \<longrightarrow> loopEvent i ops res l = Inl Use_After_Free"
    using runOps_cancelled [OF ok0 s k] time_cb(1) [OF ok w assms(2) k w'] loopEvent_kind(2) [OF w(1) k'(1)] h h' by auto
  show "0 < handlesOf i l \<longrightarrow> Op_Drop i \<notin> set ops \<longrightarrow> Op_Cancel i \<notin> set ops \<longrightarrow>
      (\<exists>l'. loopEvent i ops res l = Inr l' \<and> i \<notin> set (el_started l'))"
    using runOps_handles(2) [OF lt, of ops] time_cb(2) [OF ok w assms(2) k w'] loopEvent_kind(2) [OF w(1) k'(1)] h h' by auto
qed

theorem time_watcher_outlives_callback_witness:
  "loopEvent 0 [Op_Timer, Op_Cancel 0] True (applyOp Op_Timer mkEvLoop) = Inl Use_After_Free \<and>
   (\<exists>l'. loopEvent 0 [Op_Timer] True (applyOp Op_Timer mkEvLoop) = Inr l' \<and> 0 \<notin> set (el_started l'))"
  using time_watcher_outlives_callback [OF loop_steps.client [OF loop_steps.start, of mkEvLoop Op_Timer], of 0]
  by (simp add: tw_makeTimeout_def newWatcher_def mkEvLoop_def Let_def handlesOf_def)

text \<open>
  A timer of the time service that is cancelled before it fires never fires, and its object is
  never destroyed: it keeps the reference \<open>m_tw\<close> to itself, which only the callback gives up.\<close>

theorem cancelled_timer_stays_allocated:
  assumes "loop_steps mkEvLoop l" and "el_objects l i = Some w" and "wa_kind w = WK_Time" and "wa_self w" and "0 < wa_handles w"
    and "loop_steps (cancelHandle i l) l'"
  shows "i \<notin> set (el_started l') \<and> (\<exists>w'. el_objects l' i = Some w' \<and> wa_self w')"
proof -
  have ok: "loop_ok l" by (rule loop_steps_ok [OF assms(1) mkEvLoop_ok])
  have s: "survives i w l" using assms(2,4) by (simp add: survives_def)
  have c: "survives i w (cancelHandle i l)" using applyOp_survives(1) [OF ok s, of "Op_Cancel i"] assms(3) by simp
  have n: "i \<notin> set (el_started (cancelHandle i l))" using assms(2,3,4,5)
    by (simp add: cancelHandle_def dropHandle_def release_def data_cancel_def setWatcher_def ev_stop_def)
  have "loop_ok l' \<and> survives i w l' \<and> i \<notin> set (el_started l')"
    using assms(6) cancelHandle_ok [OF ok, of i] c n
  proof (induction rule: loop_steps.induct)
    case (client m op)
    then show ?case using applyOp_ok [of m op] applyOp_survives(1,2) [of m i w op] assms(3) by auto
  next
    case (event m j ops res m')
    then have "i \<noteq> j" by auto
    then show ?case using event idle_survives_event [of m i w j ops res m'] loopEvent_ok [of m j ops res m'] assms(3) by auto
  qed simp
  then show ?thesis by (auto simp: survives_def)
qed

theorem cancelled_timer_stays_allocated_witness:
  "\<exists>w'. el_objects (applyOp (Op_Drop 0) (applyOp Op_Io (cancelHandle 0 (applyOp Op_Timer mkEvLoop)))) 0 = Some w' \<and> wa_self w'"
  using cancelled_timer_stays_allocated [OF loop_steps.client [OF loop_steps.start, of mkEvLoop Op_Timer], of 0 _
      "applyOp (Op_Drop 0) (applyOp Op_Io (cancelHandle 0 (applyOp Op_Timer mkEvLoop)))"]
    loop_steps.client [OF loop_steps.client [OF loop_steps.start, of "cancelHandle 0 (applyOp Op_Timer mkEvLoop)" Op_Io], of "Op_Drop 0"]
  by (simp add: tw_makeTimeout_def newWatcher_def mkEvLoop_def Let_def)

end
