(* ===== verification/Timer_Refinement.thy ===== *)
theory Timer_Refinement
  imports Event_Loop Time_Service
begin

text \<open>
  The two views of timers agree: \<open>Time_Service\<close>, which the model of the master uses, is an abstraction of
  the objects of \<open>Event_Loop\<close>. The abstract service numbers its timers from 0; the list \<open>ids\<close> says which object of
  the loop stands for which timer. Other watchers may come and go in between.
\<close>

section \<open>Abstract operations\<close>

text \<open>The number of a timer object.\<close>

fun indexOf :: "nat \<Rightarrow> nat list \<Rightarrow> nat option" where
  "indexOf i [] = None"
| "indexOf i (j # js) = (if i = j then Some 0 else map_option Suc (indexOf i js))"

type_synonym 'cb timers = "nat list \<times> 'cb TimeService"

text \<open>What an operation on the loop means for the service. The arguments of the calls of \<open>makeTimeout\<close> are given
  for each timer.\<close>

fun absOp :: "(nat \<Rightarrow> time \<times> 'cb) \<Rightarrow> loop_op \<Rightarrow> EvLoop \<Rightarrow> 'cb timers \<Rightarrow> 'cb timers" where
  "absOp arg Op_Timer l (ids, ts) =
     (ids @ [fst (tw_makeTimeout l)], snd (makeTimeout (fst (arg (ts_nextId ts))) (snd (arg (ts_nextId ts))) ts))"
| "absOp arg (Op_Cancel i) l (ids, ts) =
     (ids, if 0 < handlesOf i l then snd (timer_cancel (indexOf i ids) ts) else ts)"
| "absOp arg op l a = a"

fun absOps :: "(nat \<Rightarrow> time \<times> 'cb) \<Rightarrow> loop_op list \<Rightarrow> EvLoop \<Rightarrow> 'cb timers \<Rightarrow> 'cb timers" where
  "absOps arg [] l a = a"
| "absOps arg (op # ops) l a = absOps arg ops (applyOp op l) (absOp arg op l a)"

text \<open>An event: a timer is stopped and its function called, another watcher's function is called.\<close>

definition absEvent :: "(nat \<Rightarrow> time \<times> 'cb) \<Rightarrow> nat \<Rightarrow> loop_op list \<Rightarrow> EvLoop \<Rightarrow> 'cb timers \<Rightarrow> 'cb timers" where
  "absEvent arg i ops l a =
     (case el_objects l i of
        None \<Rightarrow> a
      | Some w \<Rightarrow>
          (if wa_kind w \<in> {WK_Io, WK_Signal} then absOps arg ops l a
           else absOps arg ops (data_cancel i w l)
                  (case indexOf i (fst a) of None \<Rightarrow> a | Some t \<Rightarrow> (fst a, snd (td_cb t (snd a))))))"

section \<open>Simulation\<close>

definition timers_sim :: "EvLoop \<Rightarrow> 'cb timers \<Rightarrow> bool" where
  "timers_sim l a \<longleftrightarrow> (case a of (ids, ts) \<Rightarrow>
     loop_ok l \<and> ts_inv ts \<and> length ids = ts_nextId ts \<and> distinct ids \<and> (\<forall>i \<in> set ids. i < el_next l) \<and>
     (\<forall>i w. el_objects l i = Some w \<longrightarrow> (i \<in> set ids \<longleftrightarrow> wa_kind w = WK_Time)) \<and>
     map (\<lambda>p. ids ! pt_id p) (ts_pending ts) = filter (\<lambda>i. i \<in> set ids) (el_started l))"

lemma indexOf_None: "indexOf i ids = None \<longleftrightarrow> i \<notin> set ids"
  by (induction ids) auto

lemma indexOf_Some: "indexOf i ids = Some t \<Longrightarrow> t < length ids \<and> ids ! t = i"
  by (induction ids arbitrary: t) (auto split: if_splits)

lemma map_td_cancel:
  assumes "ts_inv ts" and "length ids = ts_nextId ts" and "distinct ids" and "t < length ids"
  shows "map (\<lambda>p. ids ! pt_id p) (ts_pending (td_cancel t ts)) = filter (\<lambda>i. i \<noteq> ids ! t) (map (\<lambda>p. ids ! pt_id p) (ts_pending ts))"
proof -
  have "(pt_id p \<noteq> t) = (ids ! pt_id p \<noteq> ids ! t)" if "p \<in> set (ts_pending ts)" for p
    using assms that by (auto simp: ts_inv_def nth_eq_iff_index_eq)
  then have "filter (\<lambda>p. pt_id p \<noteq> t) (ts_pending ts) = filter (\<lambda>p. ids ! pt_id p \<noteq> ids ! t) (ts_pending ts)"
    by (rule filter_cong [OF refl])
  then show ?thesis by (simp add: td_cancel_def filter_map comp_def)
qed

lemma td_cancel_next [simp]: "ts_nextId (td_cancel t ts) = ts_nextId ts"
  by (simp add: td_cancel_def)

text \<open>Which kinds of objects there are does not change.\<close>

definition same_kinds :: "EvLoop \<Rightarrow> EvLoop \<Rightarrow> bool" where
  "same_kinds l l' \<longleftrightarrow> el_next l' = el_next l \<and>
     (\<forall>i w'. el_objects l' i = Some w' \<longrightarrow> (\<exists>w. el_objects l i = Some w \<and> wa_kind w = wa_kind w'))"

lemma sim_step:
  assumes "timers_sim l (ids, ts)" and "same_kinds l l'" and "loop_ok l'" and "ts_inv ts'" and "ts_nextId ts' = ts_nextId ts"
    and "map (\<lambda>p. ids ! pt_id p) (ts_pending ts') = filter (\<lambda>i. i \<in> set ids) (el_started l')"
  shows "timers_sim l' (ids, ts')"
  using assms by (fastforce simp: timers_sim_def same_kinds_def)

lemma release_same:
  assumes "el_objects l i = Some w" and "wa_kind w' = wa_kind w"
  shows "same_kinds l (release i (setWatcher i w' l))" "same_kinds l (setWatcher i w' l)"
    "same_kinds l (release i (data_cancel i w' l))" "same_kinds l (data_cancel i w' l)"
  using assms by (auto simp: same_kinds_def release_def setWatcher_def destroyWatcher_def data_cancel_def ev_stop_def Let_def)

lemma same_kinds_trans: "same_kinds l l' \<Longrightarrow> same_kinds l' l'' \<Longrightarrow> same_kinds l l''"
  unfolding same_kinds_def by metis

lemma same_kinds_refl [simp]: "same_kinds l l"
  by (simp add: same_kinds_def)

lemma dropHandle_same: "same_kinds l (dropHandle i l)"
  using release_same(1) [of l i] by (auto simp: dropHandle_def split: option.splits)

lemma copyHandle_same: "same_kinds l (copyHandle i l)"
  using release_same(2) [of l i] by (auto simp: copyHandle_def split: option.splits)

lemma cancelHandle_same: "same_kinds l (cancelHandle i l)"
  using release_same(3) [of l i] same_kinds_trans [OF release_same(4) [of l i] dropHandle_same]
  by (auto simp: cancelHandle_def split: option.splits WatcherKind.splits)

text \<open>Giving up references does not stop a watcher.\<close>

lemma dropHandle_started:
  assumes "loop_ok l"
  shows "el_started (dropHandle i l) = el_started l"
  using loop_okD [OF assms, of i]
  by (auto simp: dropHandle_def release_def setWatcher_def destroyWatcher_def split: option.splits)

lemma cancelHandle_started:
  assumes "loop_ok l"
  shows "el_started (cancelHandle i l) =
    (case el_objects l i of None \<Rightarrow> el_started l
     | Some w \<Rightarrow> if 0 < wa_handles w \<and> wa_kind w \<in> {WK_Timeout, WK_Time} then filter (\<lambda>j. j \<noteq> i) (el_started l) else el_started l)"
proof (cases "el_objects l i")
  case (Some w)
  have "el_started (dropHandle i (data_cancel i w l)) = el_started (data_cancel i w l)" if "0 < wa_handles w"
    using data_cancel_ok [OF assms Some, of w] that by (intro dropHandle_started) simp
  moreover have "el_started (data_cancel i w' l) = filter (\<lambda>j. j \<noteq> i) (el_started l)" for w'
    by (simp add: data_cancel_def setWatcher_def ev_stop_def)
  moreover have "release i (data_cancel i (w\<lparr>wa_self := False\<rparr>) l) = data_cancel i (w\<lparr>wa_self := False\<rparr>) l" if "0 < wa_handles w"
    using that by (simp add: release_def)
  ultimately show ?thesis using Some by (cases "wa_kind w") (auto simp: cancelHandle_def)
qed (simp add: cancelHandle_def)

lemma timers_simD:
  assumes "timers_sim l (ids, ts)"
  shows "loop_ok l" "ts_inv ts" "length ids = ts_nextId ts" "distinct ids" "\<forall>i \<in> set ids. i < el_next l"
    "el_objects l i = Some w \<Longrightarrow> i \<in> set ids \<longleftrightarrow> wa_kind w = WK_Time"
    "map (\<lambda>p. ids ! pt_id p) (ts_pending ts) = filter (\<lambda>i. i \<in> set ids) (el_started l)"
  using assms by (simp_all add: timers_sim_def)

text \<open>A new watcher: a timer, or none of the service's business.\<close>

lemma sim_new:
  assumes "timers_sim l (ids, ts)" and "k \<noteq> WK_Time" and "loop_ok (snd (newWatcher k act l))"
  shows "timers_sim (snd (newWatcher k act l)) (ids, ts)"
proof -
  note d = timers_simD [OF assms(1)]
  have "el_next l \<notin> set ids" using d(5) by auto
  then show ?thesis using d(2-5,6,7) assms(2,3) by (auto simp: timers_sim_def newWatcher_def Let_def less_Suc_eq)
qed

lemma sim_timer:
  assumes "timers_sim l (ids, ts)"
  shows "timers_sim (snd (tw_makeTimeout l)) (ids @ [fst (tw_makeTimeout l)], snd (makeTimeout s cb ts))"
proof -
  note d = timers_simD [OF assms]
  let ?i = "el_next l" and ?l = "snd (tw_makeTimeout l)"
  have i: "?i \<notin> set ids" "?i \<notin> set (el_started l)" using d(5) loop_okD [OF d(1)] by (auto dest: loop_okD(2) [OF d(1)])
  have l: "fst (tw_makeTimeout l) = ?i" "el_next ?l = Suc ?i" "el_started ?l = el_started l @ [?i]"
    "el_objects ?l = (el_objects l)(?i := Some \<lparr>wa_kind = WK_Time, wa_active = True, wa_self = True, wa_handles = 1\<rparr>)"
    by (simp_all add: tw_makeTimeout_def newWatcher_def Let_def)
  have ts: "ts_pending (snd (makeTimeout s cb ts)) = ts_pending ts @ [\<lparr>pt_id = ts_nextId ts, pt_deadline = ts_now ts + s, pt_cb = cb\<rparr>]"
    "ts_nextId (snd (makeTimeout s cb ts)) = Suc (ts_nextId ts)" "ts_inv (snd (makeTimeout s cb ts))"
    using d(2) by (simp_all add: makeTimeout_def) (simp_all add: td_start_def)
  have old: "map (\<lambda>p. (ids @ [?i]) ! pt_id p) (ts_pending ts) = map (\<lambda>p. ids ! pt_id p) (ts_pending ts)"
    using d(2,3) by (auto simp: ts_inv_def nth_append)
  have "filter (\<lambda>j. j \<in> set (ids @ [?i])) (el_started l) = filter (\<lambda>j. j \<in> set ids) (el_started l)"
    using i(2) by (intro filter_cong) auto
  then have "map (\<lambda>p. (ids @ [?i]) ! pt_id p) (ts_pending (snd (makeTimeout s cb ts))) = filter (\<lambda>j. j \<in> set (ids @ [?i])) (el_started ?l)"
    using d(3,7) old by (simp add: ts l nth_append)
  moreover have "loop_ok ?l" using applyOp_ok [OF d(1), of Op_Timer] by simp
  moreover have "(j \<in> set (ids @ [?i])) = (wa_kind w = WK_Time)" if "el_objects ?l j = Some w" for j w
    using that d(6) [of j w] by (auto simp: l split: if_splits)
  ultimately show ?thesis using d(3,4,5) i(1) ts(2,3) unfolding timers_sim_def l(1,2) by auto
qed

lemma absOp_sim:
  assumes "timers_sim l (ids, ts)"
  shows "timers_sim (applyOp op l) (absOp arg op l (ids, ts))"
proof -
  note d = timers_simD [OF assms]
  note ok = applyOp_ok [OF d(1), of op]
  show ?thesis
  proof (cases op)
    case Op_Timer
    then show ?thesis using sim_timer [OF assms] by simp
  next
    case (Op_Copy i)
    have "el_started (copyHandle i l) = el_started l" by (simp add: copyHandle_def setWatcher_def split: option.splits)
    then show ?thesis using Op_Copy ok sim_step [OF assms copyHandle_same _ d(2) refl] d(7) by simp
  next
    case (Op_Drop i)
    then show ?thesis using ok sim_step [OF assms dropHandle_same _ d(2) refl] d(7) dropHandle_started [OF d(1)] by simp
  next
    case (Op_Cancel i)
    let ?l = "cancelHandle i l" and ?ts = "if 0 < handlesOf i l then snd (timer_cancel (indexOf i ids) ts) else ts"
    have "map (\<lambda>p. ids ! pt_id p) (ts_pending ?ts) = filter (\<lambda>j. j \<in> set ids) (el_started ?l) \<and> ts_inv ?ts \<and> ts_nextId ?ts = ts_nextId ts"
    proof (cases "indexOf i ids")
      case None
      then have "i \<notin> set ids" by (simp add: indexOf_None)
      then have "filter (\<lambda>j. j \<in> set ids) (el_started ?l) = filter (\<lambda>j. j \<in> set ids) (el_started l)"
        by (auto simp: cancelHandle_started [OF d(1)] intro!: filter_cong split: option.splits)
      then show ?thesis using None d(2,7) by (simp add: timer_cancel_def)
    next
      case (Some t)
      note t = indexOf_Some [OF Some]
      have "filter (\<lambda>j. j \<in> set ids) (el_started ?l) =
          (if 0 < handlesOf i l then filter (\<lambda>j. j \<noteq> i) (filter (\<lambda>j. j \<in> set ids) (el_started l)) else filter (\<lambda>j. j \<in> set ids) (el_started l))"
        using d(6) [of i] t by (auto simp: cancelHandle_started [OF d(1)] handlesOf_def conj_commute split: option.splits)
      then show ?thesis using Some t d(2,7) map_td_cancel [OF d(2,3,4), of t] by (simp add: timer_cancel_def)
    qed
    then have "timers_sim ?l (ids, ?ts)" using ok unfolding Op_Cancel applyOp.simps
      by (intro sim_step [OF assms cancelHandle_same]) blast+
    then show ?thesis by (simp add: Op_Cancel)
  next
    case Op_Stop
    then show ?thesis using ok d by (simp add: loopStop_def timers_sim_def)
  qed (use ok sim_new [OF assms] in \<open>simp_all add: mkIoWatch_def mkSignalWatch_def mkTimeoutWatch_def\<close>)
qed

lemma absOps_sim: "timers_sim l a \<Longrightarrow> timers_sim (runOps ops l) (absOps arg ops l a)"
proof (induction ops arbitrary: l a)
  case (Cons op ops)
  obtain ids ts where "a = (ids, ts)" by (cases a)
  then show ?case using Cons.IH [OF absOp_sim, of l ids ts op arg] Cons.prems by (simp add: runOps_def)
qed (simp add: runOps_def)

lemma sim_selfReset:
  assumes "timers_sim l a" and "el_objects l i = Some w" and "i \<notin> set (el_started l)"
  shows "timers_sim (release i (setWatcher i (w\<lparr>wa_self := False\<rparr>) l)) a"
proof -
  obtain ids ts where a: "a = (ids, ts)" by (cases a)
  note d = timers_simD [OF assms(1) [unfolded a]] and r = selfReset_ok [OF timers_simD(1) [OF assms(1) [unfolded a]] assms(2,3)]
  have "same_kinds l (release i (setWatcher i (w\<lparr>wa_self := False\<rparr>) l))" by (rule release_same [OF assms(2)]) simp
  then show ?thesis unfolding a using d(7) r(2) by (intro sim_step [OF assms(1) [unfolded a] _ r(1) d(2) refl]) simp_all
qed

lemma sim_stop_other:
  assumes "timers_sim l a" and "el_objects l i = Some w" and "wa_kind w \<noteq> WK_Time" and "loop_ok l'" and "same_kinds l l'"
    and "el_started l' = filter (\<lambda>j. j \<noteq> i) (el_started l)"
  shows "timers_sim l' a"
proof -
  obtain ids ts where a: "a = (ids, ts)" by (cases a)
  note d = timers_simD [OF assms(1) [unfolded a]]
  have "i \<notin> set ids" using d(6) [OF assms(2)] assms(3) by simp
  then have "filter (\<lambda>j. j \<in> set ids) (el_started l') = filter (\<lambda>j. j \<in> set ids) (el_started l)"
    by (auto simp: assms(6) intro!: filter_cong)
  then show ?thesis unfolding a using d(7) by (intro sim_step [OF assms(1) [unfolded a] assms(5,4) d(2) refl]) simp
qed

lemma sim_watching:
  assumes "timers_sim l a" and "el_objects l i = Some w" "wa_self w" and "i \<in> set (el_started l)" and "wa_kind w \<in> {WK_Io, WK_Signal}"
    and "io_cb i ops res l = Inr l'"
  shows "timers_sim l' (absOps arg ops l a)"
proof -
  let ?m = "runOps ops l" and ?a = "absOps arg ops l a"
  have sim: "timers_sim ?m ?a" by (rule absOps_sim [OF assms(1)])
  have ok: "loop_ok l" "loop_ok ?m" using assms(1) sim by (auto simp: timers_sim_def split: prod.splits)
  have "survives i w l" using assms(2,3) by (simp add: survives_def)
  then have "survives i w ?m" using runOps_survives [OF ok(1)] assms(5) by auto
  then obtain w' where w': "el_objects ?m i = Some w'" "wa_self w'" "wa_kind w' = wa_kind w" by (auto simp: survives_def)
  let ?s = "setWatcher i w' (ev_stop i ?m)"
  have idle: "\<not> wa_active w'" using loop_okD(2) [OF ok(2) w'(1)] w'(3) assms(5) by auto
  have oks: "loop_ok ?s" by (rule ev_stop_ok [OF ok(2) w'(1)]) (simp_all add: w'(2) idle)
  have s: "same_kinds ?m ?s" "el_started ?s = filter (\<lambda>j. j \<noteq> i) (el_started ?m)"
    using w'(1) by (auto simp: same_kinds_def setWatcher_def ev_stop_def)
  have k: "wa_kind w' \<noteq> WK_Time" using w'(3) assms(5) by auto
  have "timers_sim ?s ?a" by (rule sim_stop_other [OF sim w'(1) k oks s])
  then have stop: "timers_sim (release i (setWatcher i (w'\<lparr>wa_self := False\<rparr>) ?s)) ?a"
    by (rule sim_selfReset) (simp_all add: setWatcher_def ev_stop_def)
  have "l' = (if res then ?m else release i (setWatcher i (w'\<lparr>wa_self := False\<rparr>) ?s))"
    using assms(2,6) w'(1) by (simp add: io_cb_def watcherAt_def Let_def setWatcher_def split: if_splits)
  then show ?thesis using sim stop by (cases res) simp_all
qed

lemma td_cb_started:
  assumes "timers_sim l (ids, ts)" and "t < length ids" and "ids ! t \<in> set (el_started l)"
  shows "snd (td_cb t ts) = td_cancel t ts" and "td_active t ts"
proof -
  note d = timers_simD [OF assms(1)]
  have "ids ! t \<in> set (filter (\<lambda>i. i \<in> set ids) (el_started l))" using assms(2,3) by simp
  then obtain p where p: "p \<in> set (ts_pending ts)" "ids ! pt_id p = ids ! t" unfolding d(7) [symmetric] by auto
  then have "pt_id p = t" using d(2-4) assms(2) by (auto simp: ts_inv_def nth_eq_iff_index_eq)
  then show act: "td_active t ts" using p(1) by (auto simp: td_active_def)
  show "snd (td_cb t ts) = td_cancel t ts" using td_cb_active [OF act] by auto
qed

text \<open>A timer leaves the loop when the service says that it fired.\<close>

lemma sim_fire:
  assumes "timers_sim l a" and "el_objects l i = Some w" "wa_self w" and "i \<in> set (el_started l)" and "wa_kind w \<in> {WK_Timeout, WK_Time}"
  shows "timers_sim (data_cancel i w l) (case indexOf i (fst a) of None \<Rightarrow> a | Some t \<Rightarrow> (fst a, snd (td_cb t (snd a))))"
proof -
  obtain ids ts where a: "a = (ids, ts)" by (cases a)
  note sim = assms(1) [unfolded a] and d = timers_simD [OF assms(1) [unfolded a]]
  have ok: "loop_ok (data_cancel i w l)" using assms(3) by (intro data_cancel_ok [OF d(1) assms(2)]) simp
  have same: "same_kinds l (data_cancel i w l)" "el_started (data_cancel i w l) = filter (\<lambda>j. j \<noteq> i) (el_started l)"
    using release_same(4) [OF assms(2) refl] by (simp_all add: data_cancel_def setWatcher_def ev_stop_def)
  show ?thesis
  proof (cases "indexOf i ids")
    case None
    then have "wa_kind w \<noteq> WK_Time" using d(6) [OF assms(2)] by (simp add: indexOf_None)
    then show ?thesis using sim_stop_other [OF assms(1,2) _ ok same] None by (simp add: a)
  next
    case (Some t)
    note t = indexOf_Some [OF Some]
    have cb: "snd (td_cb t ts) = td_cancel t ts" by (rule td_cb_started(1) [OF sim]) (use t assms(4) in simp_all)
    have "map (\<lambda>p. ids ! pt_id p) (ts_pending (td_cancel t ts)) = filter (\<lambda>j. j \<in> set ids) (el_started (data_cancel i w l))"
      using map_td_cancel [OF d(2,3,4), of t] t d(7) same(2) by (simp add: conj_commute)
    then have "timers_sim (data_cancel i w l) (ids, td_cancel t ts)" using d(2) by (intro sim_step [OF sim same(1) ok]) simp_all
    then show ?thesis using Some cb by (simp add: a)
  qed
qed

lemma absEvent_sim:
  assumes "timers_sim l a" and "i \<in> set (el_started l)" and "loopEvent i ops res l = Inr l'"
  shows "timers_sim l' (absEvent arg i ops l a)"
proof -
  have ok: "loop_ok l" using assms(1) by (auto simp: timers_sim_def split: prod.splits)
  obtain w where w: "el_objects l i = Some w" "wa_self w" using loop_okD(1) [OF ok assms(2)] by auto
  show ?thesis
  proof (cases "wa_kind w \<in> {WK_Io, WK_Signal}")
    case True
    have "io_cb i ops res l = Inr l'" using loopEvent_kind(1) [OF w(1) True] assms(3) by simp
    then show ?thesis using sim_watching [OF assms(1) w assms(2) True] w(1) True by (simp add: absEvent_def)
  next
    case False
    then have k: "wa_kind w \<in> {WK_Timeout, WK_Time}" using WatcherKind_pairs [of w] by auto
    let ?a = "case indexOf i (fst a) of None \<Rightarrow> a | Some t \<Rightarrow> (fst a, snd (td_cb t (snd a)))" and ?m = "runOps ops (data_cancel i w l)"
    have sim: "timers_sim ?m (absOps arg ops (data_cancel i w l) ?a)"
      by (rule absOps_sim [OF sim_fire [OF assms(1) w assms(2) k]])
    have "i < el_next (data_cancel i w l)" using loop_okD(2) [OF ok w(1)] by (simp add: data_cancel_def setWatcher_def ev_stop_def)
    then have n: "i \<notin> set (el_started ?m)" using runOps_not_started [of i "data_cancel i w l" ops] by simp
    have act: "wa_active w" using loop_okD(2) [OF ok w(1)] assms(2) k by simp
    have run: "data_cb i ops l = Inr l'" using loopEvent_kind(2) [OF w(1) k] assms(3) by simp
    show ?thesis
    proof (cases "el_objects ?m i")
      case None
      then show ?thesis using run w(1) act by (auto simp: data_cb_def tw_fkn_def watcherAt_def Let_def split: if_splits)
    next
      case (Some w1)
      note reset = sim_selfReset [OF sim Some n]
      have "l' = ?m \<or> l' = release i (setWatcher i (w1\<lparr>wa_self := False\<rparr>) ?m)"
      proof (cases "wa_kind w = WK_Time")
        case True
        have "loop_ok (data_cancel i w l)" using w(2) by (intro data_cancel_ok [OF ok w(1)]) simp
        moreover have "survives i w (data_cancel i w l)" using w(2) by (simp add: survives_def)
        ultimately have "survives i w ?m" using runOps_survives True by auto
        then have "wa_kind w1 = WK_Time" using Some True by (simp add: survives_def)
        then show ?thesis using run w(1) act True Some
          by (auto simp: data_cb_def tw_fkn_def watcherAt_def release_def setWatcher_def destroyWatcher_def Let_def split: if_splits)
      next
        case False
        then show ?thesis using run w(1) act Some by (auto simp: data_cb_def watcherAt_def split: if_splits)
      qed
      then show ?thesis using sim reset w(1) False by (auto simp: absEvent_def)
    qed
  qed
qed

section \<open>Runs\<close>

text \<open>A run of the loop beside the run of the service.\<close>

inductive timers_run :: "(nat \<Rightarrow> time \<times> 'cb) \<Rightarrow> EvLoop \<Rightarrow> 'cb timers \<Rightarrow> bool" for arg where
  start: "timers_run arg mkEvLoop ([], mkTimeService t)"
| client: "timers_run arg l a \<Longrightarrow> timers_run arg (applyOp op l) (absOp arg op l a)"
| event: "timers_run arg l a \<Longrightarrow> i \<in> set (el_started l) \<Longrightarrow> loopEvent i ops res l = Inr l' \<Longrightarrow>
    timers_run arg l' (absEvent arg i ops l a)"
| time: "timers_run arg l a \<Longrightarrow> timers_run arg l (fst a, ts_advance dt (snd a))"

lemma timers_run_sim: "timers_run arg l a \<Longrightarrow> timers_sim l a"
proof (induction rule: timers_run.induct)
  case (start t)
  show ?case using mkEvLoop_ok by (simp add: timers_sim_def) (simp add: mkEvLoop_def mkTimeService_def)
next
  case (client l a op)
  then show ?case using absOp_sim [of l "fst a" "snd a" op arg] by simp
next
  case (event l a i ops res l')
  then show ?case using absEvent_sim by blast
next
  case (time l a dt)
  then show ?case by (auto simp: timers_sim_def ts_advance_def ts_inv_def split: prod.splits)
qed

text \<open>Every run of the loop has a run of the service beside it.\<close>

lemma loop_steps_run: "loop_steps mkEvLoop l \<Longrightarrow> \<exists>a. timers_run arg l a"
  by (induction rule: loop_steps.induct) (blast intro: timers_run.intros)+

section \<open>Properties\<close>

text \<open>
  C31: The time service refines its specification. In every run of the event loop, with other watchers
  and with callbacks that make, cancel and drop timers, a timer object is registered with libev exactly when the
  abstract service has the timer pending; the order of the registered timers is the same, and when libev
  reports a timer, the service calls its function.\<close>

theorem time_service_refined:
  assumes "timers_run arg l (ids, ts)"
  shows "map (\<lambda>p. ids ! pt_id p) (ts_pending ts) =
      filter (\<lambda>i. map_option wa_kind (el_objects l i) = Some WK_Time) (el_started l) \<and>
    (\<forall>t < length ids. ids ! t \<in> set (el_started l) \<longleftrightarrow> td_active t ts) \<and>
    (\<forall>t < length ids. ids ! t \<in> set (el_started l) \<longrightarrow> (\<exists>cb. td_cb t ts = (Some cb, td_cancel t ts)))"
proof -
  have sim: "timers_sim l (ids, ts)" by (rule timers_run_sim [OF assms])
  note d = timers_simD [OF sim]
  have kind: "(i \<in> set ids) = (map_option wa_kind (el_objects l i) = Some WK_Time)" if "i \<in> set (el_started l)" for i
    using loop_okD(1) [OF d(1) that] d(6) [of i] by auto
  have "map (\<lambda>p. ids ! pt_id p) (ts_pending ts) = filter (\<lambda>i. map_option wa_kind (el_objects l i) = Some WK_Time) (el_started l)"
    unfolding d(7) using kind by (intro filter_cong) simp_all
  moreover have "ids ! t \<in> set (el_started l) \<longleftrightarrow> td_active t ts" if "t < length ids" for t
  proof
    show "ids ! t \<in> set (el_started l) \<Longrightarrow> td_active t ts" using td_cb_started(2) [OF sim that] .
    assume "td_active t ts"
    then have "ids ! t \<in> set (map (\<lambda>p. ids ! pt_id p) (ts_pending ts))" by (auto simp: td_active_def)
    then show "ids ! t \<in> set (el_started l)" unfolding d(7) by simp
  qed
  moreover have "\<exists>cb. td_cb t ts = (Some cb, td_cancel t ts)" if "t < length ids" "ids ! t \<in> set (el_started l)" for t
    using td_cb_active [OF td_cb_started(2) [OF sim that]] .
  ultimately show ?thesis by blast
qed

text \<open>Two timers, the first of them cancelled through its handle.\<close>

definition exampleLoop :: EvLoop where
  "exampleLoop = applyOp (Op_Cancel 0) (applyOp Op_Timer (applyOp Op_Timer mkEvLoop))"

definition exampleService :: "unit TimeService" where
  "exampleService = td_cancel 0 (snd (makeTimeout 1 () (snd (makeTimeout 1 () (mkTimeService 0)))))"

lemma exampleLoop_run: "timers_run (\<lambda>_. (1, ())) exampleLoop ([0, 1], exampleService)"
proof -
  let ?arg = "\<lambda>_. (1::time, ())" and ?l1 = "applyOp Op_Timer mkEvLoop" and ?t0 = "mkTimeService 0 :: unit TimeService"
  let ?l2 = "applyOp Op_Timer ?l1" and ?t1 = "snd (makeTimeout 1 () ?t0)"
  have e: "absOp ?arg Op_Timer mkEvLoop ([], ?t0) = ([0], ?t1)" "absOp ?arg Op_Timer ?l1 ([0], ?t1) = ([0, 1], snd (makeTimeout 1 () ?t1))"
    "absOp ?arg (Op_Cancel 0) ?l2 ([0, 1], snd (makeTimeout 1 () ?t1)) = ([0, 1], exampleService)"
    by (simp_all add: tw_makeTimeout_def newWatcher_def mkEvLoop_def handlesOf_def timer_cancel_def exampleService_def Let_def)
  have "timers_run ?arg ?l1 ([0], ?t1)" using timers_run.client [OF timers_run.start [of ?arg 0], of Op_Timer] unfolding e .
  then have "timers_run ?arg ?l2 ([0, 1], snd (makeTimeout 1 () ?t1))" using timers_run.client [of ?arg ?l1 _ Op_Timer] unfolding e(2) [symmetric] by blast
  then show ?thesis using timers_run.client [of ?arg ?l2 _ "Op_Cancel 0"] unfolding e(3) [symmetric] exampleLoop_def by blast
qed

theorem time_service_refined_witness:
  "el_started exampleLoop = [1] \<and> \<not> td_active 0 exampleService \<and> td_active 1 exampleService \<and>
   (\<exists>cb. td_cb 1 exampleService = (Some cb, td_cancel 1 exampleService))"
proof -
  have "el_started exampleLoop = [1]"
    by (simp add: exampleLoop_def tw_makeTimeout_def newWatcher_def mkEvLoop_def cancelHandle_def data_cancel_def dropHandle_def
        release_def setWatcher_def ev_stop_def Let_def)
  then show ?thesis using time_service_refined [OF exampleLoop_run] by (auto dest: spec [of _ 0] spec [of _ "Suc 0"])
qed

end
