(* ===== verification/Text_Output.thy ===== *)
theory Text_Output
  imports SN_Prelude
begin

text \<open>
  Text the program writes: numbers and times (\<open>src/src/utility/Utility.cpp\<close>), the dump of received packets for
  \<open>text2pcap\<close> (\<open>src/src/core/WSDump.cpp\<close>) and the lines of the log (\<open>src/src/utility/Log.cpp\<close>).

  A reading of the system clock is a pair of seconds and nanoseconds; the readings of a run are an
  argument, a function from the number of the call. The output is a string in the state. The theory also has a
  reader for the dump, which follows the conventions of \<open>text2pcap\<close>: one line for each group of bytes, a time
  stamp, an offset, the bytes in hexadecimal; offset 0 starts a packet.
\<close>

section \<open>Numbers as text\<close>

definition digitChar :: "nat \<Rightarrow> char" where
  "digitChar d = (if d < 10 then char_of (48 + d) else char_of (87 + d))"

definition digitVal :: "char \<Rightarrow> nat" where
  "digitVal c = (let n = of_char c in if n < 58 then n - 48 else n - 87)"

text \<open>The conversions \<open>%d\<close> and \<open>%x\<close> of a number that is not negative.\<close>

fun numStr :: "nat \<Rightarrow> nat \<Rightarrow> string" where
  "numStr b n = (if b < 2 \<or> n < b then [digitChar n] else numStr b (n div b) @ [digitChar (n mod b)])"

declare numStr.simps [simp del]

text \<open>The width of \<open>%06x\<close>.\<close>

definition zeroPad :: "nat \<Rightarrow> string \<Rightarrow> string" where
  "zeroPad k s = replicate (k - length s) (CHR ''0'') @ s"

definition readNum :: "nat \<Rightarrow> string \<Rightarrow> nat" where
  "readNum b s = foldl (\<lambda>a c. a * b + digitVal c) 0 s"

lemma digitVal_digitChar [simp]: "d < 16 \<Longrightarrow> digitVal (digitChar d) = d"
  by (auto simp: digitVal_def digitChar_def Let_def)

lemma digitChar_graphic:
  assumes "d < 16"
  shows "digitChar d \<in> set ''0123456789abcdef''"
proof -
  have "d \<in> set [0..<16]" using assms by simp
  moreover have "\<forall>d \<in> set [0..<16]. digitChar d \<in> set ''0123456789abcdef''" by code_simp
  ultimately show ?thesis by (rule bspec [rotated])
qed

lemma readNum_snoc: "readNum b (s @ [c]) = readNum b s * b + digitVal c"
  by (simp add: readNum_def)

lemma readNum_numStr:
  assumes "2 \<le> b" and "b \<le> 16"
  shows "readNum b (numStr b n) = n"
  using assms
proof (induction b n rule: numStr.induct)
  case (1 b n)
  show ?case
  proof (cases "n < b")
    case True
    then show ?thesis using 1 by (simp add: numStr.simps [of b n] readNum_def)
  next
    case False
    have "n mod b < b" using 1(2) by (simp add: pos_mod_bound)
    then have "n mod b < 16" using 1(3) by linarith
    then show ?thesis using 1 False by (simp add: numStr.simps [of b n] readNum_snoc)
  qed
qed

lemma readNum_zeros: "readNum b (replicate k (CHR ''0'') @ s) = readNum b s"
  by (induction k) (simp_all add: readNum_def digitVal_def)

lemma readNum_zeroPad [simp]:
  "2 \<le> b \<Longrightarrow> b \<le> 16 \<Longrightarrow> readNum b (zeroPad k (numStr b n)) = n"
  by (simp add: zeroPad_def readNum_zeros readNum_numStr)

lemma numStr_graphic:
  assumes "2 \<le> b" and "b \<le> 16"
  shows "set (numStr b n) \<subseteq> set ''0123456789abcdef''"
  using assms
proof (induction b n rule: numStr.induct)
  case (1 b n)
  have d: "n mod b < 16" using 1(2,3) pos_mod_bound [of b n] by (metis gr_zeroI less_le_trans mod_less_divisor not_numeral_le_zero)
  show ?case
  proof (cases "n < b")
    case True
    then show ?thesis using 1(3) digitChar_graphic [of n] by (simp add: numStr.simps [of b n])
  next
    case False
    then show ?thesis using 1 digitChar_graphic [OF d] by (simp add: numStr.simps [of b n])
  qed
qed

lemma zeroPad_graphic:
  assumes "2 \<le> b" and "b \<le> 16"
  shows "set (zeroPad k (numStr b n)) \<subseteq> set ''0123456789abcdef''"
  using numStr_graphic [OF assms, of n] by (auto simp: zeroPad_def)

lemma length_numStr_less:
  assumes "2 \<le> b" and "n < b ^ k" and "0 < k"
  shows "length (numStr b n) \<le> k"
  using assms
proof (induction b n arbitrary: k rule: numStr.induct)
  case (1 b n)
  show ?case
  proof (cases "n < b")
    case False
    then have "k \<noteq> Suc 0" using 1(3) by auto
    then obtain j where k: "k = Suc j" "0 < j" using 1(4) by (cases k) auto
    have "n div b < b ^ j" using 1(2,3) k by (simp add: less_mult_imp_div_less mult.commute)
    then show ?thesis using 1 False k by (simp add: numStr.simps [of b n])
  qed (use 1 in \<open>simp add: numStr.simps [of b n]\<close>)
qed

lemma length_zeroPad [simp]: "length (zeroPad k s) = max k (length s)"
  by (simp add: zeroPad_def)

section \<open>Times\<close>

type_synonym timespec = "int \<times> int"

text \<open>\<open>Utility::now\<close> and \<open>Utility::timeStr\<close>, with the integers at their width.\<close>

definition utility_now :: "timespec \<Rightarrow> time" where
  "utility_now ts = of_int (fst ts) + of_int (snd ts) / 10 ^ 9"

definition timeStr :: "time \<Rightarrow> string" where
  "timeStr t =
     (let val = (word_of_int \<lfloor>t * 10 ^ 9 + 1 / 2\<rfloor> :: 64 word);
          sec = (ucast (val div 1000000000) :: 32 word);
          nsec = (ucast (val mod 1000000000) :: 32 word)
      in numStr 10 (unat sec) @ ''.'' @ zeroPad 9 (numStr 10 (unat nsec)))"

section \<open>Dump of packets\<close>

text \<open>\<open>m_os\<close> is set when the file could be opened; \<open>base\<close> is a static variable of \<open>rxPacket\<close>.\<close>

record WSDump =
  ws_os :: bool
  ws_base :: "time option"
  ws_calls :: nat
  ws_out :: string

definition mkWSDump :: "string \<Rightarrow> bool \<Rightarrow> WSDump" where
  "mkWSDump fname opened = \<lparr>ws_os = (fname \<noteq> [] \<and> opened), ws_base = None, ws_calls = 0, ws_out = []\<rparr>"

text \<open>The inner loop, with the index it leaves behind.\<close>

function dumpCols :: "byte_vec \<Rightarrow> nat \<Rightarrow> nat \<Rightarrow> string \<times> nat" where
  "dumpCols packet index col =
     (if col < 0x10 \<and> index < length packet
      then (let (s, i) = dumpCols packet (Suc index) (Suc col)
            in (CHR '' '' # zeroPad 2 (numStr 16 (unat (packet ! index))) @ s, i))
      else ([], index))"
  by pat_completeness auto
termination by (relation "measure (\<lambda>(p, i, c). length p - i)") auto

declare dumpCols.simps [simp del]

lemma dumpCols_index: "index \<le> snd (dumpCols packet index col)"
proof (induction packet index col rule: dumpCols.induct)
  case (1 packet index col)
  then show ?case by (subst dumpCols.simps) (auto simp: Let_def split: prod.splits)
qed

lemma dumpCols_progress: "index < length packet \<Longrightarrow> index < snd (dumpCols packet index 0)"
  using dumpCols_index [of "Suc index" packet "Suc 0"]
  by (subst dumpCols.simps) (auto simp: Let_def split: prod.splits)

function ws_rows :: "(nat \<Rightarrow> timespec) \<Rightarrow> byte_vec \<Rightarrow> nat \<Rightarrow> WSDump \<Rightarrow> WSDump" where
  "ws_rows clock packet index d =
     (if index < length packet
      then (let now = utility_now (clock (ws_calls d));
                base = (case ws_base d of None \<Rightarrow> now | Some b \<Rightarrow> b);
                (s, index') = dumpCols packet index 0
            in ws_rows clock packet index'
                 (d\<lparr>ws_base := Some base, ws_calls := Suc (ws_calls d),
                    ws_out := ws_out d @ timeStr (now - base) @ CHR '' '' # zeroPad 6 (numStr 16 index) @ s @ [CHR 10]\<rparr>))
      else d)"
  by pat_completeness auto
termination
proof (relation "measure (\<lambda>(c, p, i, d). length p - i)")
  fix clock :: "nat \<Rightarrow> timespec" and packet :: byte_vec and index :: nat and d :: WSDump and now base :: real and r and s :: string and index'
  assume "index < length packet" "r = dumpCols packet index 0" "(s, index') = r"
  then show "((clock, packet, index', d\<lparr>ws_base := Some base, ws_calls := Suc (ws_calls d),
      ws_out := ws_out d @ timeStr (now - base) @ CHR '' '' # zeroPad 6 (numStr 16 index) @ s @ [CHR 10]\<rparr>), clock, packet, index, d)
    \<in> measure (\<lambda>(c, p, i, d). length p - i)"
    using dumpCols_progress [of index packet] by (cases "dumpCols packet index 0") auto
qed simp

declare ws_rows.simps [simp del]

definition ws_rxPacket :: "(nat \<Rightarrow> timespec) \<Rightarrow> byte_vec \<Rightarrow> WSDump \<Rightarrow> WSDump" where
  "ws_rxPacket clock packet d = (if \<not> ws_os d then d else ws_rows clock packet 0 d)"

section \<open>Log\<close>

datatype Level = lv_trace | lv_debug | lv_info | lv_warning | lv_error

primrec level2int :: "Level \<Rightarrow> int" where
  "level2int lv_trace = 0" | "level2int lv_debug = 1" | "level2int lv_info = 2" | "level2int lv_warning = 3" | "level2int lv_error = 4"

record Log =
  lg_timeBase :: "64 word"
  lg_level :: Level
  lg_pid :: nat

definition usec64 :: "timespec \<Rightarrow> 64 word" where
  "usec64 ts = of_int (fst ts) * 1000000 + of_int (snd ts div 1000)"

definition mkLog :: "timespec \<Rightarrow> nat \<Rightarrow> Log" where
  "mkLog ts pid = \<lparr>lg_timeBase = usec64 ts, lg_level = lv_debug, lg_pid = pid\<rparr>"

text \<open>The seconds are an \<open>int\<close>; a clock that was set back gives a huge difference, whose seconds
  are printed with their sign.\<close>

definition intStr :: "nat \<Rightarrow> int \<Rightarrow> string" where
  "intStr k i = (if i < 0 then CHR ''-'' # zeroPad (k - 1) (numStr 10 (nat (- i))) else zeroPad k (numStr 10 (nat i)))"

definition log_header :: "timespec \<Rightarrow> Log \<Rightarrow> string" where
  "log_header ts g =
     (let delta = usec64 ts - lg_timeBase g;
          sec = (ucast (delta div 1000000) :: 32 word);
          usec = (ucast (delta mod 1000000) :: 32 word)
      in intStr 5 (int (lg_pid g)) @ '' '' @ intStr 9 (sint sec) @ ''.'' @ intStr 6 (sint usec))"

definition writeLog :: "timespec \<Rightarrow> string \<Rightarrow> Level \<Rightarrow> Log \<Rightarrow> string" where
  "writeLog ts line level g =
     (if level2int level \<ge> level2int (lg_level g) then log_header ts g @ '' '' @ line @ [CHR 10] else [])"

section \<open>The reader of the dump\<close>

fun splitOn :: "char \<Rightarrow> string \<Rightarrow> string list" where
  "splitOn c [] = [[]]"
| "splitOn c (x # xs) =
     (if x = c then [] # splitOn c xs
      else (case splitOn c xs of [] \<Rightarrow> [[x]] | y # ys \<Rightarrow> (x # y) # ys))"

definition readRow :: "string \<Rightarrow> (string \<times> nat \<times> byte_vec)" where
  "readRow line =
     (case splitOn (CHR '' '') line of
        t # off # bs \<Rightarrow> (t, readNum 16 off, map (\<lambda>b. word_of_nat (readNum 16 b)) bs)
      | _ \<Rightarrow> ([], 0, []))"

definition addRow :: "byte_vec list \<Rightarrow> string \<times> nat \<times> byte_vec \<Rightarrow> byte_vec list" where
  "addRow ps r =
     (case r of (t, off, bs) \<Rightarrow>
        if off = 0 \<or> ps = [] then ps @ [bs] else butlast ps @ [last ps @ bs])"

definition readDump :: "string \<Rightarrow> byte_vec list" where
  "readDump s = foldl addRow [] (map readRow (butlast (splitOn (CHR 10) s)))"

lemma splitOn_notin: "c \<notin> set a \<Longrightarrow> splitOn c a = [a]"
  by (induction a) auto

lemma splitOn_Nil [simp]: "splitOn c s \<noteq> []"
  by (induction s) (auto split: list.splits)

lemma splitOn_sep: "splitOn c (s @ c # t) = splitOn c s @ splitOn c t"
proof (induction s)
  case (Cons x s)
  then show ?case by (cases "splitOn c s") auto
qed simp

lemma splitOn_words:
  assumes "c \<notin> set a" and "\<And>x. c \<notin> set (f x)"
  shows "splitOn c (a @ concat (map (\<lambda>x. c # f x) xs)) = a # map f xs"
  using assms(1) by (induction xs arbitrary: a) (simp_all add: splitOn_notin splitOn_sep assms(2))

text \<open>One row of the dump, and what the reader makes of it.\<close>

definition hex2 :: "byte \<Rightarrow> string" where
  "hex2 b = zeroPad 2 (numStr 16 (unat b))"

definition rowText :: "time \<Rightarrow> nat \<Rightarrow> byte_vec \<Rightarrow> string" where
  "rowText t off bs = timeStr t @ CHR '' '' # zeroPad 6 (numStr 16 off) @ concat (map (\<lambda>b. CHR '' '' # hex2 b) bs)"

lemma dumpCols_eq:
  "dumpCols packet index col =
     (concat (map (\<lambda>b. CHR '' '' # hex2 b) (take (16 - col) (drop index packet))), index + length (take (16 - col) (drop index packet)))"
proof (induction packet index col rule: dumpCols.induct)
  case (1 packet index col)
  show ?case
  proof (cases "col < 16 \<and> index < length packet")
    case True
    then have "take (16 - col) (drop index packet) = packet ! index # take (16 - Suc col) (drop (Suc index) packet)"
      by (simp add: Cons_nth_drop_Suc [symmetric] take_Cons' del: drop_Suc)
    then show ?thesis using 1 True by (subst dumpCols.simps) (simp add: hex2_def)
  qed (subst dumpCols.simps, auto)
qed

lemma ws_rows_step:
  assumes "index < length packet"
  obtains t b where "ws_rows clock packet index d =
    ws_rows clock packet (index + length (take 16 (drop index packet)))
      (d\<lparr>ws_base := Some b, ws_calls := Suc (ws_calls d), ws_out := ws_out d @ rowText t index (take 16 (drop index packet)) @ [CHR 10]\<rparr>)"
  using assms by (subst (asm) ws_rows.simps) (simp add: dumpCols_eq rowText_def Let_def)

lemma digits_plain: "CHR '' '' \<notin> set ''0123456789abcdef''" "CHR 10 \<notin> set ''0123456789abcdef''"
  by code_simp+

lemma number_plain:
  assumes "2 \<le> b" and "b \<le> 16"
  shows "CHR '' '' \<notin> set (zeroPad k (numStr b n))" and "CHR 10 \<notin> set (zeroPad k (numStr b n))"
    and "CHR '' '' \<notin> set (numStr b n)" and "CHR 10 \<notin> set (numStr b n)"
  using numStr_graphic [OF assms, of n] zeroPad_graphic [OF assms, of k n] digits_plain by blast+

lemma timeStr_plain: "CHR '' '' \<notin> set (timeStr t)" "CHR 10 \<notin> set (timeStr t)"
  by (simp_all add: timeStr_def Let_def number_plain)

lemma rowText_plain: "CHR 10 \<notin> set (rowText t off bs)"
  by (auto simp: rowText_def hex2_def number_plain timeStr_plain)

lemma readRow_rowText [simp]: "readRow (rowText t off bs) = (timeStr t, off, bs)"
proof -
  have "splitOn (CHR '' '') (rowText t off bs) = timeStr t # zeroPad 6 (numStr 16 off) # map hex2 bs"
    using splitOn_words [of "CHR '' ''" "zeroPad 6 (numStr 16 off)" hex2 bs]
    by (simp add: rowText_def splitOn_sep splitOn_notin timeStr_plain number_plain hex2_def [abs_def])
  then show ?thesis by (simp add: readRow_def hex2_def comp_def)
qed

definition whole_lines :: "string \<Rightarrow> bool" where
  "whole_lines s \<longleftrightarrow> s = [] \<or> last s = CHR 10"

lemma splitOn_lines:
  assumes "whole_lines s"
  shows "splitOn (CHR 10) (s @ t) = butlast (splitOn (CHR 10) s) @ splitOn (CHR 10) t"
proof (cases "s = []")
  case False
  then obtain r where "s = r @ [CHR 10]" using assms by (metis append_butlast_last_id whole_lines_def)
  then show ?thesis using splitOn_sep [of "CHR 10" r t] splitOn_sep [of "CHR 10" r "[]"] by simp
qed simp

lemma readDump_row:
  assumes "whole_lines s"
  shows "readDump (s @ rowText t off bs @ [CHR 10]) = addRow (readDump s) (timeStr t, off, bs)"
  using splitOn_lines [OF assms, of "rowText t off bs @ [CHR 10]"] splitOn_sep [of "CHR 10" "rowText t off bs" "[]"]
  by (simp add: readDump_def splitOn_notin rowText_plain butlast_append)

lemma ws_rows_done [simp]: "length packet \<le> index \<Longrightarrow> ws_rows clock packet index d = d"
  by (subst ws_rows.simps) simp

lemma ws_rows_rest:
  assumes "whole_lines (ws_out d)" and "0 < index" and "index \<le> length packet" and "readDump (ws_out d) = qs @ [take index packet]"
  shows "readDump (ws_out (ws_rows clock packet index d)) = qs @ [packet] \<and> whole_lines (ws_out (ws_rows clock packet index d)) \<and>
    ws_os (ws_rows clock packet index d) = ws_os d"
  using assms
proof (induction "length packet - index" arbitrary: index d rule: less_induct)
  case less
  show ?case
  proof (cases "index < length packet")
    case False
    then show ?thesis using less by simp
  next
    case True
    let ?bs = "take 16 (drop index packet)"
    obtain t b where step: "ws_rows clock packet index d = ws_rows clock packet (index + length ?bs)
      (d\<lparr>ws_base := Some b, ws_calls := Suc (ws_calls d), ws_out := ws_out d @ rowText t index ?bs @ [CHR 10]\<rparr>)"
      by (rule ws_rows_step [OF True])
    have bs: "take index packet @ ?bs = take (index + length ?bs) packet" "0 < length ?bs" "index + length ?bs \<le> length packet"
      using True by (simp_all add: take_add min_def) linarith
    have "readDump (ws_out d @ rowText t index ?bs @ [CHR 10]) = qs @ [take (index + length ?bs) packet]"
      using readDump_row [OF less.prems(1), of t index ?bs] less.prems(2,4) bs(1) by (simp add: addRow_def del: length_take)
    moreover have "length packet - (index + length ?bs) < length packet - index" using True bs(2) by linarith
    ultimately show ?thesis unfolding step using less.hyps [of "index + length ?bs"] less.prems(2) bs(3)
      by (simp add: whole_lines_def del: length_take)
  qed
qed

lemma ws_rxPacket_read:
  assumes "ws_os d" and "whole_lines (ws_out d)"
  shows "readDump (ws_out (ws_rxPacket clock packet d)) = readDump (ws_out d) @ (if packet = [] then [] else [packet]) \<and>
    whole_lines (ws_out (ws_rxPacket clock packet d)) \<and> ws_os (ws_rxPacket clock packet d)"
proof (cases "packet = []")
  case True
  then show ?thesis using assms by (simp add: ws_rxPacket_def)
next
  case False
  then have l: "0 < length packet" by simp
  let ?bs = "take 16 packet"
  obtain t b where step: "ws_rows clock packet 0 d = ws_rows clock packet (length ?bs)
      (d\<lparr>ws_base := Some b, ws_calls := Suc (ws_calls d), ws_out := ws_out d @ rowText t 0 ?bs @ [CHR 10]\<rparr>)"
    using ws_rows_step [OF l, of clock d] by (metis add_0 drop_0)
  have bs: "?bs = take (length ?bs) packet" "0 < length ?bs" "length ?bs \<le> length packet" using l by (simp_all add: min_def)
  have "readDump (ws_out d @ rowText t 0 ?bs @ [CHR 10]) = readDump (ws_out d) @ [take (length ?bs) packet]"
    using readDump_row [OF assms(2), of t 0 ?bs] bs(1) by (simp add: addRow_def)
  then show ?thesis using False assms bs(2,3)
      ws_rows_rest [of "d\<lparr>ws_base := Some b, ws_calls := Suc (ws_calls d), ws_out := ws_out d @ rowText t 0 ?bs @ [CHR 10]\<rparr>"
        "length ?bs" packet "readDump (ws_out d)" clock]
    unfolding ws_rxPacket_def step by (simp add: whole_lines_def del: length_take)
qed

section \<open>Properties\<close>

text \<open>
  C32: The dump can be read back: after any sequence of packets, a reader that follows the conventions of
  \<open>text2pcap\<close> gets exactly the packets that were received, in order and byte by byte, whatever the clock shows. Empty packets
  leave no trace.\<close>

theorem dump_roundtrip:
  assumes "fname \<noteq> []"
  shows "readDump (ws_out (fold (ws_rxPacket clock) packets (mkWSDump fname True))) = filter (\<lambda>p. p \<noteq> []) packets"
proof -
  have "readDump (ws_out (fold (ws_rxPacket clock) packets d)) = readDump (ws_out d) @ filter (\<lambda>p. p \<noteq> []) packets"
    if "ws_os d" "whole_lines (ws_out d)" for d
    using that by (induction packets arbitrary: d) (simp_all add: ws_rxPacket_read)
  then show ?thesis using assms by (simp add: mkWSDump_def whole_lines_def readDump_def)
qed

theorem dump_roundtrip_witness:
  "readDump (ws_out (fold (ws_rxPacket (\<lambda>n. (int n, 0))) [replicate 20 7, [], [0xab]] (mkWSDump ''f'' True))) = [replicate 20 7, [0xab]]"
  using dump_roundtrip [of "''f''" "\<lambda>n. (int n, 0)" "[replicate 20 7, [], [0xab]]"] by simp

text \<open>Reading a time back.\<close>

definition readTime :: "string \<Rightarrow> real" where
  "readTime s = (case splitOn (CHR ''.'') s of [a, b] \<Rightarrow> real (readNum 10 a) + real (readNum 10 b) / 10 ^ 9 | _ \<Rightarrow> 0)"

lemma number_no_point: "CHR ''.'' \<notin> set (zeroPad k (numStr 10 n))" "CHR ''.'' \<notin> set (numStr 10 n)"
proof -
  have p: "CHR ''.'' \<notin> set ''0123456789abcdef''" by code_simp
  show "CHR ''.'' \<notin> set (zeroPad k (numStr 10 n))" "CHR ''.'' \<notin> set (numStr 10 n)"
    using numStr_graphic [of 10 n] zeroPad_graphic [of 10 k n] p by auto
qed

lemma timeStr_parts:
  assumes "0 \<le> t" and "t * 10 ^ 9 + 1 / 2 < 2 ^ 32 * 10 ^ 9"
  shows "timeStr t = numStr 10 (nat \<lfloor>t * 10 ^ 9 + 1 / 2\<rfloor> div 10 ^ 9) @ CHR ''.'' # zeroPad 9 (numStr 10 (nat \<lfloor>t * 10 ^ 9 + 1 / 2\<rfloor> mod 10 ^ 9))"
proof -
  define x where "x = \<lfloor>t * 10 ^ 9 + 1 / 2\<rfloor>"
  have nn: "0 \<le> x" using assms(1) by (simp add: x_def)
  have less: "x < 2 ^ 32 * 10 ^ 9" unfolding x_def using assms(2) by (simp add: floor_less_iff)
  have v: "unat (word_of_int x :: 64 word) = nat x" using nn less by (simp add: unat_eq_nat_uint uint_word_of_int)
  have sec: "nat x div 10 ^ 9 < 2 ^ 32" using nn less by (simp add: nat_less_iff less_mult_imp_div_less)
  have nsec: "nat x mod 10 ^ 9 < 2 ^ 32" by (rule less_le_trans [OF mod_less_divisor]) simp_all
  show ?thesis unfolding timeStr_def x_def [symmetric] using sec nsec
    by (simp add: Let_def unsigned_ucast_eq unat_div unat_mod v take_bit_nat_def)
qed

text \<open>
  For times below \<open>2\<^sup>3\<^sup>2\<close> seconds the printed time has nine decimals and is the given one up to
  half a nanosecond.\<close>

theorem timeStr_nearest:
  assumes "0 \<le> t" and "t * 10 ^ 9 + 1 / 2 < 2 ^ 32 * 10 ^ 9"
  shows "\<bar>readTime (timeStr t) - t\<bar> \<le> 1 / (2 * 10 ^ 9) \<and> length (last (splitOn (CHR ''.'') (timeStr t))) = 9"
proof -
  define v q r where "v = nat \<lfloor>t * 10 ^ 9 + 1 / 2\<rfloor>" and "q = v div 10 ^ 9" and "r = v mod 10 ^ 9"
  have sp: "splitOn (CHR ''.'') (timeStr t) = [numStr 10 q, zeroPad 9 (numStr 10 r)]"
    by (simp add: timeStr_parts [OF assms] splitOn_sep splitOn_notin number_no_point v_def q_def r_def)
  have "10 ^ 9 * q + r = v" unfolding q_def r_def by (rule mult_div_mod_eq)
  then have "real v = 10 ^ 9 * real q + real r" by (metis of_nat_add of_nat_mult of_nat_numeral of_nat_power)
  then have rd: "readTime (timeStr t) = real v / 10 ^ 9"
    unfolding readTime_def sp by (simp add: readNum_numStr add_divide_distrib)
  have "real v = of_int \<lfloor>t * 10 ^ 9 + 1 / 2\<rfloor>" using assms(1) by (simp add: v_def)
  then have "real v \<le> t * 10 ^ 9 + 1 / 2" "t * 10 ^ 9 + 1 / 2 < real v + 1" by linarith+
  then have "\<bar>readTime (timeStr t) - t\<bar> \<le> 1 / (2 * 10 ^ 9)" unfolding rd by (auto simp: abs_if field_simps)
  moreover have "length (numStr 10 r) \<le> 9" unfolding r_def by (rule length_numStr_less) simp_all
  ultimately show ?thesis by (simp add: sp)
qed

theorem timeStr_nearest_witness: "\<bar>readTime (timeStr (5 / 4)) - 5 / 4\<bar> \<le> 1 / (2 * 10 ^ 9)"
  using timeStr_nearest [of "5 / 4"] by simp

text \<open>The header of a log line shows the time since the log was made, in microseconds, as long as the clock
  is not set back before that moment and 68 years have not passed.\<close>

definition usecs :: "timespec \<Rightarrow> int" where
  "usecs ts = fst ts * 1000000 + snd ts div 1000"

lemma sint_small32:
  assumes "n < 2 ^ 31"
  shows "sint (word_of_nat n :: 32 word) = int n"
  using assms by (simp add: signed_of_nat signed_take_bit_int_eq_self)

lemma log_header_elapsed:
  assumes "usecs base \<le> usecs ts" and "usecs ts - usecs base < 2 ^ 31 * 1000000"
  shows "log_header ts (mkLog base pid) =
    zeroPad 5 (numStr 10 pid) @ '' '' @ zeroPad 9 (numStr 10 (nat (usecs ts - usecs base) div 1000000)) @ ''.'' @
    zeroPad 6 (numStr 10 (nat (usecs ts - usecs base) mod 1000000))"
proof -
  define x where "x = nat (usecs ts - usecs base)"
  have x: "x < 2 ^ 31 * 1000000" unfolding x_def using assms(2) by simp
  have "usec64 ts - usec64 base = (word_of_int (usecs ts - usecs base) :: 64 word)" by (simp add: usec64_def usecs_def)
  also have "\<dots> = word_of_nat x" using assms(1) by (simp add: x_def)
  finally have d: "usec64 ts - usec64 base = word_of_nat x" .
  have u: "x mod 18446744073709551616 = x" using x by simp
  have q: "(ucast ((word_of_nat x :: 64 word) div 1000000) :: 32 word) = word_of_nat (x div 1000000)"
    by (simp add: word_unat_eq_iff unsigned_ucast_eq unat_div u unat_of_nat take_bit_eq_mod)
  have r: "(ucast ((word_of_nat x :: 64 word) mod 1000000) :: 32 word) = word_of_nat (x mod 1000000)"
    by (simp add: word_unat_eq_iff unsigned_ucast_eq unat_mod u unat_of_nat take_bit_eq_mod)
  have "x div 1000000 < 2 ^ 31" using x by (simp add: less_mult_imp_div_less)
  moreover have "x mod 1000000 < 2 ^ 31" by (rule less_le_trans [OF mod_less_divisor]) simp_all
  ultimately show ?thesis unfolding log_header_def x_def [symmetric]
    by (simp add: mkLog_def Let_def d q r sint_small32 intStr_def)
qed

end
