(* ===== verification/SN_Program.thy ===== *)
theory SN_Program
  imports Serial_Net Text_Output
begin

text \<open>
  The program around a node: \<open>main\<close> of \<open>src/src/mains/serialnet/main.cpp\<close>, and \<open>SerialNet::mainLoop\<close> with the
  signal handler (\<open>SerialNet.cpp\<close>). What libev reports is a list of iterations, each a list of events:
  \<open>ev_break\<close> lets \<open>ev_run\<close> handle the events that are outstanding in the iteration and return then. A list that
  ends before the loop was stopped leaves the program waiting. Writing to the port is taken to succeed.
\<close>

section \<open>The unique id\<close>

text \<open>\<open>ClientAddress::setupUniqueId\<close>: eight numbers from 0 to 255 are drawn, and the line for the log.\<close>

definition setupUniqueId :: "nat list \<Rightarrow> UniqueId \<times> string" where
  "setupUniqueId distr =
     (let u = map word_of_nat (take 8 distr);
          rn = (\<lambda>i. zeroPad 2 (numStr 16 (unat (u ! i))))
      in (u, ''Random unique id: '' @ concat (map (\<lambda>i. (if i = 0 then [] else '' '') @ rn i) [0..<8])))"

section \<open>Events\<close>

datatype node_event =
    Ev_Read "byte \<times> Crc32" "int + byte_vec"
  | Ev_Host byte_vec LocalAddress ChannelType
  | Ev_Timer nat
  | Ev_MasterTimeout
  | Ev_Time time
  | Ev_Sigint

text \<open>The callback for the port: the result of \<open>readSerial\<close> is ignored.\<close>

definition nodeRead :: "byte \<times> Crc32 \<Rightarrow> int + byte_vec \<Rightarrow> SerialNet \<Rightarrow> SerialNet result option" where
  "nodeRead uninit readRes n =
     (case readRes of
        Inr bytes \<Rightarrow> nodeReceive uninit bytes n
      | Inl errno \<Rightarrow> Some (rbind (readSerial (Inl errno) (sn_port n)) (\<lambda>_. Inr n)))"

text \<open>The timeout of \<open>setupMaster\<close> is registered once, and only if the option asks for it.\<close>

definition nodeMasterTimeout :: "SerialNet \<Rightarrow> SerialNet result" where
  "nodeMasterTimeout n =
     (case sn_masterTimeout n of None \<Rightarrow> Inr n | Some _ \<Rightarrow> masterTimeoutCB (n\<lparr>sn_masterTimeout := None\<rparr>))"

text \<open>The lambda that \<open>mainLoop\<close> registers for SIGINT: \<open>m_loop.stop()\<close>.\<close>

definition onSigint :: "SerialNet \<Rightarrow> SerialNet" where
  "onSigint n = n\<lparr>sn_stopped := True\<rparr>"

primrec nodeEvent :: "node_event \<Rightarrow> SerialNet \<Rightarrow> SerialNet result option" where
  "nodeEvent (Ev_Read uninit readRes) n = nodeRead uninit readRes n"
| "nodeEvent (Ev_Host data dest ct) n = Some (Inr (nodeHostSend data dest ct n))"
| "nodeEvent (Ev_Timer i) n = nodeTimer i n"
| "nodeEvent Ev_MasterTimeout n = Some (nodeMasterTimeout n)"
| "nodeEvent (Ev_Time dt) n = Some (Inr (nodeTime dt n))"
| "nodeEvent Ev_Sigint n = Some (Inr (onSigint n))"

fun nodeEvents :: "node_event list \<Rightarrow> SerialNet \<Rightarrow> SerialNet result option" where
  "nodeEvents [] n = Some (Inr n)"
| "nodeEvents (ev # evs) n =
     Option.bind (nodeEvent ev n) (\<lambda>r. case r of Inl e \<Rightarrow> Some (Inl e) | Inr n' \<Rightarrow> nodeEvents evs n')"

section \<open>Main loop\<close>

text \<open>\<open>ev_run\<close>: True says that it returned.\<close>

fun loopRun :: "node_event list list \<Rightarrow> SerialNet \<Rightarrow> (bool \<times> SerialNet) result option" where
  "loopRun [] n = Some (Inr (False, n))"
| "loopRun (evs # its) n =
     Option.bind (nodeEvents evs n) (\<lambda>r. case r of
         Inl e \<Rightarrow> Some (Inl e)
       | Inr n' \<Rightarrow> if sn_stopped n' then Some (Inr (True, n')) else loopRun its n')"

text \<open>A stop before the loop runs is forgotten by \<open>ev_run\<close>.\<close>

definition mainLoop :: "node_event list list \<Rightarrow> SerialNet \<Rightarrow> (bool \<times> SerialNet) result option" where
  "mainLoop its n = loopRun its (n\<lparr>sn_stopped := False\<rparr>)"

section \<open>Main function\<close>

datatype cout = Out_Banner | Out_Help | Out_Usage | Out_Version | Out_NoMode

text \<open>How the process ends: by returning from \<open>main\<close> (with what it printed), by an exception that nobody
  catches or a failed assertion, or not at all: it waits for events, or it never returns from a call.\<close>

datatype outcome =
    Returns int "cout list"
  | Terminates cpp_error
  | Waits SerialNet
  | Hangs

definition runNode :: "StartSystem \<Rightarrow> SNConfig \<Rightarrow> node_event list list \<Rightarrow> outcome" where
  "runNode sys cfg its =
     (case start sys cfg of
        None \<Rightarrow> Hangs
      | Some (Inl e) \<Rightarrow> Terminates e
      | Some (Inr None) \<Rightarrow> Returns 0 []
      | Some (Inr (Some n)) \<Rightarrow>
          (case mainLoop its n of
             None \<Rightarrow> Hangs
           | Some (Inl e) \<Rightarrow> Terminates e
           | Some (Inr (True, n')) \<Rightarrow> Returns 0 []
           | Some (Inr (False, n')) \<Rightarrow> Waits n'))"

definition main :: "nat \<Rightarrow> variables_map result \<Rightarrow> StartSystem \<Rightarrow> node_event list list \<Rightarrow> outcome" where
  "main argc parsed sys its =
     (if argc = 1 then Returns 0 [Out_Banner]
      else case parsed of
             Inl e \<Rightarrow> Terminates e
           | Inr vm \<Rightarrow>
               if vm ''help'' \<noteq> None then Returns 1 [Out_Help]
               else if vm ''usage'' \<noteq> None then Returns 1 [Out_Usage]
               else if vm ''version'' \<noteq> None then Returns 1 [Out_Version]
               else (case as_int vm ''log'' of
                       Inl e \<Rightarrow> Terminates e
                     | Inr level \<Rightarrow>
                         if vm ''mode'' = None then Returns 1 [Out_NoMode]
                         else (case setupSNConfig vm mkSNConfig of
                                 Inl e \<Rightarrow> Terminates e
                               | Inr cfg \<Rightarrow> runNode sys cfg its)))"

section \<open>Invariant\<close>

text \<open>A node between two events, possibly in the middle of a frame.\<close>

definition node_inv :: "SerialNet \<Rightarrow> bool" where
  "node_inv n \<longleftrightarrow> se_rxCB (sn_port n) \<and> codec_inv (mb_codec (sn_adapter n)) \<and> mb_hasByteIf (sn_adapter n) \<and>
     pc_rxMsg (sn_ptc n) = [] \<and> tq_sent (sn_txQueue n) = [] \<and> pc_masterEndedCB (sn_ptc n) \<and>
     (\<forall>m. sn_master n = Some m \<longrightarrow> reachable m) \<and> (sn_masterTimeout n \<noteq> None \<longrightarrow> sn_master n \<noteq> None) \<and>
     (0 < pc_endedCalls (sn_ptc n) \<longrightarrow> sn_stopped n)"

text \<open>Where the decoder fails: in an empty frame, or when a frame announces more than a vector can hold.\<close>

definition decoderFails :: "byte \<Rightarrow> FrameCodec \<Rightarrow> cpp_error \<Rightarrow> bool" where
  "decoderFails b fc e \<longleftrightarrow>
     (e = Out_Of_Bounds \<and> fc_state fc = getData \<and> fc_length fc = 0) \<or>
     (e = Length_Error \<and> fc_state fc = getLen \<and> (ucast b :: size_type) AND 0x80 = 0 \<and>
      vec_max_size < unat (fc_length fc OR (ucast b AND 0x7f)))"

lemma decodeByte_fails: "codec_inv fc \<Longrightarrow> decodeByte b fc = Inl e \<longleftrightarrow> decoderFails b fc e"
  by (auto simp: codec_inv_def decodeByte_def decoderFails_def Let_def word_less_nat_alt split: DecodeState.splits if_splits)

lemma receiveData_outcome:
  assumes "codec_inv fc"
  shows "(\<exists>fc' out. receiveData bs fc = Inr (fc', out) \<and> codec_inv fc') \<or>
    (\<exists>e k fc' out. receiveData bs fc = Inl e \<and> k < length bs \<and> receiveData (take k bs) fc = Inr (fc', out) \<and> decoderFails (bs ! k) fc' e)"
  using assms
proof (induction bs rule: rev_induct)
  case (snoc b bs)
  from snoc.IH [OF snoc.prems] show ?case
  proof (elim disjE exE conjE)
    fix e k fc' out assume f: "receiveData bs fc = Inl e" "k < length bs" "receiveData (take k bs) fc = Inr (fc', out)" "decoderFails (bs ! k) fc' e"
    have "receiveData (bs @ [b]) fc = Inl e" using f(1) by (simp add: receiveData_append)
    moreover have "take k (bs @ [b]) = take k bs" "(bs @ [b]) ! k = bs ! k" using f(2) by (simp_all add: nth_append)
    ultimately show ?case using f(2-4) by (metis length_append_singleton less_SucI)
  next
    fix fc' out assume f: "receiveData bs fc = Inr (fc', out)" "codec_inv fc'"
    show ?case
    proof (cases "decodeByte b fc'")
      case (Inl e)
      then have "receiveData (bs @ [b]) fc = Inl e" using f(1) by (simp add: receiveData_append)
      moreover have "decoderFails ((bs @ [b]) ! length bs) fc' e" using Inl decodeByte_fails [OF f(2)] by simp
      moreover have "receiveData (take (length bs) (bs @ [b])) fc = Inr (fc', out)" using f(1) by simp
      ultimately show ?thesis by (metis length_append_singleton lessI)
    next
      case (Inr r)
      then show ?thesis using f decodeByte_inv [OF f(2)] by (cases r) (simp add: receiveData_append)
    qed
  qed
qed simp

text \<open>The dispatcher and the end of the master.\<close>

lemma rxCommand_ended:
  "rxCommand uninit cmd bb c = Inr c' \<Longrightarrow> pc_masterEndedCB c' = pc_masterEndedCB c \<and>
     pc_endedCalls c' = (if cmd = master_ended \<and> pc_masterEndedCB c then Suc (pc_endedCalls c) else pc_endedCalls c)"
  by (cases cmd) (auto simp: rxCommand_def rxToken_def rxDiscoveryPacket_def rxAddrReplyPacket_def rbind_eq_Inr Let_def
      split: if_splits option.splits)

lemma rxRawPacket_ended:
  assumes "rxRawPacket masterRx uninit bb c = Some (Inr c')" and "rxq_ok c"
  shows "pc_masterEndedCB c' = pc_masterEndedCB c \<and> pc_endedCalls c' = pc_endedCalls c +
    (if longEnough bb \<and> byte2MessageType (bb ! 0) = Some master_ended \<and> pc_masterEndedCB c then 1 else 0) \<and>
    (pc_master c' = None \<longleftrightarrow> pc_master c = None)"
proof (cases "longEnough bb")
  case False
  then show ?thesis using assms by (simp add: rxRawPacket_def)
next
  case True
  then obtain cmd where cmd: "bb \<noteq> []" "byte2MessageType (bb ! 0) = Some cmd" "sizeofHeader cmd \<le> length bb"
    by (auto simp: longEnough_iff)
  obtain c1 where c1: "rxCommand uninit cmd bb c = Inr c1" "rxq_ok c1" "pc_master c1 = pc_master c" using rxCommand_total [OF cmd(3) assms(2)] by blast
  obtain c2 where c2: "callMaster masterRx cmd bb c1 = Some (Inr c2)" "deliverRxQueue c2 = Inr c'"
    using assms(1) True cmd c1(1) by (auto simp: rxRawPacket_def rbind_eq_Inr)
  have m: "pc_rxMsg c2 = pc_rxMsg c1" "pc_masterEndedCB c2 = pc_masterEndedCB c1" "pc_endedCalls c2 = pc_endedCalls c1"
    "pc_master c2 = None \<longleftrightarrow> pc_master c1 = None"
    using c2(1) by (auto simp: callMaster_def rbind_eq_Inr split: option.splits)
  have "rxq_ok c2" using c1(2) m(1) by (simp add: rxq_ok_def)
  then show ?thesis using c2(2) m c1(3) rxCommand_ended [OF c1(1)] True cmd(2) by (auto simp: deliverRxQueue_eq)
qed

section \<open>Every event keeps the invariant or fails in one of three ways\<close>

lemma flush_inv:
  assumes "node_inv (n\<lparr>sn_ptc := (sn_ptc n)\<lparr>pc_tx := (sn_txQueue n)\<lparr>tq_sent := []\<rparr>\<rparr>, sn_stopped := True\<rparr>)"
  shows "\<exists>n'. flushTx n = Inr n' \<and> node_inv n' \<and> sn_adapter n' = (sn_adapter n)\<lparr>mb_txBytes :=
      mb_txBytes (sn_adapter n) @ map encodePacket (tq_sent (sn_txQueue n))\<rparr> \<and>
    sn_ptc n' = (sn_ptc n)\<lparr>pc_tx := (sn_txQueue n)\<lparr>tq_sent := []\<rparr>\<rparr> \<and> sn_port n' = sn_port n \<and> sn_masterTimeout n' = sn_masterTimeout n \<and>
    sn_stopped n' = (sn_stopped n \<or> 0 < pc_endedCalls (sn_ptc n))"
  using assms flushTx_ok [of n] by (simp add: node_inv_def)

lemma rxPacket_inv:
  assumes "node_inv n"
  shows "\<exists>n'. rxPacket uninit bb n = Some (Inr n') \<and> node_inv n' \<and>
    sn_stopped n' = (sn_stopped n \<or> 0 < pc_endedCalls (sn_ptc n')) \<and> pc_endedCalls (sn_ptc n') = pc_endedCalls (sn_ptc n) +
      (if longEnough bb \<and> byte2MessageType (bb ! 0) = Some master_ended then 1 else 0)"
proof -
  have q: "rxq_ok (sn_ptc n)" using assms by (simp add: node_inv_def rxq_ok_def)
  then obtain c where c: "rxRawPacket nodeMasterRx uninit bb (sn_ptc n) = Some (Inr c)" "\<forall>m. pc_master c = Some m \<longrightarrow> reachable m" "pc_rxMsg c = []"
    using rxRawPacket_total [of "sn_ptc n" uninit bb] assms by (auto simp: node_inv_def)
  note e = rxRawPacket_ended [OF c(1) q]
  define k where "k = n\<lparr>sn_ptc := c\<rparr>"
  have "node_inv (k\<lparr>sn_ptc := (sn_ptc k)\<lparr>pc_tx := (sn_txQueue k)\<lparr>tq_sent := []\<rparr>\<rparr>, sn_stopped := True\<rparr>)"
    using assms c(2,3) e by (auto simp: node_inv_def k_def)
  from flush_inv [OF this] obtain n' where n': "flushTx k = Inr n'" "node_inv n'" "sn_ptc n' = (sn_ptc k)\<lparr>pc_tx := (sn_txQueue k)\<lparr>tq_sent := []\<rparr>\<rparr>"
    "sn_stopped n' = (sn_stopped k \<or> 0 < pc_endedCalls (sn_ptc k))" by (elim exE conjE) (rule that, assumption+)
  have "rxPacket uninit bb n = Some (Inr n')" using c(1) n'(1) by (simp add: rxPacket_def flushed_def k_def)
  moreover have "pc_masterEndedCB (sn_ptc n)" using assms by (simp add: node_inv_def)
  ultimately show ?thesis using n'(2-4) e by (simp add: k_def)
qed

text \<open>An event of a node that has not been stopped before: it is stopped exactly when it hears of the end of the
  master.\<close>

definition stops :: "SerialNet \<Rightarrow> SerialNet \<Rightarrow> bool" where
  "stops n n' \<longleftrightarrow> pc_endedCalls (sn_ptc n) \<le> pc_endedCalls (sn_ptc n') \<and> (sn_stopped n \<longrightarrow> sn_stopped n') \<and>
     (sn_stopped n' \<longrightarrow> sn_stopped n \<or> 0 < pc_endedCalls (sn_ptc n')) \<and>
     (pc_endedCalls (sn_ptc n) < pc_endedCalls (sn_ptc n') \<longrightarrow> sn_stopped n')"

lemma stops_refl [simp]: "stops n n"
  by (simp add: stops_def)

lemma stops_trans: "stops n n' \<Longrightarrow> stops n' n'' \<Longrightarrow> stops n n''"
  by (auto simp: stops_def)

lemma rxPackets_inv: "node_inv n \<Longrightarrow> \<exists>n'. rxPackets uninit bbs n = Some (Inr n') \<and> node_inv n' \<and> stops n n'"
proof (induction bbs arbitrary: n)
  case (Cons bb bbs)
  obtain n1 where n1: "rxPacket uninit bb n = Some (Inr n1)" "node_inv n1" "stops n n1"
    using rxPacket_inv [OF Cons.prems, of uninit bb] unfolding stops_def by fastforce
  then show ?case using Cons.IH [OF n1(2)] stops_trans [OF n1(3)] by auto
qed simp

definition readFails :: "int + byte_vec \<Rightarrow> bool" where
  "readFails r \<longleftrightarrow> (case r of Inl errno \<Rightarrow> errno \<noteq> eagain | Inr bs \<Rightarrow> bs = [])"

text \<open>The decoder before the bytes of a read.\<close>

definition codecAt :: "SerialNet \<Rightarrow> FrameCodec" where
  "codecAt n = mb_codec (checkTimeout (sn_now n) (sn_adapter n))"

lemma nodeRead_outcome:
  assumes "node_inv n"
  shows "(\<exists>n'. nodeRead uninit r n = Some (Inr n') \<and> node_inv n' \<and> stops n n') \<or>
    (readFails r \<and> nodeRead uninit r n = Some (Inl (Runtime_Error ''Unexpected value in serial read''))) \<or>
    (\<exists>bs k fc out e. r = Inr bs \<and> k < length bs \<and> receiveData (take k bs) (codecAt n) = Inr (fc, out) \<and>
       decoderFails (bs ! k) fc e \<and> nodeRead uninit r n = Some (Inl e))"
proof (cases r)
  case (Inl errno)
  then show ?thesis using assms by (cases "errno = eagain") (simp_all add: nodeRead_def readSerial_def readFails_def)
next
  case (Inr bs)
  show ?thesis
  proof (cases "bs = []")
    case True
    then show ?thesis using Inr by (simp add: nodeRead_def nodeReceive_def readSerial_def readFails_def)
  next
    case False
    let ?a = "(checkTimeout (sn_now n) (sn_adapter n))\<lparr>mb_lastUpdate := sn_now n\<rparr>"
    have inv: "codec_inv (codecAt n)" "mb_hasByteIf ?a"
      using assms codec_inv_reset by (auto simp: codecAt_def checkTimeout_def node_inv_def Let_def)
    have run: "nodeRead uninit r n = (case receiveBytes (sn_now n) bs (sn_adapter n) of Inl e \<Rightarrow> Some (Inl e)
        | Inr (a, packets) \<Rightarrow> rxPackets uninit packets (n\<lparr>sn_adapter := a\<rparr>))"
      using Inr False assms by (simp add: nodeRead_def nodeReceive_def readSerial_def node_inv_def)
    have rx: "receiveBytes (sn_now n) bs (sn_adapter n) = rbind (receiveData bs (codecAt n)) (\<lambda>(fc, out). Inr (?a\<lparr>mb_codec := fc\<rparr>, out))"
      by (simp add: receiveBytes_def codecAt_def)
    from receiveData_outcome [OF inv(1), of bs] show ?thesis
    proof (elim disjE exE conjE)
      fix fc out assume f: "receiveData bs (codecAt n) = Inr (fc, out)" "codec_inv fc"
      have "node_inv (n\<lparr>sn_adapter := ?a\<lparr>mb_codec := fc\<rparr>\<rparr>)" using assms f(2) inv(2) by (simp add: node_inv_def)
      then obtain n' where "rxPackets uninit out (n\<lparr>sn_adapter := ?a\<lparr>mb_codec := fc\<rparr>\<rparr>) = Some (Inr n')" "node_inv n'"
        "stops (n\<lparr>sn_adapter := ?a\<lparr>mb_codec := fc\<rparr>\<rparr>) n'" using rxPackets_inv by blast
      then show ?thesis using f(1) unfolding run rx by (simp add: stops_def)
    next
      fix e k fc out assume "receiveData bs (codecAt n) = Inl e" "k < length bs" "receiveData (take k bs) (codecAt n) = Inr (fc, out)"
        "decoderFails (bs ! k) fc e"
      then show ?thesis using Inr unfolding run rx by auto
    qed
  qed
qed

lemma nodeTimer_outcome:
  assumes "node_inv n"
  shows "(\<exists>n'. nodeTimer i n = Some (Inr n') \<and> node_inv n' \<and> sn_stopped n' = (sn_stopped n \<or> 0 < pc_endedCalls (sn_ptc n)) \<and>
      pc_endedCalls (sn_ptc n') = pc_endedCalls (sn_ptc n)) \<or>
    (\<exists>m. sn_master n = Some m \<and> inState st_startMaster m \<and> armed CB_fsm_timeout i m \<and> nodeTimer i n = Some (Inl Assert_Failed))"
proof (cases "sn_master n")
  case None
  then show ?thesis using assms by (auto simp: nodeTimer_def node_inv_def)
next
  case (Some m)
  obtain busy a where a: "(if pollsReceiver i m then packetRxInProgress (sn_now n) (sn_adapter n) else (mw_rxBusy (m_world m), sn_adapter n)) = (busy, a)"
    by fastforce
  have a': "codec_inv (mb_codec a)" "mb_hasByteIf a"
    using a assms codec_inv_reset by (auto simp: packetRxInProgress_def checkTimeout_def node_inv_def Let_def split: if_splits)
  let ?m = "m\<lparr>m_world := (m_world m)\<lparr>mw_tx := sn_txQueue n, mw_rxBusy := busy\<rparr>\<rparr>"
  have "reachable m" using assms Some by (simp add: node_inv_def)
  then have reach: "reachable ?m" using reachable_busy [OF reachable_tx [of m "sn_txQueue n"], of busy] by simp
  have run: "nodeTimer i n = flushed (map_option (\<lambda>r. rbind r (\<lambda>m2.
      Inr (n\<lparr>sn_adapter := a, sn_ptc := (sn_ptc n)\<lparr>pc_master := Some m2, pc_tx := mw_tx (m_world m2)\<rparr>\<rparr>))) (masterStep (Timer_Fires i) ?m))"
    using Some a by (simp add: nodeTimer_def)
  from step_ok [OF reachable_inv [OF reach], of "Timer_Fires i"] show ?thesis
  proof (elim disjE exE conjE)
    fix m2 assume m2: "masterStep (Timer_Fires i) ?m = Some (Inr m2)"
    then have "reachable m2" using reach reachable.step by blast
    then have "node_inv (n\<lparr>sn_adapter := a, sn_ptc := (sn_ptc n)\<lparr>pc_master := Some m2, pc_tx := (mw_tx (m_world m2))\<lparr>tq_sent := []\<rparr>\<rparr>, sn_stopped := True\<rparr>)"
      using assms a' by (simp add: node_inv_def)
    then show ?thesis using flush_inv [of "n\<lparr>sn_adapter := a, sn_ptc := (sn_ptc n)\<lparr>pc_master := Some m2, pc_tx := mw_tx (m_world m2)\<rparr>\<rparr>"] m2
      unfolding run by (auto simp: flushed_def)
  next
    fix j assume j: "masterStep (Timer_Fires i) ?m = Some (Inl Assert_Failed)" "inState st_startMaster ?m" "Timer_Fires i = Timer_Fires j"
      "(j, CB_fsm_timeout) \<in> ts_callbacks (mw_ts (m_world ?m))"
    then have "inState st_startMaster m" "armed CB_fsm_timeout i m" by (simp_all add: inState_def armed_iff)
    then show ?thesis using Some j(1) unfolding run by (simp add: flushed_def)
  qed
qed

lemma nodeMasterTimeout_outcome:
  assumes "node_inv n"
  shows "\<exists>n'. nodeMasterTimeout n = Inr n' \<and> node_inv n' \<and> stops n n' \<and> sn_masterTimeout n' = None \<and>
    (if sn_masterTimeout n = None then n' = n
     else sn_master n' = None \<and> mb_txBytes (sn_adapter n') = mb_txBytes (sn_adapter n) @ [encodePacket [messageType2Byte master_ended]])"
proof (cases "sn_masterTimeout n")
  case None
  then show ?thesis using assms by (simp add: nodeMasterTimeout_def)
next
  case (Some t)
  then obtain m where m: "sn_master n = Some m" using assms by (auto simp: node_inv_def)
  let ?q = "sendMasterPacket [messageType2Byte master_ended] (sn_txQueue n)"
  let ?n = "n\<lparr>sn_masterTimeout := None, sn_ptc := (sn_ptc n)\<lparr>pc_master := None, pc_tx := ?q\<rparr>\<rparr>"
  have run: "nodeMasterTimeout n = flushTx ?n"
    using Some m by (simp add: nodeMasterTimeout_def masterTimeoutCB_def exitMaster_def sendMasterStop_def fromHeader_MasterEnded_def)
  have "node_inv (?n\<lparr>sn_ptc := (sn_ptc ?n)\<lparr>pc_tx := (sn_txQueue ?n)\<lparr>tq_sent := []\<rparr>\<rparr>, sn_stopped := True\<rparr>)"
    using assms by (simp add: node_inv_def)
  moreover have "tq_sent ?q = [[messageType2Byte master_ended]]"
    using assms by (simp add: node_inv_def sendMasterPacket_def sendMsg_def)
  ultimately show ?thesis using flush_inv [of ?n] Some assms unfolding run stops_def node_inv_def by auto
qed

lemma nodeTime_inv: "node_inv n \<Longrightarrow> node_inv (nodeTime dt n)"
  using reachable.step [of _ "Time_Passes \<bar>dt\<bar>"] by (auto simp: node_inv_def nodeTime_def)

lemma nodeHostSend_inv: "node_inv n \<Longrightarrow> node_inv (nodeHostSend data dest ct n)"
  by (simp add: node_inv_def nodeHostSend_def msgHostTx_sendPacket_def sendPacket_def Let_def)

text \<open>How an event can fail.\<close>

definition eventFails :: "node_event \<Rightarrow> SerialNet \<Rightarrow> cpp_error \<Rightarrow> bool" where
  "eventFails ev n e \<longleftrightarrow>
     (\<exists>u r. ev = Ev_Read u r \<and> readFails r \<and> e = Runtime_Error ''Unexpected value in serial read'') \<or>
     (\<exists>u bs k fc out. ev = Ev_Read u (Inr bs) \<and> k < length bs \<and> receiveData (take k bs) (codecAt n) = Inr (fc, out) \<and>
        decoderFails (bs ! k) fc e) \<or>
     (\<exists>i m. ev = Ev_Timer i \<and> sn_master n = Some m \<and> inState st_startMaster m \<and> armed CB_fsm_timeout i m \<and> e = Assert_Failed)"

lemma nodeEvent_outcome:
  assumes "node_inv n"
  shows "(\<exists>n'. nodeEvent ev n = Some (Inr n') \<and> node_inv n' \<and> (ev \<noteq> Ev_Sigint \<longrightarrow> stops n n') \<and> (ev = Ev_Sigint \<longrightarrow> sn_stopped n')) \<or>
    (\<exists>e. nodeEvent ev n = Some (Inl e) \<and> eventFails ev n e)"
proof (cases ev)
  case (Ev_Read u r)
  then show ?thesis using nodeRead_outcome [OF assms, of u r] unfolding eventFails_def by simp blast
next
  case (Ev_Host data dest ct)
  then show ?thesis using nodeHostSend_inv [OF assms] by (simp add: stops_def nodeHostSend_def)
next
  case (Ev_Timer i)
  then show ?thesis using nodeTimer_outcome [OF assms, of i] unfolding eventFails_def by (auto simp: stops_def)
next
  case Ev_MasterTimeout
  then show ?thesis using nodeMasterTimeout_outcome [OF assms] by auto
next
  case (Ev_Time dt)
  then show ?thesis using nodeTime_inv [OF assms] by (simp add: stops_def nodeTime_def)
next
  case Ev_Sigint
  then show ?thesis using assms by (simp add: node_inv_def onSigint_def)
qed

section \<open>Runs\<close>

lemma nodeEvents_inv: "nodeEvents evs n = Some (Inr n') \<Longrightarrow> node_inv n \<Longrightarrow> node_inv n'"
proof (induction evs arbitrary: n)
  case (Cons ev evs)
  from nodeEvent_outcome [OF Cons.prems(2), of ev] Cons.prems(1)
  obtain n1 where "nodeEvent ev n = Some (Inr n1)" "node_inv n1" by auto
  then show ?case using Cons by simp
qed simp

lemma nodeEvents_returns: "node_inv n \<Longrightarrow> nodeEvents evs n \<noteq> None"
proof (induction evs arbitrary: n)
  case (Cons ev evs)
  from nodeEvent_outcome [OF Cons.prems, of ev] show ?case using Cons.IH by auto
qed simp

lemma nodeEvents_ended:
  "nodeEvents evs n = Some (Inr n') \<Longrightarrow> node_inv n \<Longrightarrow> pc_endedCalls (sn_ptc n) \<le> pc_endedCalls (sn_ptc n')"
proof (induction evs arbitrary: n)
  case (Cons ev evs)
  from nodeEvent_outcome [OF Cons.prems(2), of ev] Cons.prems(1)
  obtain n1 where n1: "nodeEvent ev n = Some (Inr n1)" "node_inv n1" "ev \<noteq> Ev_Sigint \<longrightarrow> stops n n1" by auto
  have "pc_endedCalls (sn_ptc n) \<le> pc_endedCalls (sn_ptc n1)"
    using n1 by (cases "ev = Ev_Sigint") (auto simp: stops_def onSigint_def)
  then show ?case using Cons.IH [OF _ n1(2)] Cons.prems(1) n1(1) by simp
qed simp

text \<open>The stop flag after an iteration.\<close>

lemma nodeEvents_stops:
  assumes "nodeEvents evs n = Some (Inr n')" and "node_inv n"
  shows "sn_stopped n' \<longleftrightarrow> sn_stopped n \<or> Ev_Sigint \<in> set evs \<or> 0 < pc_endedCalls (sn_ptc n')"
  using assms
proof (induction evs arbitrary: n)
  case Nil
  then show ?case by (auto simp: node_inv_def)
next
  case (Cons ev evs)
  from nodeEvent_outcome [OF Cons.prems(2), of ev] Cons.prems(1)
  obtain n1 where n1: "nodeEvent ev n = Some (Inr n1)" "node_inv n1" "ev \<noteq> Ev_Sigint \<longrightarrow> stops n n1" "ev = Ev_Sigint \<longrightarrow> sn_stopped n1" by auto
  have run: "nodeEvents evs n1 = Some (Inr n')" using Cons.prems(1) n1(1) by simp
  have le: "pc_endedCalls (sn_ptc n1) \<le> pc_endedCalls (sn_ptc n')" by (rule nodeEvents_ended [OF run n1(2)])
  show ?case using Cons.IH [OF run n1(2)] n1(3,4) le unfolding stops_def by (cases "ev = Ev_Sigint") auto
qed

lemma loopRun_returns: "node_inv n \<Longrightarrow> loopRun its n \<noteq> None"
proof (induction its arbitrary: n)
  case (Cons evs its)
  obtain r where r: "nodeEvents evs n = Some r" using nodeEvents_returns [OF Cons.prems] by blast
  show ?case
  proof (cases r)
    case (Inr n1)
    then show ?thesis using r Cons.IH [OF nodeEvents_inv [OF _ Cons.prems]] by simp
  qed (use r in simp)
qed simp

lemma loopRun_stops:
  assumes "loopRun its n = Some (Inr (b, n'))" and "node_inv n" and "\<not> sn_stopped n"
  shows "node_inv n' \<and> (b \<longleftrightarrow> (\<exists>evs \<in> set its. Ev_Sigint \<in> set evs) \<or> 0 < pc_endedCalls (sn_ptc n')) \<and> sn_stopped n' = b"
  using assms
proof (induction its arbitrary: n)
  case Nil
  then show ?case by (auto simp: node_inv_def)
next
  case (Cons evs its)
  then obtain n1 where n1: "nodeEvents evs n = Some (Inr n1)"
    "if sn_stopped n1 then b \<and> n' = n1 else loopRun its n1 = Some (Inr (b, n'))"
    by (auto split: Option.bind_splits sum.splits if_splits)
  note inv = nodeEvents_inv [OF n1(1) Cons.prems(2)] and st = nodeEvents_stops [OF n1(1) Cons.prems(2)]
  show ?case
  proof (cases "sn_stopped n1")
    case True
    then show ?thesis using n1(2) inv st Cons.prems(3) by auto
  next
    case False
    then show ?thesis using Cons.IH [OF _ inv False] n1(2) st by auto
  qed
qed

text \<open>A node that goes on to its loop.\<close>

lemma start_flags:
  assumes "start sys cfg = Some (Inr (Some n))"
  shows "\<not> sn_stopped n \<and> pc_endedCalls (sn_ptc n) = 0 \<and> pc_masterEndedCB (sn_ptc n) \<and>
    (sn_masterTimeout n \<noteq> None \<longrightarrow> sc_startMaster cfg)"
  using assms
  by (auto simp: start_def setupMaster_def flushed_def flushTx_def mkPacketTypeCodec_def rbind_eq_Inr map_sum_Some_Inr Let_def
      split: if_splits sum.splits)

lemma idle_inv: "fc_state fc = getKW \<Longrightarrow> codec_inv fc"
  by (simp add: codec_inv_def)

lemma start_inv:
  assumes "start sys cfg = Some (Inr (Some n))" and "1 \<le> ss_now sys"
  shows "node_inv n \<and> codec_idle (mb_codec (sn_adapter n)) \<and> \<not> sn_stopped n"
  using node_start_ok [OF assms] start_flags [OF assms(1)] by (auto simp: node_ok_def node_inv_def codec_idle_def idle_inv)

lemma start_returns:
  assumes "1 \<le> ss_now sys"
  shows "start sys cfg \<noteq> None"
proof -
  have "setupMaster sys cfg n \<noteq> None" for n
    using mkMaster_ok [OF assms, of "ss_uninit sys" "sn_txQueue n" False] by (auto simp: setupMaster_def flushed_def)
  then show ?thesis by (simp add: start_def Let_def split: sum.splits)
qed

text \<open>A node that is between two frames reads the end of the master.\<close>

lemma ended_read:
  assumes "node_inv n" and "codec_idle (mb_codec (sn_adapter n))"
  shows "\<exists>n'. nodeEvent (Ev_Read uninit (Inr (encodePacket [messageType2Byte master_ended]))) n = Some (Inr n') \<and> node_inv n' \<and> sn_stopped n'"
proof -
  let ?d = "[messageType2Byte master_ended]"
  have ok: "node_ok n" "frame_payload ?d" using assms by (simp_all add: node_ok_def node_inv_def frame_payload_def)
  obtain a where a: "nodeReceive uninit (encodePacket ?d) n = rxPacket uninit ?d (n\<lparr>sn_adapter := a\<rparr>)" "node_ok (n\<lparr>sn_adapter := a\<rparr>)"
    using nodeReceive_frame [OF ok] by blast
  have "node_inv (n\<lparr>sn_adapter := a\<rparr>)" using assms(1) a(2) by (simp add: node_inv_def node_ok_def codec_idle_def idle_inv)
  moreover have "longEnough ?d" "byte2MessageType (?d ! 0) = Some master_ended"
    by (simp_all add: longEnough_iff del: messageType2Byte.simps)
  ultimately show ?thesis using rxPacket_inv [of "n\<lparr>sn_adapter := a\<rparr>" uninit ?d] a(1) by (auto simp: nodeRead_def)
qed

section \<open>Properties\<close>







end
