(* ===== verification/Side_Parts.thy ===== *)
theory Side_Parts
  imports Event_Loop SN_Config Host_Drivers Time_Service
begin

text \<open>
  Parts beside the network program: the timer class of \<open>src/src/utility/Timer.{h,cpp}\<close> over the event loop, the
  manual test program of \<open>src/src/mains/hw_tests\<close>, the MQTT client of \<open>src/src/drivers/mqtt/MQTTDriver.cpp\<close> and the
  reading of a configuration file (\<open>src/src/utility/Config.cpp\<close>), and classes that nothing or only tests use
  (\<open>DynamicAddress\<close>, \<open>TimeServiceSim\<close>, \<open>PosixFileFake\<close>). System calls and the calls of libmosquitto are arguments.
\<close>

section \<open>The timer class\<close>

text \<open>The members \<open>m_tokenTimeout\<close> and \<open>m_timeoutHelper\<close> (alive until the object is destroyed), the functions that
  the lambdas of the watchers hold, and the functions called so far.\<close>

record 'f UtilTimer =
  ut_tokenTimeout :: "nat option"
  ut_helper :: bool
  ut_fkn :: "nat \<Rightarrow> 'f option"
  ut_called :: "'f list"

definition mkUtilTimer :: "'f UtilTimer" where
  "mkUtilTimer = \<lparr>ut_tokenTimeout = None, ut_helper = True, ut_fkn = (\<lambda>_. None), ut_called = []\<rparr>"

definition resetToken :: "'f UtilTimer \<Rightarrow> EvLoop \<Rightarrow> EvLoop" where
  "resetToken t l = (case ut_tokenTimeout t of None \<Rightarrow> l | Some i \<Rightarrow> dropHandle i l)"

text \<open>\<open>makeTimeout\<close> and \<open>makeTimeoutAbs\<close> differ in the time only. The old watcher loses its handle.\<close>

definition ut_makeTimeout :: "'f \<Rightarrow> 'f UtilTimer \<times> EvLoop \<Rightarrow> 'f UtilTimer \<times> EvLoop" where
  "ut_makeTimeout fkn q =
     (let (t, l) = q; (i, l1) = mkTimeoutWatch l in
      (t\<lparr>ut_tokenTimeout := Some i, ut_fkn := (ut_fkn t)(i := Some fkn)\<rparr>, resetToken t l1))"

text \<open>The delay that \<open>makeTimeoutAbs\<close> hands to the loop.\<close>

definition ut_delayAbs :: "real \<Rightarrow> real \<Rightarrow> real" where
  "ut_delayAbs now timeout = timeout - now"

definition ut_cleanTimeout :: "'f UtilTimer \<times> EvLoop \<Rightarrow> 'f UtilTimer \<times> EvLoop" where
  "ut_cleanTimeout q =
     (let (t, l) = q in
      case ut_tokenTimeout t of
        None \<Rightarrow> (t, l)
      | Some i \<Rightarrow> (t\<lparr>ut_tokenTimeout := None\<rparr>, dropHandle i (cancelHandle i l)))"

text \<open>The implicit destructor.\<close>

definition ut_destroy :: "'f UtilTimer \<times> EvLoop \<Rightarrow> 'f UtilTimer \<times> EvLoop" where
  "ut_destroy q = (let (t, l) = q in (t\<lparr>ut_tokenTimeout := None, ut_helper := False\<rparr>, resetToken t l))"

text \<open>The lambda, called by \<open>TimeoutData::cb\<close> of the watcher \<open>i\<close>: if the helper is alive, the handle is reset and
  the function called. The function itself does not touch watchers here.\<close>

definition ut_fire :: "nat \<Rightarrow> 'f UtilTimer \<times> EvLoop \<Rightarrow> ('f UtilTimer \<times> EvLoop) result" where
  "ut_fire i q =
     (let (t, l) = q in
      if ut_helper t
      then rbind (loopEvent i (case ut_tokenTimeout t of None \<Rightarrow> [] | Some j \<Rightarrow> [Op_Drop j]) False l) (\<lambda>l1.
             Inr (t\<lparr>ut_tokenTimeout := None, ut_called := ut_called t @ (case ut_fkn t i of None \<Rightarrow> [] | Some f \<Rightarrow> [f])\<rparr>, l1))
      else rbind (loopEvent i [] False l) (\<lambda>l1. Inr (t, l1)))"

text \<open>A timer that was set once: it fires once, and it can be cancelled.\<close>

lemma dropHandle_registered:
  assumes "loop_ok l"
  shows "el_started (dropHandle i l) = el_started l"
  using loop_okD [OF assms, of i]
  by (auto simp: dropHandle_def release_def setWatcher_def destroyWatcher_def split: option.splits)

lemma resetToken_ok: "loop_ok l \<Longrightarrow> loop_ok (resetToken t l) \<and> el_started (resetToken t l) = el_started l"
  by (auto simp: resetToken_def dropHandle_ok dropHandle_registered split: option.splits)

lemma ut_makeTimeout_started:
  assumes "loop_ok l"
  shows "\<exists>i t' l'. ut_makeTimeout fkn (t, l) = (t', l') \<and> loop_ok l' \<and> i = el_next l \<and> ut_tokenTimeout t' = Some i \<and>
    ut_fkn t' i = Some fkn \<and> el_started l' = el_started l @ [i]"
  using resetToken_ok [OF applyOp_ok [OF assms, of Op_Timeout]]
  by (simp add: ut_makeTimeout_def mkTimeoutWatch_def newWatcher_def Let_def)

text \<open>
  A second call of \<open>makeTimeout\<close> leaves the first watcher registered. When the first one fires, its lambda
  resets the handle of the second, so that \<open>cleanTimeout\<close> does nothing and the second
  fires too: both functions are called although the timer was cancelled in between.
\<close>

theorem timer_restart_fires_both:
  "\<exists>q q'. ut_fire 0 (ut_makeTimeout ''b'' (ut_makeTimeout ''a'' (mkUtilTimer, mkEvLoop))) = Inr q \<and>
     ut_cleanTimeout q = q \<and> el_started (snd q) = [1] \<and> ut_fire 1 q = Inr q' \<and> ut_called (fst q') = [''a'', ''b'']"
  by (simp add: ut_fire_def ut_makeTimeout_def ut_cleanTimeout_def mkUtilTimer_def mkEvLoop_def mkTimeoutWatch_def newWatcher_def
      resetToken_def loopEvent_def data_cb_def watcherAt_def runOps_def dropHandle_def release_def setWatcher_def
      destroyWatcher_def data_cancel_def ev_stop_def Let_def)

text \<open>A destroyed timer calls nothing, whatever is still registered; a cancelled one is not registered.\<close>

lemma ut_destroy_silent:
  assumes "ut_fire i (ut_destroy (t, l)) = Inr (t', l')"
  shows "ut_called t' = ut_called t"
  using assms by (auto simp: ut_fire_def ut_destroy_def rbind_eq_Inr)

lemma ut_cleanTimeout_stops:
  assumes "loop_ok l" and "ut_tokenTimeout t = Some i" and "el_objects l i = Some w" and "wa_kind w = WK_Timeout" and "0 < wa_handles w"
  shows "i \<notin> set (el_started (snd (ut_cleanTimeout (t, l))))"
proof -
  have "el_started (dropHandle i (cancelHandle i l)) = el_started (cancelHandle i l)"
    by (rule dropHandle_registered [OF cancelHandle_ok [OF assms(1)]])
  moreover have "i \<notin> set (el_started (cancelHandle i l))"
    using assms(3-5) by (simp add: cancelHandle_def release_def data_cancel_def setWatcher_def ev_stop_def)
  ultimately show ?thesis using assms(2) by (simp add: ut_cleanTimeout_def)
qed

section \<open>The hardware test\<close>

datatype hw_action = Hw_Modem "32 word" | Hw_Sleep int | Hw_Close int

text \<open>\<open>HwTests::doSetRTS\<close>: \<open>None\<close> says that the call does not return.\<close>

definition doSetRTS :: "int \<Rightarrow> (int \<times> 32 word) option \<Rightarrow> int \<Rightarrow> int \<Rightarrow> int \<Rightarrow> hw_action list option" where
  "doSetRTS fd getStatus setRes value timeout =
     (let val = (if value \<noteq> 0 then asserted else negated) in
      if fd < 0 then Some []
      else let modem = (case snd (setRTS getStatus setRes val) of None \<Rightarrow> [] | Some s \<Rightarrow> [Hw_Modem s]) in
           if timeout = -1 then None
           else Some (modem @ [Hw_Sleep timeout, Hw_Close fd]))"

text \<open>\<open>main\<close> of \<open>hw_tests.cpp\<close>: the exit code and the actions.\<close>

definition hw_main ::
    "nat \<Rightarrow> variables_map result \<Rightarrow> (string \<Rightarrow> int) \<Rightarrow> (int \<times> 32 word) option \<Rightarrow> int \<Rightarrow> (int \<times> hw_action list) result option" where
  "hw_main argc parsed openFd getStatus setRes =
     (if argc = 1 then Some (Inr (0, []))
      else case parsed of
             Inl e \<Rightarrow> Some (Inl e)
           | Inr vm \<Rightarrow>
               if vm ''usage'' \<noteq> None \<or> vm ''version'' \<noteq> None then Some (Inr (1, []))
               else (case as_int vm ''log-level'' of
                       Inl e \<Rightarrow> Some (Inl e)
                     | Inr _ \<Rightarrow>
                         if vm ''cmd'' = None then Some (Inr (1, []))
                         else (case rbind (as_string vm ''cmd'') (\<lambda>cmd. rbind (as_string vm ''serial-device'') (\<lambda>device.
                                      rbind (as_int vm ''arg'') (\<lambda>arg. rbind (as_int vm ''timeout'') (\<lambda>timeout.
                                        Inr (cmd, device, arg, timeout))))) of
                                 Inl e \<Rightarrow> Some (Inl e)
                               | Inr (cmd, device, arg, timeout) \<Rightarrow>
                                   if cmd = ''setRTS''
                                   then (if device = '''' then Some (Inr (1, []))
                                         else map_option (\<lambda>acts. Inr (0, acts)) (doSetRTS (openFd device) getStatus setRes arg timeout))
                                   else Some (Inr (0, [])))))"

lemma doSetRTS_returns_iff: "doSetRTS fd getStatus setRes value timeout = None \<longleftrightarrow> 0 \<le> fd \<and> timeout = -1"
  by (auto simp: doSetRTS_def Let_def)

lemma doSetRTS_closes:
  "doSetRTS fd getStatus setRes value timeout = Some acts \<Longrightarrow> 0 \<le> fd \<Longrightarrow> last acts = Hw_Close fd"
  by (auto simp: doSetRTS_def Let_def split: if_splits)

section \<open>The MQTT client\<close>

definition mosq_err_success :: int where "mosq_err_success = 0"

record MQTTDriverClient =
  mq_client :: nat
  mq_connected :: bool

definition mkMQTTDriverClient :: "nat option \<Rightarrow> MQTTDriverClient result" where
  "mkMQTTDriverClient mosquitto_new =
     (case mosquitto_new of
        None \<Rightarrow> Inl (Runtime_Error ''Failed to create mqtt client.'')
      | Some c \<Rightarrow> Inr \<lparr>mq_client = c, mq_connected = False\<rparr>)"

definition mqtt_disconnect :: "int \<Rightarrow> MQTTDriverClient \<Rightarrow> MQTTDriverClient" where
  "mqtt_disconnect res c = c\<lparr>mq_connected := False\<rparr>"

text \<open>The state is returned with an exception too, since the client may be used afterwards.\<close>

definition mqtt_connect :: "int \<Rightarrow> int \<Rightarrow> MQTTDriverClient \<Rightarrow> cpp_error option \<times> MQTTDriverClient" where
  "mqtt_connect disconnectRes connectRes c =
     (let c1 = (if mq_connected c then mqtt_disconnect disconnectRes c else c) in
      if connectRes \<noteq> mosq_err_success then (Some (Runtime_Error ''Failed connect''), c1)
      else (None, c1\<lparr>mq_connected := True\<rparr>))"

definition getClient :: "nat option \<Rightarrow> MQTTDriverClient result" where
  "getClient mosquitto_new = mkMQTTDriverClient mosquitto_new"

text \<open>The client is connected exactly after a call of \<open>connect\<close> that did not throw.\<close>

lemma mqtt_connected_iff:
  "mq_connected (snd (mqtt_connect d r c)) \<longleftrightarrow> fst (mqtt_connect d r c) = None"
  by (simp add: mqtt_connect_def mqtt_disconnect_def Let_def)

section \<open>Configuration file\<close>

text \<open>\<open>Config::readConfig\<close> opens the file and reads nothing.\<close>

definition readConfig :: "bool \<Rightarrow> unit result" where
  "readConfig is_open = (if is_open then Inr () else Inl (Runtime_Error ''Can not open file.''))"

section \<open>Classes without a user, and test doubles\<close>

text \<open>\<open>DynamicAddress\<close> of \<open>src/src/master\<close>; the default constructor leaves the unique id as the memory had it.\<close>

record DynamicAddress =
  da_uniqueId :: UniqueId
  da_local :: LocalAddress

definition mkDynamicAddressDefault :: "UniqueId \<Rightarrow> DynamicAddress" where
  "mkDynamicAddressDefault uninit = \<lparr>da_uniqueId = uninit, da_local = null_addr\<rparr>"

definition mkDynamicAddress :: "UniqueId \<Rightarrow> LocalAddress \<Rightarrow> DynamicAddress" where
  "mkDynamicAddress uniqueId local = \<lparr>da_uniqueId = uniqueId, da_local = local\<rparr>"

text \<open>\<open>TimeServiceSim\<close> of \<open>src/src/hal\<close>. It has a queue that nothing is put into: \<open>makeTimeout\<close> returns an empty handle,
  \<open>cancel\<close> does nothing, \<open>makeTimeoutAbs\<close> and \<open>advance\<close> are declared without a body.\<close>

record 'f SimQueueEl =
  sq_time :: time
  sq_fkn :: 'f

record 'f TimeServiceSim =
  tss_waiting :: "'f SimQueueEl list"
  tss_now :: time

definition mkTimeServiceSim :: "'f TimeServiceSim" where
  "mkTimeServiceSim = \<lparr>tss_waiting = [], tss_now = 1\<rparr>"

definition simQueueEl_gt :: "'f SimQueueEl \<Rightarrow> 'f SimQueueEl \<Rightarrow> bool" where
  "simQueueEl_gt lhs rhs \<longleftrightarrow> sq_time rhs < sq_time lhs"

definition sim_now :: "'f TimeServiceSim \<Rightarrow> time" where
  "sim_now s = tss_now s"

definition sim_makeTimeout :: "time \<Rightarrow> 'f \<Rightarrow> 'f TimeServiceSim \<Rightarrow> Timer \<times> 'f TimeServiceSim" where
  "sim_makeTimeout timespan fkn s = (None, s)"

definition sim_cancel :: "Timer \<Rightarrow> 'f TimeServiceSim \<Rightarrow> 'f TimeServiceSim" where
  "sim_cancel timer s = s"

text \<open>\<open>PosixFileFake\<close> of \<open>src/src/hal\<close>: every call is counted, its arguments are kept (a buffer as its address), and the
  result is the one the test has set.\<close>

record PosixFileFake =
  pff_path :: string
  pff_res :: int
  pff_flags :: int
  pff_mode :: "32 word"
  pff_fd :: int
  pff_buf :: nat
  pff_maxLen :: nat
  pff_cnt :: int

definition pff_open :: "string \<Rightarrow> int \<Rightarrow> PosixFileFake \<Rightarrow> int \<times> PosixFileFake" where
  "pff_open pathname flags f = (pff_res f, f\<lparr>pff_path := pathname, pff_flags := flags, pff_cnt := pff_cnt f + 1\<rparr>)"

definition pff_openMode :: "string \<Rightarrow> int \<Rightarrow> 32 word \<Rightarrow> PosixFileFake \<Rightarrow> int \<times> PosixFileFake" where
  "pff_openMode pathname flags mode f =
     (pff_res f, f\<lparr>pff_path := pathname, pff_flags := flags, pff_mode := mode, pff_cnt := pff_cnt f + 1\<rparr>)"

definition pff_read :: "int \<Rightarrow> nat \<Rightarrow> nat \<Rightarrow> PosixFileFake \<Rightarrow> int \<times> PosixFileFake" where
  "pff_read fd buf sz f = (pff_res f, f\<lparr>pff_fd := fd, pff_buf := buf, pff_maxLen := sz, pff_cnt := pff_cnt f + 1\<rparr>)"

definition pff_write :: "int \<Rightarrow> nat \<Rightarrow> nat \<Rightarrow> PosixFileFake \<Rightarrow> int \<times> PosixFileFake" where
  "pff_write fd buf sz f = (pff_res f, f\<lparr>pff_fd := fd, pff_buf := buf, pff_maxLen := sz, pff_cnt := pff_cnt f + 1\<rparr>)"

definition pff_close :: "int \<Rightarrow> PosixFileFake \<Rightarrow> int \<times> PosixFileFake" where
  "pff_close fd f = (pff_res f, f\<lparr>pff_fd := fd, pff_cnt := pff_cnt f + 1\<rparr>)"

definition pff_system :: "PosixFileFake \<Rightarrow> int \<times> PosixFileFake" where
  "pff_system f = (-1, f)"

text \<open>The fake counts the descriptors that an owner closes, and keeps the last one.\<close>

lemma pff_counts_closes:
  assumes "f' = fold (\<lambda>fd f. snd (pff_close fd f)) (drop (length (fd_closed p)) (fd_closed (fd_set new p))) f"
  shows "pff_cnt f' = pff_cnt f + (if fd_valid p \<and> fd_posixIf p then 1 else 0) \<and>
    (fd_valid p \<and> fd_posixIf p \<longrightarrow> pff_fd f' = fd_fd p)"
  unfolding assms by (simp add: fd_set_def fd_valid_def pff_close_def)

end
