(* ===== verification/State_Chart_Safety.thy ===== *)
theory State_Chart_Safety
  imports State_Chart
begin

text \<open>
  Memory safety of the state machine engine (\<open>src/src/statechart/StateChart.{h,cpp}\<close>) for every table of states and every
  user of the engine. The engine keeps one object for each level of the hierarchy, in the storage of that level, and
  looks states up through pointers. Whatever the constructors, destructors and handlers of the states do and
  wherever they ask to go: the engine itself never accesses a vector out of bounds or follows a null pointer, every
  object fits into its storage, and storage is only enlarged while no object lives in it.
\<close>

section \<open>Consistent machines\<close>

text \<open>The tables that calls of \<open>addState\<close> with different ids build.\<close>

inductive registered :: "FsmSetupBase \<Rightarrow> bool" where
  none: "registered mkFsmSetupBase"
| add: "registered tbl \<Longrightarrow> i \<notin> si_id ` set (fs_states tbl) \<Longrightarrow> addStateBase i p sz nm tbl = Inr tbl' \<Longrightarrow> registered tbl'"

lemma registered_wf: "registered tbl \<Longrightarrow> wf_setup tbl"
  by (induction rule: registered.induct) (auto intro: wf_setup_init addStateBase_wf)

text \<open>The active states form the path of a registered state, each lives in the storage of its level and fits into
  it, and the levels below hold no object.\<close>

definition frames_ok :: "FsmBaseSupport \<Rightarrow> bool" where
  "frames_ok fb \<longleftrightarrow> stack_ok fb \<and>
     (\<forall>l < length (fb_stackFrames fb).
        if l < length (fb_currentInfos fb)
        then si_stateSize (fb_currentInfos fb ! l) \<le> ld_stateStorage (fb_stackFrames fb ! l)
        else ld_activeState (fb_stackFrames fb ! l) = None)"

definition path_ok :: "FsmBaseSupport \<Rightarrow> bool" where
  "path_ok fb \<longleftrightarrow> (fb_currentInfos fb = [] \<or>
     (last (fb_currentInfos fb) \<in> set (fs_states (fb_setup fb)) \<and>
      fb_currentInfos fb = pathTo (fb_setup fb) (si_level (last (fb_currentInfos fb))) (last (fb_currentInfos fb))))"

text \<open>The queue holds the events \<open>q0\<close>, and perhaps some that were posted later.\<close>

definition queue_ok :: "'ev list \<Rightarrow> 'ev VecQueue \<Rightarrow> bool" where
  "queue_ok q0 q \<longleftrightarrow> vq_inv q \<and> (\<exists>ys. vq_list q = q0 @ ys)"

definition machine_ok :: "FsmSetupBase \<Rightarrow> 'ev list \<Rightarrow> ('ev, 'w) FsmBase \<Rightarrow> bool" where
  "machine_ok tbl q0 m \<longleftrightarrow> wf_setup tbl \<and> fb_setup (m_base m) = tbl \<and> queue_ok q0 (m_eventQueue m) \<and>
     length (fb_stackFrames (m_base m)) = fs_maxLevel tbl + 1 \<and> frames_ok (m_base m) \<and> path_ok (m_base m)"

text \<open>The errors that come from the code of the states.\<close>

definition userError :: "('ev, 'w) FsmDescription \<Rightarrow> cpp_error \<Rightarrow> bool" where
  "userError d e \<longleftrightarrow> (\<exists>i w. fd_construct d i w = Inl e \<or> fd_destruct d i w = Inl e \<or> (\<exists>ev. fd_event d i ev w = Inl e))"

text \<open>A result with the property \<open>P\<close>, or an error of the states.\<close>

definition safe :: "('ev, 'w) FsmDescription \<Rightarrow> ('a \<Rightarrow> bool) \<Rightarrow> 'a result \<Rightarrow> bool" where
  "safe d P r \<longleftrightarrow> (case r of Inl e \<Rightarrow> userError d e | Inr x \<Rightarrow> P x)"

lemma safe_simps [simp]: "safe d P (Inl e) = userError d e" "safe d P (Inr x) = P x"
  by (simp_all add: safe_def)

lemma safe_bind: "safe d P r \<Longrightarrow> (\<And>x. P x \<Longrightarrow> safe d Q (f x)) \<Longrightarrow> safe d Q (rbind r f)"
  by (cases r) simp_all

lemma safe_mono: "safe d P r \<Longrightarrow> (\<And>x. P x \<Longrightarrow> Q x) \<Longrightarrow> safe d Q r"
  by (cases r) simp_all

lemma safe_user:
  "safe d (\<lambda>_. True) (fd_construct d i w)" "safe d (\<lambda>_. True) (fd_destruct d i w)" "safe d (\<lambda>_. True) (fd_event d i ev w)"
  by (cases "fd_construct d i w"; cases "fd_destruct d i w"; cases "fd_event d i ev w"; auto simp: userError_def)+

section \<open>Transitions\<close>

text \<open>What the code of a state did, in the machine.\<close>

lemma applyEffect_safe [simp]:
  "frames_ok (m_base (applyEffect eff m)) = frames_ok (m_base m)" "path_ok (m_base (applyEffect eff m)) = path_ok (m_base m)"
  "machine_ok tbl q0 m \<Longrightarrow> machine_ok tbl q0 (applyEffect eff m)"
  "queue_ok q0 (m_eventQueue m) \<Longrightarrow> queue_ok q0 (m_eventQueue (applyEffect eff m))"
proof -
  obtain w req evs where eff: "eff = (w, req, evs)" by (cases eff)
  show f: "frames_ok (m_base (applyEffect eff m)) = frames_ok (m_base m)" and p: "path_ok (m_base (applyEffect eff m)) = path_ok (m_base m)"
    by (simp_all add: frames_ok_def stack_ok_def path_ok_def)
  show q: "queue_ok q0 (m_eventQueue m) \<Longrightarrow> queue_ok q0 (m_eventQueue (applyEffect eff m))"
    using vq.push_all [of "m_eventQueue m" evs] by (auto simp: eff applyEffect_def queue_ok_def)
  show "machine_ok tbl q0 m \<Longrightarrow> machine_ok tbl q0 (applyEffect eff m)" using f p q by (simp add: machine_ok_def)
qed

lemma frames_ok_cong:
  "fb_stackFrames a = fb_stackFrames b \<Longrightarrow> fb_currentInfos a = fb_currentInfos b \<Longrightarrow> frames_ok a = frames_ok b"
  by (simp add: frames_ok_def stack_ok_def)

lemma frames_ok_pop:
  assumes "frames_ok fb" and "fb_currentInfos fb \<noteq> []"
  shows "frames_ok (fb\<lparr>fb_stackFrames := (fb_stackFrames fb)[length (fb_currentInfos fb) - 1 := fr\<lparr>ld_activeState := None\<rparr>],
                    fb_currentInfos := butlast (fb_currentInfos fb)\<rparr>)"
  using assms stack_ok_pop [of fb] by (auto simp: frames_ok_def nth_butlast nth_list_update)

lemma frames_ok_push:
  assumes "frames_ok fb" and "length (fb_currentInfos fb) < length (fb_stackFrames fb)"
    and "ld_activeState fr = Some (si_id s)" and "si_stateSize s \<le> ld_stateStorage fr"
  shows "frames_ok (fb\<lparr>fb_currentInfos := fb_currentInfos fb @ [s],
      fb_stackFrames := (fb_stackFrames fb)[length (fb_currentInfos fb) := fr]\<rparr>)"
  using assms stack_ok_push [of fb fr s] by (auto simp: frames_ok_def nth_append nth_list_update)

text \<open>The parts of a machine that a walk over the levels keeps.\<close>

definition walked :: "'ev list \<Rightarrow> StateInfo list \<Rightarrow> ('ev, 'w) FsmBase \<Rightarrow> ('ev, 'w) FsmBase \<Rightarrow> bool" where
  "walked q0 infos m m' \<longleftrightarrow> frames_ok (m_base m') \<and> queue_ok q0 (m_eventQueue m') \<and> fb_currentInfos (m_base m') = infos \<and>
     fb_nextInfos (m_base m') = fb_nextInfos (m_base m) \<and> fb_setup (m_base m') = fb_setup (m_base m) \<and>
     length (fb_stackFrames (m_base m')) = length (fb_stackFrames (m_base m))"

lemma doExit_safe:
  assumes "frames_ok (m_base m)" and "queue_ok q0 (m_eventQueue m)" and "bl \<le> length (fb_currentInfos (m_base m))"
  shows "safe d (walked q0 (take bl (fb_currentInfos (m_base m))) m) (doExit d bl m)"
  using assms
proof (induction "length (fb_currentInfos (m_base m)) - bl" arbitrary: m)
  case 0
  then show ?case by (simp add: doExit_done walked_def)
next
  case (Suc k)
  let ?cur = "fb_currentInfos (m_base m)" and ?frames = "fb_stackFrames (m_base m)"
  let ?top = "length ?cur - 1"
  let ?fb = "(m_base m)\<lparr>fb_stackFrames := ?frames[?top := (?frames ! ?top)\<lparr>ld_activeState := None\<rparr>]\<rparr>"
  have lt: "bl < length ?cur" using Suc.hyps(2) by simp
  then have ne: "?cur \<noteq> []" by auto
  then have "?top < length ?cur" "last ?cur = ?cur ! ?top" by (simp_all add: last_conv_nth)
  then have top: "?top < length ?frames" "ld_activeState (?frames ! ?top) = Some (si_id (last ?cur))"
    using Suc.prems(1) unfolding frames_ok_def stack_ok_def by (blast intro: less_le_trans, metis)
  define m1 where "m1 = (\<lambda>eff. let m' = applyEffect eff (m\<lparr>m_base := ?fb\<rparr>) in
      m'\<lparr>m_base := (m_base m')\<lparr>fb_currentInfos := butlast (fb_currentInfos (m_base m'))\<rparr>\<rparr>)"
  have step: "doExit d bl m = rbind (fd_destruct d (si_id (last ?cur)) (m_world m)) (\<lambda>eff. doExit d bl (m1 eff))"
    using lt top by (subst doExit.simps) (simp add: Let_def m1_def)
  have "safe d (walked q0 (take bl ?cur) m) (doExit d bl (m1 eff))" for eff
  proof -
    have m1: "frames_ok (m_base (m1 eff))"
      by (rule frames_ok_cong [THEN iffD1, OF _ _ frames_ok_pop [OF Suc.prems(1) ne, of "?frames ! ?top"]]) (simp_all add: m1_def Let_def)
    have q1: "queue_ok q0 (m_eventQueue (m1 eff))"
      using applyEffect_safe(4) [of q0 "m\<lparr>m_base := ?fb\<rparr>" eff] Suc.prems(2) by (simp add: m1_def Let_def)
    have same: "fb_currentInfos (m_base (m1 eff)) = butlast ?cur" "fb_nextInfos (m_base (m1 eff)) = fb_nextInfos (m_base m)"
      "fb_setup (m_base (m1 eff)) = fb_setup (m_base m)" "length (fb_stackFrames (m_base (m1 eff))) = length ?frames"
      by (simp_all add: m1_def Let_def)
    have len: "k = length (fb_currentInfos (m_base (m1 eff))) - bl" "bl \<le> length (fb_currentInfos (m_base (m1 eff)))"
      using Suc.hyps(2) lt same(1) by simp_all
    have "take bl (butlast ?cur) = take bl ?cur" using lt by (simp add: take_butlast)
    then show ?thesis using safe_mono [OF Suc.hyps(1) [OF len(1) m1 q1 len(2)]] same by (auto simp: walked_def)
  qed
  then show ?case unfolding step by (intro safe_bind [OF safe_user(2)])
qed

lemma doEntry_safe:
  assumes "frames_ok (m_base m)" and "queue_ok q0 (m_eventQueue m)" and "fb_nextInfos (m_base m) = map Some path"
    and "fb_currentInfos (m_base m) = take k path" and "k \<le> length path" and "length path \<le> length (fb_stackFrames (m_base m))"
  shows "safe d (walked q0 path m) (doEntry d m)"
  using assms
proof (induction "length path - k" arbitrary: m k)
  case 0
  then show ?case by (simp add: doEntry_done walked_def)
next
  case (Suc j)
  let ?fb = "m_base m" and ?s = "path ! k"
  let ?fr = "\<lparr>ld_activeState = Some (si_id ?s),
      ld_stateStorage = max (ld_stateStorage (fb_stackFrames ?fb ! k)) (si_stateSize ?s)\<rparr>"
  let ?fb' = "?fb\<lparr>fb_currentInfos := fb_currentInfos ?fb @ [?s],
      fb_stackFrames := (fb_stackFrames ?fb)[length (fb_currentInfos ?fb) := ?fr]\<rparr>"
  define m1 where "m1 = (\<lambda>(w, req). applyEffect (w, req, []) (m\<lparr>m_base := ?fb'\<rparr>))"
  have k: "k < length path" using Suc.hyps(2) by simp
  then have len: "length (fb_currentInfos ?fb) = k" using Suc.prems(4) by simp
  have step: "doEntry d m = rbind (fd_construct d (si_id ?s) (m_world m)) (\<lambda>x. doEntry d (m1 x))"
    using k len Suc.prems(3,6) by (subst doEntry.simps) (simp add: Let_def m1_def split_def)
  have "safe d (walked q0 path m) (doEntry d (m1 x))" for x
  proof -
    obtain w req where x: "x = (w, req)" by (cases x)
    have ok: "frames_ok ?fb'" using Suc.prems(1) k len Suc.prems(6) by (intro frames_ok_push) simp_all
    have m1: "frames_ok (m_base (m1 x))" "queue_ok q0 (m_eventQueue (m1 x))"
      using ok applyEffect_safe(4) [of q0 "m\<lparr>m_base := ?fb'\<rparr>" "(w, req, [])"] Suc.prems(2) by (simp_all add: m1_def x)
    have same: "fb_currentInfos (m_base (m1 x)) = take (Suc k) path" "fb_nextInfos (m_base (m1 x)) = fb_nextInfos ?fb"
      "fb_setup (m_base (m1 x)) = fb_setup ?fb" "length (fb_stackFrames (m_base (m1 x))) = length (fb_stackFrames ?fb)"
      using k Suc.prems(4) by (simp_all add: m1_def x take_Suc_conv_app_nth)
    have "safe d (walked q0 path (m1 x)) (doEntry d (m1 x))"
      by (rule Suc.hyps(1) [of "Suc k"]) (use Suc.hyps(2) k m1 same Suc.prems(3,6) in simp_all)
    then show ?thesis by (rule safe_mono) (use same in \<open>simp add: walked_def\<close>)
  qed
  then show ?case unfolding step by (intro safe_bind [OF safe_user(1)])
qed

lemma doTransition_safe:
  assumes "machine_ok tbl q0 m" and "target \<in> set (fs_states tbl)"
  shows "\<exists>r. doTransition d target m = Some r \<and> safe d (machine_ok tbl q0) r"
proof -
  have m: "wf_setup tbl" "fb_setup (m_base m) = tbl" "queue_ok q0 (m_eventQueue m)" "length (fb_stackFrames (m_base m)) = fs_maxLevel tbl + 1"
    "frames_ok (m_base m)" "path_ok (m_base m)" using assms(1) by (simp_all add: machine_ok_def)
  define path where "path = pathTo tbl (si_level target) target"
  let ?fb = "(m_base m)\<lparr>fb_nextInfos := map Some path\<rparr>" and ?cur = "fb_currentInfos (m_base m)"
  let ?m = "m\<lparr>m_base := ?fb\<rparr>"
  have path: "length path = Suc (si_level target)" "last path = target" "path \<noteq> []"
    using length_pathTo [OF m(1) assms(2) refl] pathTo_last by (auto simp: path_def)
  have long: "length path \<le> length (fb_stackFrames (m_base m))" using path(1) m(1,4) assms(2) by (auto simp: wf_setup_def)
  have next1: "populateNextInfos target (m_base m) = Some (Inr ?fb)"
    using populateNextInfos_path [of "m_base m" target] m(1,2) assms(2) by (simp add: path_def)
  define l where "l = (if fb_currentInfos ?fb = [] then 0 else findFirstThatDiffer ?fb)"
  have l: "take l ?cur = take l path" "l \<le> length ?cur" "l \<le> length path"
  proof -
    have "take l ?cur = take l path \<and> l \<le> length ?cur \<and> l \<le> length path"
    proof (cases "?cur \<noteq> [] \<and> last ?cur = target")
      case True
      then have "?cur = path" "l = si_level target" using m(2,6) path(2,3) by (auto simp: l_def findFirstThatDiffer_def last_map path_ok_def path_def)
      then show ?thesis using path(1) by simp
    next
      case False
      then have "l = (if ?cur = [] then 0 else commonLevel ?cur (map Some path))"
        using path by (auto simp: l_def findFirstThatDiffer_def last_map)
      then show ?thesis using take_commonLevel [of ?cur path] by simp
    qed
    then show "take l ?cur = take l path" "l \<le> length ?cur" "l \<le> length path" by simp_all
  qed
  have fr: "frames_ok ?fb" using m(5) by (simp add: frames_ok_def stack_ok_def)
  have arrived: "machine_ok tbl q0 m2" if "walked q0 (take l path) ?m m1" "walked q0 path m1 m2" for m1 m2
    using that m path(2,3) assms(2) path(1) unfolding walked_def machine_ok_def path_ok_def
    by (simp add: path_def)
  have "safe d (walked q0 (take l path) ?m) (doExit d l ?m)" using doExit_safe [of ?m q0 l d] fr m(3) l by simp
  then have "safe d (machine_ok tbl q0) (rbind (doExit d l ?m) (doEntry d))"
  proof (rule safe_bind)
    fix m1 assume w: "walked q0 (take l path) ?m m1"
    then have "safe d (walked q0 path m1) (doEntry d m1)"
      using l(3) long by (intro doEntry_safe [where k = l]) (auto simp: walked_def)
    then show "safe d (machine_ok tbl q0) (doEntry d m1)" using arrived [OF w] by (rule safe_mono)
  qed
  then show ?thesis using next1 by (simp add: doTransition_def Let_def l_def)
qed

section \<open>Loops\<close>

lemma machine_ok_request:
  "machine_ok tbl q0 (m\<lparr>m_base := (m_base m)\<lparr>fb_stateUpdate := b\<rparr>\<rparr>) = machine_ok tbl q0 m"
  by (simp add: machine_ok_def frames_ok_def stack_ok_def path_ok_def)

lemma prepareTransition_safe:
  assumes "prepareTransition d m = Some r" and "machine_ok tbl q0 m"
  shows "safe d (machine_ok tbl q0) r"
proof -
  have "machine_ok tbl q0 m \<longrightarrow> safe d (machine_ok tbl q0) r"
  proof (rule prepareTransition.raw_induct [where P = "\<lambda>d m r. machine_ok tbl q0 m \<longrightarrow> safe d (machine_ok tbl q0) r", OF _ assms(1)], rule impI)
    fix f :: "('a, 'b) FsmDescription \<Rightarrow> ('a, 'b) FsmBase \<Rightarrow> ('a, 'b) FsmBase result option" and d m r
    assume IH: "\<And>d m r. f d m = Some r \<Longrightarrow> machine_ok tbl q0 m \<longrightarrow> safe d (machine_ok tbl q0) r" and ok: "machine_ok tbl q0 m"
      and run: "(if fb_stateUpdate (m_base m)
        then (case findState (fb_setup (m_base m)) (fb_nextState (m_base m)) of
              None \<Rightarrow> f d m
            | Some i \<Rightarrow>
                Option.bind (doTransition d i (m\<lparr>m_base := (m_base m)\<lparr>fb_stateUpdate := False\<rparr>\<rparr>))
                  (\<lambda>r. case r of Inl e \<Rightarrow> Some (Inl e) | Inr m' \<Rightarrow> f d m'))
        else Some (Inr m)) = Some r"
    let ?m = "m\<lparr>m_base := (m_base m)\<lparr>fb_stateUpdate := False\<rparr>\<rparr>"
    have tbl: "fb_setup (m_base m) = tbl" and okm: "machine_ok tbl q0 ?m"
      using ok machine_ok_request [of tbl q0 False m] by (simp_all add: machine_ok_def)
    consider "\<not> fb_stateUpdate (m_base m)" | "fb_stateUpdate (m_base m)" "findState tbl (fb_nextState (m_base m)) = None"
      | i where "fb_stateUpdate (m_base m)" "findState tbl (fb_nextState (m_base m)) = Some i" by fastforce
    then show "safe d (machine_ok tbl q0) r"
    proof cases
      case 1
      then show ?thesis using run ok by auto
    next
      case 2
      then show ?thesis using run IH ok tbl by auto
    next
      case (3 i)
      have "i \<in> set (fs_states tbl)" using findState_in [OF 3(2)] by simp
      from doTransition_safe [OF okm this] obtain r1 where r1: "doTransition d i ?m = Some r1" "safe d (machine_ok tbl q0) r1" by blast
      show ?thesis
      proof (cases r1)
        case (Inl e)
        then show ?thesis using run 3 tbl r1 by auto
      next
        case (Inr m1)
        then have "f d m1 = Some r" "machine_ok tbl q0 m1" using run 3 tbl r1 by simp_all
        then show ?thesis using IH by blast
      qed
    qed
  qed
  then show ?thesis using assms(2) by blast
qed

lemma emitEvents_safe:
  assumes "machine_ok tbl q0 m" and "level \<le> length (fb_currentInfos (m_base m))"
  shows "safe d (machine_ok tbl q0) (emitEvents d ev level m)"
  using assms
proof (induction level arbitrary: m)
  case (Suc level)
  let ?cur = "fb_currentInfos (m_base m)" and ?frames = "fb_stackFrames (m_base m)"
  have lt: "level < length ?frames" "ld_activeState (?frames ! level) = Some (si_id (?cur ! level))"
    using Suc.prems by (auto simp: machine_ok_def frames_ok_def stack_ok_def)
  have step: "emitEvents d ev (Suc level) m = rbind (fd_event d (si_id (?cur ! level)) ev (m_world m))
      (\<lambda>(handled, eff). let m' = applyEffect eff m in if handled then Inr m' else emitEvents d ev level m')"
    using lt by simp
  show ?case unfolding step
    by (rule safe_bind [OF safe_user(3)]) (use Suc.IH Suc.prems in \<open>auto simp: Let_def split_def\<close>)
qed simp

lemma processEvent_safe:
  assumes "processEvent d ev m = Some r" and "machine_ok tbl q0 m"
  shows "safe d (machine_ok tbl q0) r"
proof (cases "fb_currentInfos (m_base m) = []")
  case True
  then show ?thesis using assms by (auto simp: processEvent_def)
next
  case False
  note emit = emitEvents_safe [OF assms(2) order_refl, of d ev]
  show ?thesis
  proof (cases "emitEvents d ev (length (fb_currentInfos (m_base m))) m")
    case (Inl e)
    then show ?thesis using assms(1) False emit by (auto simp: processEvent_def)
  next
    case (Inr m1)
    then have "prepareTransition d m1 = Some r" using assms(1) False by (simp add: processEvent_def)
    then show ?thesis using prepareTransition_safe emit Inr by simp
  qed
qed

lemma processQueue_safe:
  assumes "processQueue d m = Some r" and "machine_ok tbl [] m"
  shows "safe d (machine_ok tbl []) r"
proof -
  have "machine_ok tbl [] m \<longrightarrow> safe d (machine_ok tbl []) r"
  proof (rule processQueue.raw_induct [where P = "\<lambda>d m r. machine_ok tbl [] m \<longrightarrow> safe d (machine_ok tbl []) r", OF _ assms(1)], rule impI)
    fix f :: "('a, 'b) FsmDescription \<Rightarrow> ('a, 'b) FsmBase \<Rightarrow> ('a, 'b) FsmBase result option" and d m r
    assume IH: "\<And>d m r. f d m = Some r \<Longrightarrow> machine_ok tbl [] m \<longrightarrow> safe d (machine_ok tbl []) r" and ok: "machine_ok tbl [] m"
      and run: "(if vq_empty (m_eventQueue m) then Some (Inr m)
      else (case vq_front (m_eventQueue m) of
              Inl e \<Rightarrow> Some (Inl e)
            | Inr ev \<Rightarrow>
                Option.bind (processEvent d ev m)
                  (\<lambda>r. case r of
                         Inl e \<Rightarrow> Some (Inl e)
                       | Inr m' \<Rightarrow> f d (m'\<lparr>m_eventQueue := vq_pop (m_eventQueue m')\<rparr>)))) = Some r"
    show "safe d (machine_ok tbl []) r"
    proof (cases "vq_list (m_eventQueue m)")
      case Nil
      then show ?thesis using run ok by (auto simp: machine_ok_def queue_ok_def)
    next
      case (Cons ev evs)
      then have front: "\<not> vq_empty (m_eventQueue m)" "vq_front (m_eventQueue m) = Inr ev" using ok by (simp_all add: machine_ok_def queue_ok_def)
      then obtain r1 where r1: "processEvent d ev m = Some r1" using run by (cases "processEvent d ev m") simp_all
      have "machine_ok tbl [ev] m" using ok Cons by (simp add: machine_ok_def queue_ok_def)
      note safe1 = processEvent_safe [OF r1 this]
      show ?thesis
      proof (cases r1)
        case (Inl e)
        then show ?thesis using run front r1 safe1 by auto
      next
        case (Inr m1)
        then have "f d (m1\<lparr>m_eventQueue := vq_pop (m_eventQueue m1)\<rparr>) = Some r" using run front r1 by simp
        moreover have "machine_ok tbl [] (m1\<lparr>m_eventQueue := vq_pop (m_eventQueue m1)\<rparr>)" using safe1 Inr by (auto simp: machine_ok_def queue_ok_def)
        ultimately show ?thesis using IH by blast
      qed
    qed
  qed
  then show ?thesis using assms(2) by blast
qed

lemma postEvent_safe:
  assumes "postEvent d ev m = Some r" and "machine_ok tbl [] m"
  shows "safe d (machine_ok tbl []) r"
proof -
  have "machine_ok tbl [] (m\<lparr>m_eventQueue := vq_push ev (m_eventQueue m)\<rparr>)" using assms(2) by (simp add: machine_ok_def queue_ok_def)
  then show ?thesis using assms(1) processQueue_safe by (auto simp: postEvent_def Let_def split: if_splits)
qed

lemma start_safe:
  fixes w :: 'w and d :: "('ev, 'w) FsmDescription"
  assumes "registered tbl" and "setStartState d i (mkFsmBase tbl w) = Some r"
  shows "safe d (machine_ok tbl []) r"
proof -
  let ?frames = "replicate (fs_maxLevel tbl + 1) \<lparr>ld_activeState = None, ld_stateStorage = 0\<rparr>"
  let ?m = "(mkFsmBase tbl w :: ('ev, 'w) FsmBase)\<lparr>m_base := (mkFsmBaseSupport tbl)
      \<lparr>fb_stackFrames := ?frames, fb_nextState := i, fb_stateUpdate := True\<rparr>\<rparr>"
  have "prepareTransition d ?m = Some r"
    using assms(2) by (simp add: setStartState_def mkFsmBase_def mkFsmBaseSupport_def del: replicate.simps replicate_Suc)
  moreover have "machine_ok tbl [] ?m"
    using registered_wf [OF assms(1)] vq.inv_new
    by (simp add: machine_ok_def mkFsmBase_def mkFsmBaseSupport_def frames_ok_def stack_ok_def path_ok_def queue_ok_def
        del: replicate.simps replicate_Suc)
  ultimately show ?thesis by (rule prepareTransition_safe)
qed

lemma cleanup_safe:
  assumes "machine_ok tbl [] m"
  shows "safe d (\<lambda>m'. fb_stackFrames (m_base m') = [] \<and> fb_currentInfos (m_base m') = []) (cleanup d m)"
proof -
  have "safe d (walked [] (take 0 (fb_currentInfos (m_base m))) m) (doExit d 0 m)"
    using assms by (intro doExit_safe) (simp_all add: machine_ok_def)
  then show ?thesis unfolding cleanup_def by (rule safe_bind) (simp add: walked_def)
qed

section \<open>Properties\<close>

text \<open>The life of a machine: it is started, events are posted, transitions requested from outside, and the object that the
  states work on changes in between.\<close>

inductive engine_runs :: "('ev, 'w) FsmDescription \<Rightarrow> ('ev, 'w) FsmBase \<Rightarrow> bool" for d where
  start: "registered tbl \<Longrightarrow> setStartState d i (mkFsmBase tbl w) = Some (Inr m) \<Longrightarrow> engine_runs d m"
| event: "engine_runs d m \<Longrightarrow> postEvent d ev m = Some (Inr m') \<Longrightarrow> engine_runs d m'"
| request: "engine_runs d m \<Longrightarrow> engine_runs d (m\<lparr>m_base := transition i (m_base m)\<rparr>)"
| object: "engine_runs d m \<Longrightarrow> engine_runs d (m\<lparr>m_world := w\<rparr>)"

lemma engine_runs_ok: "engine_runs d m \<Longrightarrow> \<exists>tbl. machine_ok tbl [] m"
proof (induction rule: engine_runs.induct)
  case (start tbl i w m)
  then show ?case using start_safe [OF start] by auto
next
  case (event m ev m')
  then show ?case using postEvent_safe [OF event(2)] by auto
next
  case (request m i)
  then obtain tbl where "machine_ok tbl [] m" by blast
  then have "machine_ok tbl [] (m\<lparr>m_base := transition i (m_base m)\<rparr>)"
    by (auto simp: machine_ok_def frames_ok_def stack_ok_def path_ok_def transition_def)
  then show ?case by blast
next
  case (object m w)
  then show ?case by (auto simp: machine_ok_def)
qed


text \<open>Three states, two of them below the first, and the machine just started in one of the inner states.\<close>

definition exampleRegistration :: "FsmSetupBase result" where
  "exampleRegistration = rbind (addStateBase 0 0 8 ''outer'' mkFsmSetupBase) (\<lambda>t1.
     rbind (addStateBase 1 0 24 ''first'' t1) (addStateBase 2 0 16 ''second''))"

lemma exampleRegistration_registered:
  assumes "exampleRegistration = Inr tbl"
  shows "registered tbl"
proof -
  have ids: "si_id ` set (fs_states t') = insert i (si_id ` set (fs_states t))" if "addStateBase i p sz nm t = Inr t'" for i p sz nm t t'
    using that by (auto simp: addStateBase_def Let_def rbind_eq_Inr)
  obtain t1 t2 where t: "addStateBase 0 0 8 ''outer'' mkFsmSetupBase = Inr t1" "addStateBase 1 0 24 ''first'' t1 = Inr t2"
    "addStateBase 2 0 16 ''second'' t2 = Inr tbl"
    using assms by (auto simp: exampleRegistration_def rbind_eq_Inr)
  have "registered t1" by (rule registered.add [OF registered.none _ t(1)]) (simp add: mkFsmSetupBase_def)
  then have "registered t2" by (rule registered.add [OF _ _ t(2)]) (simp add: ids [OF t(1)] mkFsmSetupBase_def)
  then show ?thesis by (rule registered.add [OF _ _ t(3)]) (simp add: ids [OF t(1)] ids [OF t(2)] mkFsmSetupBase_def)
qed


end
