(* ===== verification/Fd_Ownership.thy ===== *)
theory Fd_Ownership
  imports Host_Drivers "HOL-Library.Multiset"
begin

text \<open>
  File descriptors and their owners (\<open>PosixFd\<close>, \<open>src/src/hal/PosixFd.{h,cpp}\<close>): any number of owners that are created,
  given descriptors, moved from, closed and destroyed in any order, together with the kernel, which knows the open
  descriptors. The kernel never hands out a descriptor that is open; closing one that is not open is an error.
\<close>

section \<open>The kernel\<close>

text \<open>The open descriptors, or \<open>None\<close> after a bad call of \<open>close\<close>.\<close>

type_synonym kernel = "int set option"

definition kopen :: "int \<Rightarrow> kernel \<Rightarrow> kernel" where
  "kopen fd k = (if 0 \<le> fd then map_option (insert fd) k else k)"

definition kclose :: "int \<Rightarrow> kernel \<Rightarrow> kernel" where
  "kclose fd k = Option.bind k (\<lambda>fds. if fd \<in> fds then Some (fds - {fd}) else None)"

definition unused :: "int \<Rightarrow> kernel \<Rightarrow> bool" where
  "unused fd k \<longleftrightarrow> fd < 0 \<or> (\<forall>fds. k = Some fds \<longrightarrow> fd \<notin> fds)"

text \<open>The calls of \<open>close\<close> between two states of an owner.\<close>

definition closes :: "PosixFd \<Rightarrow> PosixFd \<Rightarrow> kernel \<Rightarrow> kernel" where
  "closes p p' k = fold kclose (drop (length (fd_closed p)) (fd_closed p')) k"

section \<open>Runs\<close>

text \<open>In \<open>set\<close> the new descriptor is opened before the old one is closed: it is the argument of the call.\<close>

inductive fd_runs :: "PosixFd list \<Rightarrow> kernel \<Rightarrow> bool" where
  none: "fd_runs [] (Some {})"
| construct: "fd_runs ps k \<Longrightarrow> fd_runs (ps @ [mkPosixFd]) k"
| make: "fd_runs ps k \<Longrightarrow> unused fd k \<Longrightarrow> fd_runs (ps @ [makeFd fd]) (kopen fd k)"
| set: "fd_runs ps k \<Longrightarrow> i < length ps \<Longrightarrow> unused fd k \<Longrightarrow>
    fd_runs (ps[i := fd_set fd (ps ! i)]) (closes (ps ! i) (fd_set fd (ps ! i)) (kopen fd k))"
| close: "fd_runs ps k \<Longrightarrow> i < length ps \<Longrightarrow>
    fd_runs (ps[i := fd_close (ps ! i)]) (closes (ps ! i) (fd_close (ps ! i)) k)"
| move: "fd_runs ps k \<Longrightarrow> i < length ps \<Longrightarrow> fd_move (ps ! i) = (p, q) \<Longrightarrow> fd_runs (ps[i := q] @ [p]) k"
| destroy: "fd_runs ps k \<Longrightarrow> i < length ps \<Longrightarrow>
    fd_runs (take i ps @ drop (Suc i) ps) (closes (ps ! i) (fd_destroy (ps ! i)) k)"

text \<open>The descriptors that are owned, with multiplicity.\<close>

definition owned :: "PosixFd list \<Rightarrow> int multiset" where
  "owned ps = mset (filter (\<lambda>fd. 0 \<le> fd) (map fd_fd ps))"

text \<open>Every open descriptor has exactly one owner, and every owned descriptor is open.\<close>

definition fds_ok :: "PosixFd list \<Rightarrow> kernel \<Rightarrow> bool" where
  "fds_ok ps k \<longleftrightarrow> list_all fd_posixIf ps \<and> (\<exists>fds. finite fds \<and> k = Some fds \<and> owned ps = mset_set fds)"

definition ownedBy :: "PosixFd \<Rightarrow> int multiset" where
  "ownedBy p = (if 0 \<le> fd_fd p then {#fd_fd p#} else {#})"

lemma owned_simps [simp]:
  "owned [] = {#}" "owned (p # ps) = ownedBy p + owned ps" "owned (ps @ qs) = owned ps + owned qs"
  by (simp_all add: owned_def ownedBy_def)

lemma owned_split: "i < length ps \<Longrightarrow> owned ps = owned (take i ps) + ownedBy (ps ! i) + owned (drop (Suc i) ps)"
  by (metis append_assoc id_take_nth_drop owned_simps(2,3) union_assoc)

lemma owned_update: "i < length ps \<Longrightarrow> owned (ps[i := p]) + ownedBy (ps ! i) = owned ps + ownedBy p"
  by (simp add: owned_split [of i ps] upd_conv_take_nth_drop)

lemma mset_set_remove: "finite fds \<Longrightarrow> M + {#x#} = mset_set fds \<Longrightarrow> x \<in> fds \<and> M = mset_set (fds - {x})"
proof -
  assume fin: "finite fds" and eq: "M + {#x#} = mset_set fds"
  have "x \<in># mset_set fds" unfolding eq [symmetric] by simp
  then have x: "x \<in> fds" using fin by simp
  then have "mset_set fds = mset_set (fds - {x}) + {#x#}" using fin by (simp add: mset_set.remove)
  then show ?thesis using eq x by simp
qed

lemma ownedBy_makeFd: "ownedBy (makeFd fd) = (if 0 \<le> fd then {#fd#} else {#})"
  by (simp add: ownedBy_def makeFd_def)

lemma ownedBy_set: "ownedBy (fd_set fd p) = (if 0 \<le> fd then {#fd#} else {#})"
  by (simp add: ownedBy_def fd_set_def)

text \<open>Giving up what an owner has, and being given something.\<close>

lemma closes_owned:
  assumes "owned ps' + ownedBy p = mset_set fds" and "finite fds" and "fd_posixIf p"
    and "fd_closed p' = fd_closed p @ (if 0 \<le> fd_fd p then [fd_fd p] else [])"
  shows "\<exists>fds'. finite fds' \<and> closes p p' (Some fds) = Some fds' \<and> owned ps' = mset_set fds'"
proof (cases "0 \<le> fd_fd p")
  case True
  then have "fd_fd p \<in> fds \<and> owned ps' = mset_set (fds - {fd_fd p})"
    using mset_set_remove [OF assms(2), of "owned ps'" "fd_fd p"] assms(1) by (simp add: ownedBy_def)
  then show ?thesis using True assms(2,4) by (simp add: closes_def kclose_def)
next
  case False
  then show ?thesis using assms by (simp add: closes_def ownedBy_def)
qed

lemma opened_owned:
  assumes "owned ps = mset_set fds" and "finite fds" and "unused fd (Some fds)"
  shows "\<exists>fds'. finite fds' \<and> kopen fd (Some fds) = Some fds' \<and> owned ps + (if 0 \<le> fd then {#fd#} else {#}) = mset_set fds'"
  using assms by (auto simp: kopen_def unused_def)

lemma list_all_update: "list_all P xs \<Longrightarrow> P x \<Longrightarrow> list_all P (xs[i := x])"
  by (auto simp: list_all_iff dest!: set_update_subset_insert [THEN subsetD])

lemma fd_runs_ok: "fd_runs ps k \<Longrightarrow> fds_ok ps k"
proof (induction rule: fd_runs.induct)
  case none
  then show ?case by (simp add: fds_ok_def)
next
  case (construct ps k)
  then show ?case by (simp add: fds_ok_def mkPosixFd_def ownedBy_def)
next
  case (make ps k fd)
  then obtain fds where k: "k = Some fds" "finite fds" "owned ps = mset_set fds" by (auto simp: fds_ok_def)
  have "list_all fd_posixIf ps" using make(3) by (simp add: fds_ok_def)
  moreover obtain fds1 where "finite fds1" "kopen fd k = Some fds1" "owned ps + ownedBy (makeFd fd) = mset_set fds1"
    using opened_owned [OF k(3,2), of fd] make(2) unfolding k(1) ownedBy_makeFd by blast
  ultimately show ?case by (simp add: fds_ok_def) (simp add: makeFd_def)
next
  case (set ps k i fd)
  let ?p = "ps ! i" and ?q = "fd_set fd (ps ! i)"
  obtain fds where k: "k = Some fds" "finite fds" "owned ps = mset_set fds" and all: "list_all fd_posixIf ps"
    using set(4) by (auto simp: fds_ok_def)
  have p: "fd_posixIf ?p" using all set(2) by (simp add: list_all_length)
  obtain fds1 where fds1: "finite fds1" "kopen fd k = Some fds1" "owned ps + ownedBy ?q = mset_set fds1"
    using opened_owned [OF k(3,2), of fd] set(3) unfolding k(1) ownedBy_set by blast
  have "owned (ps[i := ?q]) + ownedBy ?p = mset_set fds1" using owned_update [OF set(2), of ?q] fds1(3) by simp
  moreover have "fd_closed ?q = fd_closed ?p @ (if 0 \<le> fd_fd ?p then [fd_fd ?p] else [])" using p by (simp add: fd_set_def)
  ultimately show ?case using closes_owned [OF _ fds1(1) p] fds1(2) list_all_update [OF all, of ?q] p
    by (auto simp: fds_ok_def fd_set_def)
next
  case (close ps k i)
  let ?p = "ps ! i" and ?q = "fd_close (ps ! i)"
  obtain fds where k: "k = Some fds" "finite fds" "owned ps = mset_set fds" and all: "list_all fd_posixIf ps"
    using close(3) by (auto simp: fds_ok_def)
  have p: "fd_posixIf ?p" using all close(2) by (simp add: list_all_length)
  have "owned (ps[i := ?q]) + ownedBy ?p = mset_set fds" using owned_update [OF close(2), of ?q] k(3)
    by (simp add: ownedBy_def fd_close_def fd_set_def)
  moreover have "fd_closed ?q = fd_closed ?p @ (if 0 \<le> fd_fd ?p then [fd_fd ?p] else [])" using p by (simp add: fd_close_def fd_set_def)
  ultimately show ?case using closes_owned [OF _ k(2) p] k(1) list_all_update [OF all, of ?q] p
    by (auto simp: fds_ok_def fd_close_def fd_set_def)
next
  case (move ps k i p q)
  then have pq: "ownedBy p = ownedBy (ps ! i)" "ownedBy q = {#}" "fd_posixIf p = fd_posixIf (ps ! i)" "fd_posixIf q = fd_posixIf (ps ! i)"
    by (auto simp: fd_move_def ownedBy_def)
  have "fd_posixIf (ps ! i)" using move(2,4) by (simp add: fds_ok_def list_all_length)
  then show ?case using move(4) list_all_update [of fd_posixIf ps q i] owned_update [OF move(2), of q] pq by (simp add: fds_ok_def)
next
  case (destroy ps k i)
  let ?p = "ps ! i" and ?q = "fd_destroy (ps ! i)" and ?ps = "take i ps @ drop (Suc i) ps"
  obtain fds where k: "k = Some fds" "finite fds" "owned ps = mset_set fds" and all: "list_all fd_posixIf ps"
    using destroy(3) by (auto simp: fds_ok_def)
  have p: "fd_posixIf ?p" using all destroy(2) by (simp add: list_all_length)
  have "owned ?ps + ownedBy ?p = mset_set fds" using owned_split [OF destroy(2)] k(3) by (simp add: ac_simps)
  moreover have "fd_closed ?q = fd_closed ?p @ (if 0 \<le> fd_fd ?p then [fd_fd ?p] else [])" using p by (simp add: fd_destroy_def fd_set_def)
  moreover have "list_all fd_posixIf ?ps" using all by (auto simp: list_all_iff dest: in_set_takeD in_set_dropD)
  ultimately show ?case using closes_owned [of ?ps, OF _ k(2) p] unfolding fds_ok_def k(1) by blast
qed

section \<open>Properties\<close>

text \<open>
  C37: Descriptors are neither leaked nor closed twice. Whatever owners are created, given descriptors, moved, closed and
  destroyed, in any order: \<open>close\<close> is only ever called for a descriptor that is open, every open descriptor has
  exactly one owner and every owner's descriptor is open. In particular nothing is open once all owners are destroyed.
\<close>

theorem descriptors_owned_once:
  assumes "fd_runs ps k"
  shows "\<exists>fds. k = Some fds \<and> mset (filter (\<lambda>fd. 0 \<le> fd) (map fd_fd ps)) = mset_set fds \<and> finite fds \<and> (ps = [] \<longrightarrow> fds = {})"
proof -
  obtain fds where fds: "k = Some fds" "finite fds" "owned ps = mset_set fds" using fd_runs_ok [OF assms] by (auto simp: fds_ok_def)
  moreover have "ps = [] \<longrightarrow> fds = {}" using fds(2,3) by (auto simp: mset_set_empty_iff)
  ultimately show ?thesis by (auto simp: owned_def)
qed

text \<open>A socket is made, its owner moved from, and the new owner given another descriptor.\<close>

theorem descriptors_owned_once_witness:
  "\<exists>ps k. fd_runs ps k \<and> map fd_fd ps = [-1, 4] \<and> k = Some {4}"
proof -
  have r1: "fd_runs [makeFd 3] (kopen 3 (Some {}))" using fd_runs.make [OF fd_runs.none, of 3] by (simp add: unused_def)
  let ?ps = "[(makeFd 3)\<lparr>fd_fd := -1\<rparr>, makeFd 3]"
  have r2: "fd_runs ?ps (kopen 3 (Some {}))"
    using fd_runs.move [OF r1, of 0 "makeFd 3" "(makeFd 3)\<lparr>fd_fd := -1\<rparr>"] by (simp add: fd_move_def makeFd_def)
  define ps where "ps = ?ps[1 := fd_set 4 (?ps ! 1)]"
  have "unused 4 (kopen 3 (Some {}))" by (simp add: unused_def kopen_def)
  then obtain k where r3: "fd_runs ps k" using fd_runs.set [OF r2, of 1 4] unfolding ps_def by auto
  have fds: "map fd_fd ps = [-1, 4]" by (simp add: ps_def fd_set_def makeFd_def)
  obtain s where "k = Some s" "finite s" "{#4#} = mset_set s" using descriptors_owned_once [OF r3] unfolding fds by auto
  moreover from this have "s = {4}" by (metis finite_set_mset_mset_set set_mset_single)
  ultimately show ?thesis using r3 fds by (intro exI [of _ ps] exI [of _ k]) simp
qed

end
