(* ===== verification/Spec2Isabelle.thy ===== *)
theory Spec2Isabelle
  imports Network_Liveness Network_Refinement Timer_Refinement SN_Program Side_Parts State_Chart_Safety Fd_Ownership
begin

text \<open>
  \<^bold>\<open>serial_net: a network over one serial bus.\<close>

  The program connects hosts that share one serial line (RS485, or RS232 with several listeners).
  All nodes hear all bytes; a node may only transmit when it holds the token. One node runs the
  \<^emph>\<open>master\<close>, which grants the token to one address after the other, polls for new clients and assigns
  them addresses. On the host side a node offers the bus as a network interface (tap or tun), as a
  pseudo terminal or on its standard streams.

  \<^bold>\<open>Parts, and the theories that model them.\<close> Paths are relative to \<open>src/src\<close>.

  \<^item> \<open>SN_Prelude\<close>: machine types, run time errors (\<open>cpp_error\<close>), results \<open>cpp_error + 'a\<close>, vectors, checksums,
    and the collections \<open>layout_simps\<close>, \<open>frame_simps\<close>, \<open>master_simps\<close>.
  \<^item> \<open>Serial_Protocol\<close> (\<open>interfaces/SerialProtocol.h\<close>): message types, addresses, channels, and the layout
    of the nine packet headers, written and read.
  \<^item> \<open>Frame_Codec\<close> (\<open>core/FrameCodec.{h,cpp}\<close>): the byte format of a packet on the wire; the encoder, the
    decoder with its four states, and out of bounds accesses as the error \<open>Out_Of_Bounds\<close>.
  \<^item> \<open>Msg_To_Byte\<close> (\<open>core/MsgToByteAdapter.{h,cpp}\<close>): messages over bytes, with the 0.1 s limit for a started
    frame.
  \<^item> \<open>Tx_Queue\<close> (\<open>core/OwnAddress\<close>, \<open>core/TxQueue\<close>): the node's address and the queue of packets that wait for
    the token.
  \<^item> \<open>Address_Cache\<close> (\<open>core/AddressCache\<close>): MAC addresses of the nodes.
  \<^item> \<open>Packet_Type_Codec\<close> (\<open>core/PacketTypeCodec\<close>, \<open>core/ClientAddress\<close>): dispatch of received packets, delivery to
    the host and the client's side of the address negotiation.
  \<^item> \<open>Vec_Queue\<close> (\<open>utility/VecQueue.h\<close>): the vector queue with renormalisation.
  \<^item> \<open>State_Chart\<close> (\<open>statechart/StateChart.{h,cpp}\<close>): the hierarchical state machine engine: table of states,
    transitions, exit and entry actions, event queue.
  \<^item> \<open>State_Chart_Safety\<close>: the engine as a machine that clients drive (\<open>engine_runs\<close>): every sequence of events and
    requested transitions after a start on a registered table, with states that construct, destroy, handle and request as they like.
  \<^item> \<open>Time_Service\<close> (\<open>interfaces/TimeServiceIf.h\<close>, \<open>hal/TimeServiceEv\<close>): timers and their handles.
  \<^item> \<open>Master_Scheduler\<close> (\<open>master/Action\<close>, \<open>master/MasterScheduler\<close>, \<open>utility/Config.h\<close>): actions, the queue of
    waiting actions ordered by time, the queue of ready actions.
  \<^item> \<open>Address_Table\<close> (\<open>master/AddressLine.h\<close>, \<open>master/DynamicHandler\<close>): the rows of the address store.
  \<^item> \<open>Action_Handler\<close> (\<open>master/ActionHandler\<close>, \<open>master/DynamicHandler\<close>, \<open>master/MasterPacketTx.h\<close>): the objects of
    the master as one record \<open>MasterWorld\<close>, assignment and release of addresses, packets of the master.
  \<^item> \<open>Master_FSM\<close> (\<open>master/MasterFSM\<close>): the six states of the master, run by the engine of \<open>State_Chart\<close>.
  \<^item> \<open>Bus_Master\<close> (\<open>master/Master\<close>): construction, reception, timers; the inputs of the master as the
    datatype \<open>bus_input\<close>, its step function \<open>masterStep\<close> and the inductive predicate \<open>reachable\<close>.
  \<^item> \<open>Master_Invariant\<close>, \<open>Master_Correct\<close>: the invariant of the master, and what follows from it.
  \<^item> \<open>Master_Messages\<close>: what the master says on the bus for each input, and which rows it keeps.
  \<^item> \<open>Event_Loop\<close> (\<open>eventwrapper\<close>, \<open>hal/TimeServiceEv.cpp\<close>): the objects that wrap libev watchers, who keeps them
    alive and when they are destroyed.
  \<^item> \<open>Text_Output\<close> (\<open>utility/Utility\<close>, \<open>core/WSDump\<close>, \<open>utility/Log\<close>): times, packet dump and log lines as text.
  \<^item> \<open>Tap_Protocol\<close>, \<open>Tun_Protocol\<close> (\<open>drivers/tap/TapProtocol\<close>, \<open>drivers/tun/TunProtocol\<close>): Ethernet frames and IP
    packets between a device and the bus.
  \<^item> \<open>Host_Drivers\<close> (\<open>drivers/tap\<close>, \<open>drivers/tun\<close>, \<open>hal/PosixFd\<close>): device setup, interface state, the
    drivers over real devices and over socat.
  \<^item> \<open>Fd_Ownership\<close> (\<open>hal/PosixFd\<close>): runs of programs over owners of file descriptors and a kernel that hands them out.
  \<^item> \<open>Raw_Drivers\<close> (\<open>drivers/pty\<close>, \<open>drivers/stdstream\<close>, \<open>core/FolderManager\<close>): pseudo terminals, links in the
    file system, standard streams.
  \<^item> \<open>Serial_Port\<close> (\<open>drivers/serial\<close>): settings of the port, bytes in and out.
  \<^item> \<open>SN_Config\<close> (\<open>mains/serialnet/SNConfig\<close>, \<open>main.cpp\<close>): modes and options.
  \<^item> \<open>Serial_Net\<close> (\<open>mains/serialnet/SerialNet\<close>): a whole node, from the bytes of the port to the driver.
  \<^item> \<open>Bus_Network\<close>: the composition: one master node and any number of client nodes on one bus. The
    inductive predicate \<open>net_reachable\<close> has a step for every thing that can happen: delivery of the frame on the
    bus to all nodes, a timer of the master, the passing of time, data and MAC updates from the hosts,
    a node that joins and a node that leaves. The bus delivers every frame undamaged to every node, the sender included, before
    the next timer fires, and nodes that have no address yet join one at a time.
  \<^item> \<open>Network_Delivery\<close>: runs of that network with their history (\<open>net_log\<close>): the packets accepted from the hosts, those
    transmitted, in order, and those lost with a node that left.
  \<^item> \<open>Master_Line\<close>: the order in which the master works: an input that ends an action takes the next one from the
    front of the line of ready and due actions, other inputs only append to it.
  \<^item> \<open>Network_Liveness\<close>: runs of the network without the hosts (\<open>net_runs\<close>): frames that are delivered, time that passes and
    timers that have expired. The token of a node moves forward in the line until it is granted.
  \<^item> \<open>Broadcast_Channel\<close>: what the network promises, without master, token and frames: an executable channel (\<open>ch_do\<close>, \<open>ch_run\<close>) that
    carries one packet at a time from the front of a station's queue to all stations it is addressed to.
  \<^item> \<open>Network_Refinement\<close>: the network implements that channel; \<open>net_step\<close> labels its steps with their causes, \<open>channelOf\<close> is the
    abstraction, \<open>net_obs\<close> what the hosts see of a step.
  \<^item> \<open>Timer_Refinement\<close>: the timers of \<open>Time_Service\<close> are an abstraction of the timer objects of \<open>Event_Loop\<close>; the relation
    \<open>timers_sim\<close> is kept by every operation of clients and by every event.
  \<^item> \<open>SN_Program\<close> (\<open>mains/serialnet/main.cpp\<close>, \<open>SerialNet::mainLoop\<close>): the program: command line, start, events of
    the loop in iterations, SIGINT, the exit code.
  \<^item> \<open>Side_Parts\<close> (\<open>utility/Timer\<close>, \<open>mains/hw_tests\<close>, \<open>drivers/mqtt/MQTTDriver\<close>, \<open>utility/Config.cpp\<close>,
    \<open>master/DynamicAddress\<close>, \<open>hal/TimeServiceSim\<close>, \<open>hal/PosixFileFake.h\<close>): classes that the network program does not use, and the
    program for hardware tests.

  \<^bold>\<open>How state and effects are modelled.\<close> Each class is a record with the class's members, each member
  function a function on the record. Exceptions, failed assertions, accesses out of bounds and null
  pointers are values \<open>Inl e\<close>. Messages handed to an interface are appended to a list in the state of
  the caller (\<open>tq_sent\<close>, \<open>mb_txBytes\<close>), in order. Objects shared by pointer are one field, threaded through
  the calls. System calls, uninitialised memory and random choices are arguments. Bytes and header
  fields are \<open>8 word\<close>, the length arithmetic of the decoder is \<open>64 word\<close>; times are reals.

  \<^bold>\<open>Loops.\<close> Three loops of the state machine engine need not end and are partial functions in the
  option monad (\<open>populateUp\<close>, \<open>prepareTransition\<close>, \<open>processQueue\<close>): \<open>None\<close> means that the call does not return.
  For the master it is proved that they do return; \<open>unknown_transition_diverges\<close> shows a call that does
  not. All other loops are total functions with a measure. No fuel is used.

  \<^bold>\<open>Interfaces.\<close> The locale \<open>fifo_queue\<close> (interpreted by the vector queue) carries the FIFO laws,
  \<open>priority_queue\<close> (by the queue of the scheduler) its order, \<open>frame_layer\<close> (by the frame codec) the
  segmentation of a stream of frames, \<open>mac_cache\<close> (by the address cache) the laws of the table,
  \<open>flat_fsm\<close> (by the master's states) the behaviour of the engine on a machine without nesting, and
  \<open>address_listener\<close> (by the tap and by the tun driver) the handling of address changes. \<open>channel_service\<close> (by the network) is the
  contract of an implementation of the broadcast channel, from which order and delivery follow.

  \<^bold>\<open>What is proved.\<close>

  \<^item> Wire format: frames round trip, streams of frames are segmented correctly whatever lies between
    them, a changed payload byte is detected, and the decoder is memory safe except for a frame of
    announced length 0, which writes out of bounds.
  \<^item> Queues: FIFO order and bounded storage of the vector queue; the scheduler releases exactly the
    due actions in order.
  \<^item> State machine engine: order of exit and entry actions for every registered table; in every run the engine's own
    accesses are in bounds and never follow a null pointer, and every state object fits into the storage of its level.
  \<^item> Master: for every sequence of inputs it neither crashes nor loops; one token for each address;
    every address is polled in bounded time; assigned addresses are unique; requests are answered
    consistently; and one way to stall it for good.
  \<^item> Clients: every packet is survived; at most one message for each token; data is delivered once;
    address negotiation.
  \<^item> Node: a started node is well-formed, survives every frame, and two nodes deliver a packet and
    negotiate an address end to end, from bytes to bytes.
  \<^item> Network: on such a bus at most one node speaks at a time and the master never stalls;
    no node ever fails; no two nodes hold the same address; the address of every node stays in
    the master's schedule. Everything on the wire is a well-typed message; no data packet is lost, doubled or
    invented; hosts get packets in the order of transmission, each at most once; and a granted token moves the
    first waiting packet to exactly the hosts it is addressed to. The network refines a broadcast
    channel that knows neither master nor tokens: packets of a sender never overtake each other, and all hosts see them in one order.
    From every reachable state, bus and clock alone can
    bring the first waiting packet of every known node to those hosts.
  \<^item> Program: after any start, events in any order and bytes in any portions, a node fails only in three ways, which
    are named; \<open>main\<close> never hangs and returns exactly after SIGINT or the end of the master, and the end of the
    master reaches every node.
  \<^item> Event loop: callbacks of watchers never touch a destroyed object, with one exception that is proved to
    be an error of the program: a timer of the time service whose callback drops the last handle. A cancelled
    timer is never freed. In every run the registered timers are the pending timers of the time service.
  \<^item> Text: the dump of packets can be read back, printed times are exact to half a nanosecond.
  \<^item> Drivers and configuration: what is forwarded, when the interface is up, how a pseudo terminal is
    restored, and where length fields are trusted; no file descriptor is owned twice, lost or closed twice.

  \<^bold>\<open>Not modelled.\<close> libev (waiting for events, the clock) and the option parser (boost) are third-party code;
  their callbacks and results are the inputs of the model. The help text and the version are constants.
  The MQTT classes besides the client have no code. The system interfaces (\<open>hal/Posix*Real\<close>) forward to system calls, whose results are
  arguments, and the factory hands them to the drivers. The unit tests are test code. Of the placement of state objects in the
  buffer of the engine only the sizes are modelled, not addresses and alignment; destruction of an object is the effect of its destructor.
  Nodes, network and program take writing to the port to succeed (\<open>sendBytes\<close>
  of \<open>Serial_Port\<close> has the failure), and use the timers of \<open>Time_Service\<close>, in which a fired timer is simply gone:
  \<open>Timer_Refinement\<close> justifies this up to the destruction of timer objects, which is the subject of \<open>Event_Loop\<close>.
\<close>

end
